(* ===== verification/Ioxx_Prelude.thy ===== *)
theory Ioxx_Prelude
  imports Main "HOL-Library.Word"
begin

text \<open>
  Shared vocabulary of the development: the ways a call of the library can end, operations over
  an explicit state, and the generic lemmas the component theories use.

  An operation that always ends is a function from the state to a pair of an outcome and the new
  state (\<open>op\<close>).  The state is returned with every outcome, because a C++ exception does not undo
  the side effects made before it was thrown.  An operation that calls back into the application,
  or that loops on the answers of the environment, may not end: it is a \<open>prog\<close>, whose value
  \<^const>\<open>None\<close> means that the call never returns.

  The build that is modelled is the debug build, in which \<open>BOOST_ASSERT\<close> aborts the program.  An
  aborted assertion, undefined behaviour and a call of \<open>std::terminate\<close> are outcomes too, and
  they are not exceptions: no handler catches them and no destructor runs.
\<close>

named_theorems op_defs "definitions of the operation combinators"
named_theorems op_simps "evaluation rules of the operation combinators"

section \<open>Outcomes\<close>

datatype fault =
    System_error int string
  | Runtime_error string
  | Invalid_argument string
  | Assertion_failed
  | Undefined_behaviour
  | Terminated

fun is_exception :: "fault \<Rightarrow> bool" where
  "is_exception (System_error ec ctx) = True"
| "is_exception (Runtime_error msg) = True"
| "is_exception (Invalid_argument msg) = True"
| "is_exception Assertion_failed = False"
| "is_exception Undefined_behaviour = False"
| "is_exception Terminated = False"

type_synonym ('s, 'a) op = "'s \<Rightarrow> (fault + 'a) \<times> 's"
type_synonym ('s, 'a) prog = "'s \<Rightarrow> ((fault + 'a) \<times> 's) option"

section \<open>Operations that always end\<close>

definition ret :: "'a \<Rightarrow> ('s, 'a) op" where
  "ret a s = (Inr a, s)"

definition raise_op :: "fault \<Rightarrow> ('s, 'a) op" where
  "raise_op e s = (Inl e, s)"

definition bind_op :: "('s, 'a) op \<Rightarrow> ('a \<Rightarrow> ('s, 'b) op) \<Rightarrow> ('s, 'b) op" where
  "bind_op m k s = (case m s of (Inl e, t) \<Rightarrow> (Inl e, t) | (Inr a, t) \<Rightarrow> k a t)"

definition then_op :: "('s, 'a) op \<Rightarrow> ('s, 'b) op \<Rightarrow> ('s, 'b) op" where
  "then_op m n = bind_op m (\<lambda>_. n)"

definition assert_op :: "bool \<Rightarrow> ('s, unit) op" where
  "assert_op b s = ((if b then Inr () else Inl Assertion_failed), s)"

definition guard_op :: "bool \<Rightarrow> ('s, unit) op" where
  "guard_op b s = ((if b then Inr () else Inl Undefined_behaviour), s)"

definition modify_op :: "('s \<Rightarrow> 's) \<Rightarrow> ('s, unit) op" where
  "modify_op f s = (Inr (), f s)"

definition gets_op :: "('s \<Rightarrow> 'a) \<Rightarrow> ('s, 'a) op" where
  "gets_op f s = (Inr (f s), s)"

text \<open>A body and the destructor of a local object, which runs when the body ends and when an
  exception leaves it.  A destructor that throws while an exception is in flight ends the program.\<close>

definition with_dtor :: "('s, 'a) op \<Rightarrow> ('s, unit) op \<Rightarrow> ('s, 'a) op" where
  "with_dtor m d s = (case m s of
     (Inr a, t) \<Rightarrow> (case d t of (Inr _, u) \<Rightarrow> (Inr a, u) | (Inl e, u) \<Rightarrow> (Inl e, u))
   | (Inl e, t) \<Rightarrow>
       (if is_exception e
        then (case d t of
            (Inr _, u) \<Rightarrow> (Inl e, u)
          | (Inl e', u) \<Rightarrow> (Inl (if is_exception e' then Terminated else e'), u))
        else (Inl e, t)))"

text \<open>\<open>catch (...) { cleanup; throw; }\<close>\<close>

definition on_exception :: "('s, 'a) op \<Rightarrow> ('s \<Rightarrow> 's) \<Rightarrow> ('s, 'a) op" where
  "on_exception m f s = (case m s of
     (Inr a, t) \<Rightarrow> (Inr a, t)
   | (Inl e, t) \<Rightarrow> (Inl e, if is_exception e then f t else t))"

text \<open>The rest of a constructor, and the destructor of a base class or member that is already
  constructed: it runs only when an exception leaves the constructor.\<close>

definition unwind_op :: "('s, 'a) op \<Rightarrow> ('s, unit) op \<Rightarrow> ('s, 'a) op" where
  "unwind_op m d s = (case m s of
     (Inr a, t) \<Rightarrow> (Inr a, t)
   | (Inl e, t) \<Rightarrow>
       (if is_exception e
        then (case d t of
            (Inr _, u) \<Rightarrow> (Inl e, u)
          | (Inl e', u) \<Rightarrow> (Inl (if is_exception e' then Terminated else e'), u))
        else (Inl e, t)))"

declare ret_def [op_defs] raise_op_def [op_defs] bind_op_def [op_defs] then_op_def [op_defs]
  assert_op_def [op_defs] guard_op_def [op_defs] modify_op_def [op_defs] gets_op_def [op_defs]

lemma ret_apply [op_simps]: "ret a s = (Inr a, s)"
  by (simp add: ret_def)

lemma raise_apply [op_simps]: "raise_op e s = (Inl e, s)"
  by (simp add: raise_op_def)

lemma bind_op_Inl [op_simps]: "m s = (Inl e, t) \<Longrightarrow> bind_op m k s = (Inl e, t)"
  by (simp add: bind_op_def)

lemma bind_op_Inr [op_simps]: "m s = (Inr a, t) \<Longrightarrow> bind_op m k s = k a t"
  by (simp add: bind_op_def)

lemma then_op_Inl [op_simps]: "m s = (Inl e, t) \<Longrightarrow> then_op m n s = (Inl e, t)"
  by (simp add: then_op_def op_simps)

lemma then_op_Inr [op_simps]: "m s = (Inr a, t) \<Longrightarrow> then_op m n s = n t"
  by (simp add: then_op_def op_simps)

lemma assert_op_True [op_simps]: "b \<Longrightarrow> assert_op b s = (Inr (), s)"
  by (simp add: assert_op_def)

lemma assert_op_False [op_simps]: "\<not> b \<Longrightarrow> assert_op b s = (Inl Assertion_failed, s)"
  by (simp add: assert_op_def)

lemma guard_op_True [op_simps]: "b \<Longrightarrow> guard_op b s = (Inr (), s)"
  by (simp add: guard_op_def)

lemma guard_op_False [op_simps]: "\<not> b \<Longrightarrow> guard_op b s = (Inl Undefined_behaviour, s)"
  by (simp add: guard_op_def)

lemma modify_apply [op_simps]: "modify_op f s = (Inr (), f s)"
  by (simp add: modify_op_def)

lemma gets_apply [op_simps]: "gets_op f s = (Inr (f s), s)"
  by (simp add: gets_op_def)

lemma unwind_op_Inr [op_simps]: "m s = (Inr a, t) \<Longrightarrow> unwind_op m d s = (Inr a, t)"
  by (simp add: unwind_op_def)

lemma on_exception_Inr [op_simps]: "m s = (Inr a, t) \<Longrightarrow> on_exception m f s = (Inr a, t)"
  by (simp add: on_exception_def)

lemma with_dtor_Inr [op_simps]:
  "m s = (Inr a, t) \<Longrightarrow> d t = (Inr x, u) \<Longrightarrow> with_dtor m d s = (Inr a, u)"
  by (simp add: with_dtor_def)

text \<open>Inversion: how a composed operation can have ended normally.\<close>

lemma bind_op_InrE:
  assumes "bind_op m k s = (Inr b, u)"
  obtains a t where "m s = (Inr a, t)" and "k a t = (Inr b, u)"
proof (cases "m s")
  case (Pair r t)
  with assms that show thesis by (cases r) (auto simp: bind_op_def)
qed

lemma then_op_InrE:
  assumes "then_op m n s = (Inr b, u)"
  obtains a t where "m s = (Inr a, t)" and "n t = (Inr b, u)"
  using assms bind_op_InrE unfolding then_op_def by metis

lemma assert_op_Inr [simp]: "assert_op b s = (Inr x, t) \<longleftrightarrow> b \<and> t = s"
  by (auto simp: assert_op_def)

lemma guard_op_Inr [simp]: "guard_op b s = (Inr x, t) \<longleftrightarrow> b \<and> t = s"
  by (auto simp: guard_op_def)

text \<open>An operation that leaves the part \<open>q\<close> of the state as it is, however it ends.\<close>

definition keeps :: "('s \<Rightarrow> 'q) \<Rightarrow> ('s, 'a) op \<Rightarrow> bool" where
  "keeps q m \<longleftrightarrow> (\<forall>s. q (snd (m s)) = q s)"

named_theorems keeps_intros "operations that leave a part of the state alone"

lemma keepsD: "keeps q m \<Longrightarrow> m s = (r, t) \<Longrightarrow> q t = q s"
  unfolding keeps_def by (metis snd_conv)

lemma keeps_bind [keeps_intros]: "keeps q m \<Longrightarrow> (\<And>a. keeps q (k a)) \<Longrightarrow> keeps q (bind_op m k)"
  by (auto simp: keeps_def bind_op_def split: prod.split sum.split) (metis snd_conv)+

lemma keeps_simple [keeps_intros]:
  "keeps q (ret a)" "keeps q (raise_op e)" "keeps q (assert_op b)" "keeps q (guard_op b)" "keeps q (gets_op f)"
  by (simp_all add: keeps_def op_defs)

lemma keeps_then [keeps_intros]: "keeps q m \<Longrightarrow> keeps q n \<Longrightarrow> keeps q (then_op m n)"
  unfolding then_op_def by (rule keeps_bind)

lemma keeps_if [keeps_intros]: "(b \<Longrightarrow> keeps q m) \<Longrightarrow> (\<not> b \<Longrightarrow> keeps q n) \<Longrightarrow> keeps q (if b then m else n)"
  by simp

text \<open>An operation on one component of a pair, run on the pair.\<close>

definition on_fst :: "('s, 'a) op \<Rightarrow> ('s \<times> 't, 'a) op" where
  "on_fst m st = (case m (fst st) of (r, s) \<Rightarrow> (r, (s, snd st)))"

definition on_snd :: "('t, 'a) op \<Rightarrow> ('s \<times> 't, 'a) op" where
  "on_snd m st = (case m (snd st) of (r, t) \<Rightarrow> (r, (fst st, t)))"

lemma on_fst_apply [op_simps]: "m s = (r, s') \<Longrightarrow> on_fst m (s, t) = (r, (s', t))"
  by (simp add: on_fst_def)

lemma on_snd_apply [op_simps]: "m t = (r, t') \<Longrightarrow> on_snd m (s, t) = (r, (s, t'))"
  by (simp add: on_snd_def)

lemma keeps_on_fst [keeps_intros]: "keeps (\<lambda>st. q (snd st)) (on_fst m)"
  by (simp add: keeps_def on_fst_def split: prod.split)

lemma keeps_on_snd [keeps_intros]: "keeps q m \<Longrightarrow> keeps (\<lambda>st. q (snd st)) (on_snd m)"
  by (auto simp: keeps_def on_snd_def split: prod.split) (metis snd_conv)

lemma keeps_with_dtor [keeps_intros]: "keeps q m \<Longrightarrow> keeps q d \<Longrightarrow> keeps q (with_dtor m d)"
  unfolding keeps_def
proof
  fix s
  assume q: "\<forall>s. q (snd (m s)) = q s" "\<forall>s. q (snd (d s)) = q s"
  obtain r t where m: "m s = (r, t)" by (cases "m s")
  obtain r' u where d: "d t = (r', u)" by (cases "d t")
  have "q t = q s" "q u = q t" using q(1) [rule_format, of s] q(2) [rule_format, of t] m d by simp_all
  with m d show "q (snd (with_dtor m d s)) = q s" by (auto simp: with_dtor_def split: sum.split)
qed

lemma keeps_unwind [keeps_intros]: "keeps q m \<Longrightarrow> keeps q d \<Longrightarrow> keeps q (unwind_op m d)"
  unfolding keeps_def
proof
  fix s
  assume q: "\<forall>s. q (snd (m s)) = q s" "\<forall>s. q (snd (d s)) = q s"
  obtain r t where m: "m s = (r, t)" by (cases "m s")
  obtain r' u where d: "d t = (r', u)" by (cases "d t")
  have "q t = q s" "q u = q t" using q(1) [rule_format, of s] q(2) [rule_format, of t] m d by simp_all
  with m d show "q (snd (unwind_op m d s)) = q s" by (auto simp: unwind_op_def split: sum.split)
qed

lemma fst_on_fst [simp]: "fst (on_fst m st) = fst (m (fst st))"
  by (simp add: on_fst_def split: prod.split)

lemma fst_on_snd [simp]: "fst (on_snd m st) = fst (m (snd st))"
  by (simp add: on_snd_def split: prod.split)

section \<open>Operations that may not end\<close>

definition lift_op :: "('s, 'a) op \<Rightarrow> ('s, 'a) prog" where
  "lift_op m s = Some (m s)"

definition bind_prog :: "('s, 'a) prog \<Rightarrow> ('a \<Rightarrow> ('s, 'b) prog) \<Rightarrow> ('s, 'b) prog" where
  "bind_prog m k s = (case m s of
     None \<Rightarrow> None
   | Some (Inl e, t) \<Rightarrow> Some (Inl e, t)
   | Some (Inr a, t) \<Rightarrow> k a t)"

definition then_prog :: "('s, 'a) prog \<Rightarrow> ('s, 'b) prog \<Rightarrow> ('s, 'b) prog" where
  "then_prog m n = bind_prog m (\<lambda>_. n)"

definition returns :: "('s, 'a) prog \<Rightarrow> 's \<Rightarrow> bool" where
  "returns m s \<longleftrightarrow> m s \<noteq> None"

declare lift_op_def [op_defs] bind_prog_def [op_defs] then_prog_def [op_defs]

lemma lift_apply [op_simps]: "lift_op m s = Some (m s)"
  by (simp add: lift_op_def)

lemma bind_prog_None [op_simps]: "m s = None \<Longrightarrow> bind_prog m k s = None"
  by (simp add: bind_prog_def)

lemma bind_prog_Inl [op_simps]: "m s = Some (Inl e, t) \<Longrightarrow> bind_prog m k s = Some (Inl e, t)"
  by (simp add: bind_prog_def)

lemma bind_prog_Inr [op_simps]: "m s = Some (Inr a, t) \<Longrightarrow> bind_prog m k s = k a t"
  by (simp add: bind_prog_def)

lemma then_prog_None [op_simps]: "m s = None \<Longrightarrow> then_prog m n s = None"
  by (simp add: then_prog_def op_simps)

lemma then_prog_Inl [op_simps]: "m s = Some (Inl e, t) \<Longrightarrow> then_prog m n s = Some (Inl e, t)"
  by (simp add: then_prog_def op_simps)

lemma then_prog_Inr [op_simps]: "m s = Some (Inr a, t) \<Longrightarrow> then_prog m n s = n t"
  by (simp add: then_prog_def op_simps)

lemma bind_prog_InrE:
  assumes "bind_prog m k s = Some (Inr b, u)"
  obtains a t where "m s = Some (Inr a, t)" and "k a t = Some (Inr b, u)"
  using assms by (auto simp: bind_prog_def split: option.splits prod.splits sum.splits)

lemma then_prog_InrE:
  assumes "then_prog m n s = Some (Inr b, u)"
  obtains a t where "m s = Some (Inr a, t)" and "n t = Some (Inr b, u)"
  using assms bind_prog_InrE unfolding then_prog_def by metis

lemma returns_lift [simp]: "returns (lift_op m) s"
  by (simp add: returns_def op_simps)

lemma returns_bind_prog:
  assumes "returns m s" and "\<And>a t. m s = Some (Inr a, t) \<Longrightarrow> returns (k a) t"
  shows "returns (bind_prog m k) s"
  using assms by (auto simp: returns_def bind_prog_def split: prod.splits sum.splits)

section \<open>What an operation ensures\<close>

text \<open>\<open>ensures J E m\<close>: from a state in \<open>J\<close>, the operation ends normally in a state in \<open>J\<close>, or with a
  fault \<open>e\<close> in a state in \<open>E e\<close>; a \<open>prog\<close> may also not end.\<close>

fun outcome :: "('s \<Rightarrow> bool) \<Rightarrow> (fault \<Rightarrow> 's \<Rightarrow> bool) \<Rightarrow> (fault + 'a) \<times> 's \<Rightarrow> bool" where
  "outcome J E (Inl e, t) = E e t"
| "outcome J E (Inr a, t) = J t"

definition ensures :: "('s \<Rightarrow> bool) \<Rightarrow> (fault \<Rightarrow> 's \<Rightarrow> bool) \<Rightarrow> ('s, 'a) op \<Rightarrow> bool" where
  "ensures J E m \<longleftrightarrow> (\<forall>s. J s \<longrightarrow> outcome J E (m s))"

definition p_ensures :: "('s \<Rightarrow> bool) \<Rightarrow> (fault \<Rightarrow> 's \<Rightarrow> bool) \<Rightarrow> ('s, 'a) prog \<Rightarrow> bool" where
  "p_ensures J E p \<longleftrightarrow> (\<forall>s. J s \<longrightarrow> (case p s of None \<Rightarrow> True | Some x \<Rightarrow> outcome J E x))"

named_theorems ensures_intros "operations that ensure an invariant"

lemma outcome_cases: "outcome J E x \<longleftrightarrow> (case x of (Inl e, t) \<Rightarrow> E e t | (Inr _, t) \<Rightarrow> J t)"
  by (cases x; cases "fst x") auto

lemma ensuresI: "(\<And>s e t. J s \<Longrightarrow> m s = (Inl e, t) \<Longrightarrow> E e t) \<Longrightarrow> (\<And>s a t. J s \<Longrightarrow> m s = (Inr a, t) \<Longrightarrow> J t) \<Longrightarrow> ensures J E m"
  by (auto simp: ensures_def outcome_cases split: prod.split sum.split)

lemma ensuresD:
  "ensures J E m \<Longrightarrow> J s \<Longrightarrow> m s = (Inl e, t) \<Longrightarrow> E e t"
  "ensures J E m \<Longrightarrow> J s \<Longrightarrow> m s = (Inr a, t) \<Longrightarrow> J t"
  by (auto simp: ensures_def dest!: spec [of _ s])

lemma p_ensuresI:
  "(\<And>s e t. J s \<Longrightarrow> p s = Some (Inl e, t) \<Longrightarrow> E e t) \<Longrightarrow> (\<And>s a t. J s \<Longrightarrow> p s = Some (Inr a, t) \<Longrightarrow> J t) \<Longrightarrow> p_ensures J E p"
  by (auto simp: p_ensures_def outcome_cases split: option.split prod.split sum.split)

lemma p_ensuresD:
  "p_ensures J E p \<Longrightarrow> J s \<Longrightarrow> p s = Some (Inl e, t) \<Longrightarrow> E e t"
  "p_ensures J E p \<Longrightarrow> J s \<Longrightarrow> p s = Some (Inr a, t) \<Longrightarrow> J t"
  by (auto simp: p_ensures_def dest!: spec [of _ s])

lemma p_ensures_outcome: "p_ensures J E p \<longleftrightarrow> (\<forall>s x. J s \<longrightarrow> p s = Some x \<longrightarrow> outcome J E x)"
  by (auto simp: p_ensures_def split: option.split)

lemma p_ensures_Some: "p_ensures J E p \<Longrightarrow> J s \<Longrightarrow> p s = Some x \<Longrightarrow> outcome J E x"
  by (cases x) (simp add: p_ensures_outcome)

lemma ensures_outcome: "ensures J E m \<Longrightarrow> J s \<Longrightarrow> m s = x \<Longrightarrow> outcome J E x"
  by (auto simp: ensures_def)

lemma ensures_bind [ensures_intros]:
  "ensures J E m \<Longrightarrow> (\<And>a. ensures J E (k a)) \<Longrightarrow> ensures J E (bind_op m k)"
  by (rule ensuresI) (auto simp: bind_op_def split: prod.splits sum.splits dest: ensuresD)

lemma ensures_then [ensures_intros]: "ensures J E m \<Longrightarrow> ensures J E n \<Longrightarrow> ensures J E (then_op m n)"
  unfolding then_op_def by (rule ensures_bind)

lemma ensures_ret [ensures_intros]: "ensures J E (ret a)"
  by (rule ensuresI) (auto simp: ret_def)

lemma ensures_fault [ensures_intros]:
  "(\<And>s. J s \<Longrightarrow> E e s) \<Longrightarrow> ensures J E (raise_op e)"
  "(\<And>s. J s \<Longrightarrow> E Assertion_failed s) \<Longrightarrow> ensures J E (assert_op b)"
  "(\<And>s. J s \<Longrightarrow> E Undefined_behaviour s) \<Longrightarrow> ensures J E (guard_op b)"
  by (auto intro!: ensuresI simp: op_defs split: if_splits)

lemma ensures_if [ensures_intros]: "(b \<Longrightarrow> ensures J E m) \<Longrightarrow> (\<not> b \<Longrightarrow> ensures J E n) \<Longrightarrow> ensures J E (if b then m else n)"
  by simp

lemma ensures_state: "(\<And>x. J x \<Longrightarrow> ensures J E (m x)) \<Longrightarrow> ensures J E (\<lambda>s. m s s)"
  by (rule ensuresI) (blast dest: ensuresD)+

lemma ensures_modify [ensures_intros]: "(\<And>s. J s \<Longrightarrow> J (f s)) \<Longrightarrow> ensures J E (modify_op f)"
  by (rule ensuresI) (auto simp: modify_op_def)

lemma then_op_assoc: "then_op (then_op m n) k = then_op m (then_op n k)"
  by (rule ext) (auto simp: op_defs split: prod.split sum.split)

lemma p_ensures_lift [ensures_intros]: "ensures J E m \<Longrightarrow> p_ensures J E (lift_op m)"
  by (rule p_ensuresI) (auto simp: lift_op_def dest: ensuresD)

lemma p_ensures_bind [ensures_intros]:
  "p_ensures J E m \<Longrightarrow> (\<And>a. p_ensures J E (k a)) \<Longrightarrow> p_ensures J E (bind_prog m k)"
  by (rule p_ensuresI) (auto simp: bind_prog_def split: option.splits prod.splits sum.splits dest: p_ensuresD)

lemma p_ensures_then [ensures_intros]: "p_ensures J E m \<Longrightarrow> p_ensures J E n \<Longrightarrow> p_ensures J E (then_prog m n)"
  unfolding then_prog_def by (rule p_ensures_bind)

lemma p_ensures_state: "(\<And>x. J x \<Longrightarrow> p_ensures J E (p x)) \<Longrightarrow> p_ensures J E (\<lambda>s. p s s)"
  by (rule p_ensuresI) (blast dest: p_ensuresD)+

lemma p_ensures_if [ensures_intros]:
  "(b \<Longrightarrow> p_ensures J E m) \<Longrightarrow> (\<not> b \<Longrightarrow> p_ensures J E n) \<Longrightarrow> p_ensures J E (if b then m else n)"
  by simp

text \<open>The usual form: the invariant holds after an exception too, and the program has ended after any
  other fault.\<close>

definition or_aborts :: "('s \<Rightarrow> bool) \<Rightarrow> fault \<Rightarrow> 's \<Rightarrow> bool" where
  "or_aborts J e s \<longleftrightarrow> (is_exception e \<longrightarrow> J s)"

lemma or_abortsI [simp]: "J s \<Longrightarrow> or_aborts J e s"
  by (simp add: or_aborts_def)

lemma ensures_or_aborts:
  "(\<And>s r t. J s \<Longrightarrow> m s = (r, t) \<Longrightarrow> (case r of Inl e \<Rightarrow> is_exception e | _ \<Rightarrow> True) \<Longrightarrow> J t) \<Longrightarrow> ensures J (or_aborts J) m"
  by (rule ensuresI) (fastforce simp: or_aborts_def)+

text \<open>A program on a state, run on another representation of it.\<close>

lemma p_ensures_view:
  assumes p: "p_ensures J (or_aborts J) p" and f: "\<And>s. K s \<Longrightarrow> J (f s)" and g: "\<And>t. J t \<Longrightarrow> K (g t)"
  shows "p_ensures K (or_aborts K) (\<lambda>s. map_option (\<lambda>x. (fst x, g (snd x))) (p (f s)))"
proof (rule p_ensuresI, goal_cases)
  case (1 s e t)
  then obtain t' where "p (f s) = Some (Inl e, t')" "t = g t'" by auto
  with p_ensuresD(1) [OF p f [OF 1(1)]] g show ?case by (auto simp: or_aborts_def)
next
  case (2 s a t)
  then obtain t' where "p (f s) = Some (Inr a, t')" "t = g t'" by auto
  with p_ensuresD(2) [OF p f [OF 2(1)]] g show ?case by auto
qed

section \<open>Machine integers\<close>

text \<open>\<open>int\<close>, \<open>unsigned int\<close> and \<open>size_t\<close> of the LP64 platforms the library runs on, and the range
  of the signed 64-bit \<open>time_t\<close>.  \<open>time_t\<close> and \<open>int\<close> values are integers here, with the range check
  written out at each operation that could leave the range.\<close>

type_synonym u8 = "8 word"
type_synonym u16 = "16 word"
type_synonym u32 = "32 word"
type_synonym u64 = "64 word"

definition INT_MAX :: int where
  "INT_MAX = 2147483647"

definition in_int_range :: "int \<Rightarrow> bool" where
  "in_int_range i \<longleftrightarrow> - 2147483648 \<le> i \<and> i \<le> INT_MAX"

definition in_time_range :: "int \<Rightarrow> bool" where
  "in_time_range t \<longleftrightarrow> - 9223372036854775808 \<le> t \<and> t \<le> 9223372036854775807"

lemma unat_pred: "(n :: 'a::len word) \<noteq> 0 \<Longrightarrow> unat (n - 1) = unat n - 1"
  by (rule unat_minus_one)

end
