(* ===== verification/Ioxx_Multimap.thy ===== *)
theory Ioxx_Multimap
  imports Main "HOL-Library.Multiset"
begin

text \<open>
  \<open>std::multimap\<close> as the list of its entries in iteration order, which the schedule
  (\<open>include/ioxx/schedule.hpp\<close>) and the decoding of mail exchangers (\<open>include/ioxx/detail/adns.hpp\<close>)
  use.  An entry is a pair whose first component is the key; a new entry goes behind all entries with
  the same key.
\<close>

fun mm_insert :: "'k::linorder \<times> 'v \<Rightarrow> ('k \<times> 'v) list \<Rightarrow> ('k \<times> 'v) list" where
  "mm_insert e [] = [e]"
| "mm_insert e (x # xs) = (if fst x \<le> fst e then x # mm_insert e xs else e # x # xs)"

lemma set_mm_insert [simp]: "set (mm_insert e q) = insert e (set q)"
  by (induction q) auto

lemma sorted_mm_insert: "sorted (map fst q) \<Longrightarrow> sorted (map fst (mm_insert e q))"
  by (induction q) auto

lemma mset_mm_insert: "mset (mm_insert e q) = add_mset e (mset q)"
  by (induction q) auto

lemma filter_mm_insert:
  "sorted (map fst q) \<Longrightarrow>
   filter (\<lambda>x. k = fst x) (mm_insert e q) = filter (\<lambda>x. k = fst x) q @ (if k = fst e then [e] else [])"
proof (induction q)
  case (Cons x q)
  show ?case
  proof (cases "fst x \<le> fst e")
    case False
    with Cons.prems have "k = fst e \<Longrightarrow> filter (\<lambda>x. k = fst x) (x # q) = []"
      by (auto simp: filter_empty_conv)
    with False show ?thesis by auto
  qed (use Cons in auto)
qed simp

text \<open>Inserting the elements of a list one by one sorts it, and keeps the order of equal keys.\<close>

definition mm_of_list :: "('k::linorder \<times> 'v) list \<Rightarrow> ('k \<times> 'v) list" where
  "mm_of_list xs = foldl (\<lambda>q e. mm_insert e q) [] xs"

lemma mm_of_list_snoc: "mm_of_list (xs @ [x]) = mm_insert x (mm_of_list xs)"
  by (simp add: mm_of_list_def)

lemma sorted_mm_of_list: "sorted (map fst (mm_of_list xs))"
  by (induction xs rule: rev_induct) (simp_all add: mm_of_list_def sorted_mm_insert)

lemma mm_of_list_sorts: "mm_of_list xs = sort_key fst xs"
proof (rule properties_for_sort_key [symmetric])
  show "mset (mm_of_list xs) = mset xs"
    by (induction xs rule: rev_induct) (simp_all add: mm_of_list_snoc mset_mm_insert, simp add: mm_of_list_def)
  show "filter (\<lambda>x. fst k = fst x) (mm_of_list xs) = filter (\<lambda>x. fst k = fst x) xs" for k
    by (induction xs rule: rev_induct)
      (simp_all add: mm_of_list_snoc filter_mm_insert [OF sorted_mm_of_list], simp add: mm_of_list_def)
qed (rule sorted_mm_of_list)

end
