(* ===== verification/Ioxx_Schedule.thy ===== *)
theory Ioxx_Schedule
  imports Ioxx_Prelude Ioxx_Multimap
begin

text \<open>
  The time-event dispatcher of \<open>include/ioxx/schedule.hpp\<close>.

  \<open>std::multimap<time_t, Task>\<close> is the list of its nodes in iteration order.  A node is a time stamp,
  an identity and a task; an iterator is the identity of a node (\<^const>\<open>None\<close> for the singular
  iterator a default-constructed \<open>timeout\<close> holds), and \<open>next_node\<close> is the identity of the next node
  that is allocated.  Identities are never reused, so an iterator to an erased node is told from those
  of the live nodes; comparing it, erasing through it, or reading through \<open>end()\<close>, is undefined
  behaviour.

  The member \<open>_now\<close> is a reference to a clock that the schedule does not own: operations that read
  it take the time, and \<open>run\<close>, during which the tasks may change it, takes a function that reads it
  from the rest of the program's state.  Tasks are values of a type variable; the argument \<open>call\<close> of
  \<open>run\<close> says what calling one does, to the schedule itself and to the rest of the state.
\<close>

section \<open>State\<close>

type_synonym 'f queue_entry = "int \<times> nat \<times> 'f"
type_synonym task_id = "int \<times> nat option"

record 'f schedule =
  queue :: "'f queue_entry list"
  next_node :: nat

definition schedule_init :: "'f schedule" where
  "schedule_init = \<lparr>queue = [], next_node = 0\<rparr>"

definition mm_erase :: "nat \<Rightarrow> 'f queue_entry list \<Rightarrow> 'f queue_entry list" where
  "mm_erase n q = filter (\<lambda>x. fst (snd x) \<noteq> n) q"

abbreviation nodes :: "'f queue_entry list \<Rightarrow> nat list" where
  "nodes q \<equiv> map (\<lambda>x. fst (snd x)) q"

section \<open>Operations\<close>

definition schedule_empty :: "'f schedule \<Rightarrow> bool" where
  "schedule_empty s = (queue s = [])"

definition schedule_at :: "int \<Rightarrow> 'f \<Rightarrow> ('f schedule, task_id) op" where
  "schedule_at ts f s =
     (Inr (ts, Some (next_node s)),
      s\<lparr>queue := mm_insert (ts, next_node s, f) (queue s), next_node := Suc (next_node s)\<rparr>)"

definition schedule_in :: "int \<Rightarrow> u32 \<Rightarrow> 'f \<Rightarrow> ('f schedule, task_id) op" where
  "schedule_in now to f =
     then_op (guard_op (in_time_range (now + uint to))) (schedule_at (now + uint to) f)"

definition queue_erase :: "nat option \<Rightarrow> ('f schedule, unit) op" where
  "queue_erase i s =
     (case i of
        None \<Rightarrow> (Inl Undefined_behaviour, s)
      | Some n \<Rightarrow>
          if n \<in> set (nodes (queue s)) then (Inr (), s\<lparr>queue := mm_erase n (queue s)\<rparr>)
          else (Inl Undefined_behaviour, s))"

definition schedule_unsafe_cancel :: "task_id \<Rightarrow> ('f schedule, task_id) op" where
  "schedule_unsafe_cancel tid =
     then_op (assert_op (fst tid \<noteq> 0))
       (\<lambda>s. then_op (assert_op (queue s \<noteq> []))
              (then_op (queue_erase (snd tid)) (ret (0, snd tid))) s)"

text \<open>The loop of \<open>cancel\<close>, over the nodes from the iterator \<open>i\<close> on: whether it finds the node.
  The end of the list is \<open>end()\<close>, which the loop condition dereferences.  The comparison of iterators
  is undefined unless the identifier's is valid, which is the first argument.\<close>

definition valid_iterator :: "nat option \<Rightarrow> 'f queue_entry list \<Rightarrow> bool" where
  "valid_iterator i q \<longleftrightarrow> i \<in> set (map Some (nodes q))"

fun cancel_scan :: "bool \<Rightarrow> task_id \<Rightarrow> 'f queue_entry list \<Rightarrow> fault + bool" where
  "cancel_scan valid tid [] = Inl Undefined_behaviour"
| "cancel_scan valid tid (x # xs) =
     (if fst x = fst tid
      then (if \<not> valid then Inl Undefined_behaviour
            else if Some (fst (snd x)) = snd tid then Inr True
            else cancel_scan valid tid xs)
      else Inr False)"

definition schedule_cancel :: "task_id \<Rightarrow> ('f schedule, bool \<times> task_id) op" where
  "schedule_cancel tid s =
     (case queue s of
        [] \<Rightarrow> (Inr (False, tid), s)
      | x # xs \<Rightarrow>
          if fst tid = 0 then (Inr (False, tid), s)
          else if fst x < fst tid
          then bind_op (schedule_unsafe_cancel tid) (\<lambda>tid'. ret (True, tid')) s
          else (case cancel_scan (valid_iterator (snd tid) (queue s)) tid (x # xs) of
                  Inl e \<Rightarrow> (Inl e, s)
                | Inr True \<Rightarrow> bind_op (schedule_unsafe_cancel tid) (\<lambda>tid'. ret (True, tid')) s
                | Inr False \<Rightarrow> (Inr (False, tid), s)))"

partial_function (option) schedule_run ::
  "('r \<Rightarrow> int) \<Rightarrow> ('f \<Rightarrow> ('f schedule \<times> 'r, unit) prog) \<Rightarrow>
   'f schedule \<times> 'r \<Rightarrow> ((fault + u32) \<times> ('f schedule \<times> 'r)) option" where
  "schedule_run now call st =
     (case queue (fst st) of
        [] \<Rightarrow> Some (Inr 0, st)
      | x # xs \<Rightarrow>
          if fst x \<le> now (snd st)
          then (case call (snd (snd x)) ((fst st)\<lparr>queue := xs\<rparr>, snd st) of
                  None \<Rightarrow> None
                | Some (Inl e, st') \<Rightarrow> Some (Inl e, st')
                | Some (Inr _, st') \<Rightarrow> schedule_run now call st')
          else if in_time_range (fst x - now (snd st))
          then Some (Inr (word_of_int (fst x - now (snd st))), st)
          else Some (Inl Undefined_behaviour, st))"

subsection \<open>The nested class \<open>timeout\<close>\<close>

text \<open>A \<open>timeout\<close> owns one \<open>task_id\<close>; its operations run on that identifier and the schedule.\<close>

definition timeout_new :: task_id where
  "timeout_new = (0, None)"

definition timeout_new_at :: "int \<Rightarrow> 'f \<Rightarrow> ('f schedule, task_id) op" where
  "timeout_new_at ts f = schedule_at ts f"

definition timeout_new_in :: "int \<Rightarrow> u32 \<Rightarrow> 'f \<Rightarrow> ('f schedule, task_id) op" where
  "timeout_new_in now to f = schedule_in now to f"

definition timeout_cancel :: "task_id \<Rightarrow> ('f schedule, bool \<times> task_id) op" where
  "timeout_cancel tid = schedule_cancel tid"

definition timeout_destroy :: "task_id \<Rightarrow> ('f schedule, unit) op" where
  "timeout_destroy tid = bind_op (schedule_cancel tid) (\<lambda>_. ret ())"

definition timeout_at :: "int \<Rightarrow> 'f \<Rightarrow> task_id \<Rightarrow> ('f schedule, bool \<times> task_id) op" where
  "timeout_at ts f tid =
     bind_op (schedule_cancel tid)
       (\<lambda>(cancelled, _). bind_op (schedule_at ts f) (\<lambda>tid'. ret (cancelled, tid')))"

definition timeout_in :: "int \<Rightarrow> u32 \<Rightarrow> 'f \<Rightarrow> task_id \<Rightarrow> ('f schedule, bool \<times> task_id) op" where
  "timeout_in now to f tid =
     then_op (guard_op (in_time_range (now + uint to))) (timeout_at (now + uint to) f tid)"

section \<open>Invariant\<close>

definition schedule_wf :: "'f schedule \<Rightarrow> bool" where
  "schedule_wf s \<longleftrightarrow>
     sorted (map fst (queue s)) \<and> distinct (nodes (queue s)) \<and>
     (\<forall>n \<in> set (nodes (queue s)). n < next_node s)"

lemma schedule_wf_init: "schedule_wf schedule_init"
  by (simp add: schedule_wf_def schedule_init_def)

lemma set_nodes_mm_insert [simp]:
  "set (nodes (mm_insert e q)) = insert (fst (snd e)) (set (nodes q))"
  by auto

lemma distinct_mm_insert:
  "distinct (nodes q) \<Longrightarrow> fst (snd e) \<notin> set (nodes q) \<Longrightarrow> distinct (nodes (mm_insert e q))"
proof (induction q)
  case (Cons x q)
  then have "set (nodes (mm_insert e q)) = insert (fst (snd e)) (set (nodes q))" by simp
  with Cons show ?case by auto
qed simp

lemma mm_erase_fresh: "n \<notin> set (nodes q) \<Longrightarrow> mm_erase n q = q"
  by (auto simp: mm_erase_def filter_id_conv)

lemma mm_erase_insert:
  "fst (snd e) \<notin> set (nodes q) \<Longrightarrow> mm_erase (fst (snd e)) (mm_insert e q) = q"
proof (induction q)
  case (Cons x q)
  then have "mm_erase (fst (snd e)) (x # q) = x # q" by (intro mm_erase_fresh)
  with Cons show ?case by (auto simp: mm_erase_def)
qed (simp add: mm_erase_def)

lemma set_nodes_mm_erase: "set (nodes (mm_erase n q)) = set (nodes q) - {n}"
  by (auto simp: mm_erase_def)

lemma sorted_mm_erase: "sorted (map fst q) \<Longrightarrow> sorted (map fst (mm_erase n q))"
  by (simp add: mm_erase_def sorted_filter)

lemma distinct_mm_erase: "distinct (nodes q) \<Longrightarrow> distinct (nodes (mm_erase n q))"
  by (simp add: mm_erase_def distinct_map_filter)

lemma schedule_wf_queue_fresh:
  "schedule_wf s \<Longrightarrow> next_node s \<notin> set (nodes (queue s))"
  unfolding schedule_wf_def by (meson less_irrefl)

lemma schedule_wf_mm_erase:
  "schedule_wf s \<Longrightarrow> schedule_wf (s\<lparr>queue := mm_erase n (queue s)\<rparr>)"
  unfolding schedule_wf_def
  by (simp add: sorted_mm_erase distinct_mm_erase) (auto simp: mm_erase_def)

lemma schedule_wf_tl:
  "schedule_wf s \<Longrightarrow> queue s = x # xs \<Longrightarrow> schedule_wf (s\<lparr>queue := xs\<rparr>)"
  by (simp add: schedule_wf_def)

lemma schedule_at_wf:
  assumes "schedule_wf s"
  shows "schedule_wf (snd (schedule_at ts f s))"
proof -
  have "distinct (nodes (mm_insert (ts, next_node s, f) (queue s)))"
    using assms schedule_wf_queue_fresh [OF assms]
    by (intro distinct_mm_insert) (auto simp: schedule_wf_def)
  with assms show ?thesis
    by (auto simp: schedule_at_def schedule_wf_def sorted_mm_insert less_Suc_eq)
qed

lemma queue_erase_wf: "schedule_wf s \<Longrightarrow> schedule_wf (snd (queue_erase i s))"
  by (simp add: queue_erase_def schedule_wf_mm_erase split: option.split)

lemma schedule_unsafe_cancel_snd:
  "snd (schedule_unsafe_cancel tid s) = s \<or>
   snd (schedule_unsafe_cancel tid s) = snd (queue_erase (snd tid) s)"
  by (auto simp: schedule_unsafe_cancel_def op_defs split: prod.split sum.split)

lemma schedule_cancel_snd:
  "snd (schedule_cancel tid s) = s \<or> snd (schedule_cancel tid s) = snd (queue_erase (snd tid) s)"
proof -
  have "snd (bind_op (schedule_unsafe_cancel tid) (\<lambda>tid'. ret (True, tid')) s)
      = snd (schedule_unsafe_cancel tid s)"
    by (auto simp: op_defs split: prod.split sum.split)
  with schedule_unsafe_cancel_snd [of tid s] show ?thesis
    by (auto simp: schedule_cancel_def split: list.split sum.split bool.split)
qed

lemma schedule_cancel_wf: "schedule_wf s \<Longrightarrow> schedule_wf (snd (schedule_cancel tid s))"
  using schedule_cancel_snd [of tid s] queue_erase_wf [of s "snd tid"] by auto

lemma schedule_in_wf: "schedule_wf s \<Longrightarrow> schedule_wf (snd (schedule_in now to f s))"
  by (simp add: schedule_in_def op_defs schedule_at_wf)

lemma timeout_at_wf: "schedule_wf s \<Longrightarrow> schedule_wf (snd (timeout_at ts f tid s))"
  using schedule_cancel_wf [of s tid] schedule_at_wf [of "snd (schedule_cancel tid s)" ts f]
  by (auto simp: timeout_at_def op_defs split: prod.split sum.split)

section \<open>What \<open>cancel\<close> does\<close>

lemma cancel_scan_live:
  "sorted (map fst q) \<Longrightarrow> (ts, n, f) \<in> set q \<Longrightarrow> (\<forall>x \<in> set q. ts \<le> fst x) \<Longrightarrow>
   cancel_scan True (ts, Some n) q = Inr True"
proof (induction q)
  case (Cons x q)
  show ?case
  proof (cases "fst x = ts \<and> fst (snd x) = n")
    case False
    then have later: "(ts, n, f) \<in> set q" using Cons.prems by auto
    with Cons.prems have "fst x = ts" by fastforce
    with False Cons later show ?thesis by auto
  qed simp
qed simp

lemma cancel_scan_stale: "cancel_scan False tid (x # xs) = (if fst x = fst tid then Inl Undefined_behaviour else Inr False)"
  by simp

lemma valid_iterator_Some [simp]: "valid_iterator (Some n) q \<longleftrightarrow> n \<in> set (nodes q)"
  by (auto simp: valid_iterator_def)

lemma unsafe_cancel_live:
  "n \<in> set (nodes (queue s)) \<Longrightarrow> ts \<noteq> 0 \<Longrightarrow>
   schedule_unsafe_cancel (ts, Some n) s = (Inr (0, Some n), s\<lparr>queue := mm_erase n (queue s)\<rparr>)"
  by (auto simp: schedule_unsafe_cancel_def queue_erase_def op_defs)

lemma unsafe_cancel_stale:
  "n \<notin> set (nodes (queue s)) \<Longrightarrow> queue s \<noteq> [] \<Longrightarrow> ts \<noteq> 0 \<Longrightarrow>
   schedule_unsafe_cancel (ts, Some n) s = (Inl Undefined_behaviour, s)"
  by (auto simp: schedule_unsafe_cancel_def queue_erase_def op_defs)

lemma schedule_cancel_live:
  assumes wf: "schedule_wf s" and live: "(ts, n, f) \<in> set (queue s)" and "ts \<noteq> 0"
  shows "schedule_cancel (ts, Some n) s =
    (Inr (True, 0, Some n), s\<lparr>queue := mm_erase n (queue s)\<rparr>)"
proof -
  obtain x xs where q: "queue s = x # xs" using live by (cases "queue s") auto
  have n: "n \<in> set (nodes (queue s))" using live by force
  have cancelled: "bind_op (schedule_unsafe_cancel (ts, Some n)) (\<lambda>tid'. ret (True, tid')) s =
      (Inr (True, 0, Some n), s\<lparr>queue := mm_erase n (queue s)\<rparr>)"
    using unsafe_cancel_live [OF n \<open>ts \<noteq> 0\<close>] by (simp add: op_simps)
  have "cancel_scan True (ts, Some n) (x # xs) = Inr True" if "\<not> fst x < ts"
    using wf live that unfolding schedule_wf_def q by (intro cancel_scan_live [of _ ts n f]) auto
  moreover have "valid_iterator (Some n) (x # xs)" using n q by simp
  ultimately show ?thesis
    using cancelled \<open>ts \<noteq> 0\<close> by (cases "fst x < ts") (simp_all add: schedule_cancel_def q del: cancel_scan.simps valid_iterator_Some)
qed

lemma schedule_cancel_stale:
  assumes "n \<notin> set (nodes (queue s))" and "queue s \<noteq> []" and "ts \<noteq> 0"
  shows "schedule_cancel (ts, Some n) s =
    ((if fst (hd (queue s)) \<le> ts then Inl Undefined_behaviour else Inr (False, ts, Some n)), s)"
proof -
  obtain x xs where q: "queue s = x # xs" using assms(2) by (cases "queue s") auto
  then have "\<not> valid_iterator (Some n) (x # xs)" using assms(1) by simp
  moreover have "bind_op (schedule_unsafe_cancel (ts, Some n)) (\<lambda>tid'. ret (True, tid')) s =
      (Inl Undefined_behaviour, s)"
    using unsafe_cancel_stale [OF assms] by (simp add: op_simps)
  ultimately show ?thesis
    using assms(3) by (auto simp: schedule_cancel_def q simp del: valid_iterator_Some)
qed

lemma schedule_cancel_null [simp]: "schedule_cancel (0, i) s = (Inr (False, 0, i), s)"
  by (simp add: schedule_cancel_def split: list.split)

lemma schedule_cancel_empty [simp]: "queue s = [] \<Longrightarrow> schedule_cancel tid s = (Inr (False, tid), s)"
  by (simp add: schedule_cancel_def)

section \<open>The contract: a finite map of pending timers\<close>

text \<open>What the clients of the dispatcher (\<open>timeout\<close>, the DNS resolver, the application) rely on:
  the queue is a map from identities to a time stamp and a task; \<open>at\<close> adds a fresh one, and
  \<open>cancel\<close> of a pending one removes exactly that one.\<close>

definition timers :: "'f schedule \<Rightarrow> nat \<rightharpoonup> int \<times> 'f" where
  "timers s = map_of (map (\<lambda>x. (fst (snd x), (fst x, snd (snd x)))) (queue s))"

locale timer_store =
  fixes store_at :: "int \<Rightarrow> 'f \<Rightarrow> ('s, task_id) op"
    and store_cancel :: "task_id \<Rightarrow> ('s, bool \<times> task_id) op"
    and pending :: "'s \<Rightarrow> nat \<rightharpoonup> int \<times> 'f"
    and store_ok :: "'s \<Rightarrow> bool"
  assumes at_law: "store_ok s \<Longrightarrow>
      \<exists>n s'. store_at ts f s = (Inr (ts, Some n), s') \<and> pending s n = None \<and>
        pending s' = (pending s)(n \<mapsto> (ts, f)) \<and> store_ok s'"
    and cancel_law: "store_ok s \<Longrightarrow> pending s n = Some (ts, f) \<Longrightarrow> ts \<noteq> 0 \<Longrightarrow>
      \<exists>s'. store_cancel (ts, Some n) s = (Inr (True, 0, Some n), s') \<and>
        pending s' = (pending s)(n := None) \<and> store_ok s'"
    and cancel_null_law: "store_cancel (0, i) s = (Inr (False, 0, i), s)"
begin

lemma at_then_cancel:
  assumes "store_ok s" and "ts \<noteq> 0"
  shows "\<exists>n s' s''. store_at ts f s = (Inr (ts, Some n), s') \<and>
    store_cancel (ts, Some n) s' = (Inr (True, 0, Some n), s'') \<and> pending s'' = pending s"
proof -
  obtain n s' where at: "store_at ts f s = (Inr (ts, Some n), s')" "pending s n = None"
      "pending s' = (pending s)(n \<mapsto> (ts, f))" "store_ok s'"
    using at_law [OF assms(1)] by blast
  moreover obtain s'' where
      "store_cancel (ts, Some n) s' = (Inr (True, 0, Some n), s'')" "pending s'' = (pending s')(n := None)"
    using cancel_law [OF at(4), of n ts f] at(3) assms(2) by auto
  ultimately show ?thesis by (auto simp: fun_upd_idem)
qed

lemma rearm:
  assumes "store_ok s" and "pending s n = Some (ts, f)" and "ts \<noteq> 0"
  shows "\<exists>m s'. bind_op (store_cancel (ts, Some n))
      (\<lambda>(c, _). bind_op (store_at ts' g) (\<lambda>tid'. ret (c, tid'))) s = (Inr (True, ts', Some m), s') \<and>
    pending s' = (pending s)(n := None, m \<mapsto> (ts', g)) \<and> (m = n \<or> pending s m = None) \<and> store_ok s'"
proof -
  obtain t where t: "store_cancel (ts, Some n) s = (Inr (True, 0, Some n), t)"
      "pending t = (pending s)(n := None)" "store_ok t"
    using cancel_law [OF assms] by blast
  obtain m s' where "store_at ts' g t = (Inr (ts', Some m), s')" "pending t m = None"
      "pending s' = (pending t)(m \<mapsto> (ts', g))" "store_ok s'"
    using at_law [OF t(3)] by blast
  with t show ?thesis by (auto simp: op_simps split: if_splits)
qed

end

lemma timers_None: "timers s n = None \<longleftrightarrow> n \<notin> set (nodes (queue s))"
  by (simp add: timers_def map_of_eq_None_iff image_image)

lemma timers_Some:
  "schedule_wf s \<Longrightarrow> timers s n = Some (ts, f) \<longleftrightarrow> (ts, n, f) \<in> set (queue s)"
  unfolding timers_def
  by (subst map_of_eq_Some_iff) (auto simp: schedule_wf_def comp_def image_iff, force)

lemma timers_at:
  assumes "schedule_wf s"
  shows "timers (snd (schedule_at ts f s)) = (timers s)(next_node s \<mapsto> (ts, f))"
proof
  fix n
  have wf': "schedule_wf (snd (schedule_at ts f s))" using assms by (rule schedule_at_wf)
  have fresh: "next_node s \<notin> set (nodes (queue s))" using assms by (rule schedule_wf_queue_fresh)
  show "timers (snd (schedule_at ts f s)) n = ((timers s)(next_node s \<mapsto> (ts, f))) n"
  proof (rule option.expand)
    show "(timers (snd (schedule_at ts f s)) n = None) =
        (((timers s)(next_node s \<mapsto> (ts, f))) n = None)"
      by (simp add: timers_None) (auto simp: schedule_at_def)
    assume "timers (snd (schedule_at ts f s)) n \<noteq> None"
    then obtain ts' g where g: "timers (snd (schedule_at ts f s)) n = Some (ts', g)" by auto
    then have "(ts', n, g) \<in> set (queue (snd (schedule_at ts f s)))"
      using timers_Some [OF wf'] by blast
    then have "n = next_node s \<and> (ts', g) = (ts, f) \<or> n \<noteq> next_node s \<and> timers s n = Some (ts', g)"
      using fresh timers_Some [OF assms] by (force simp: schedule_at_def)
    with g show "the (timers (snd (schedule_at ts f s)) n) =
        the (((timers s)(next_node s \<mapsto> (ts, f))) n)" by auto
  qed
qed

lemma timers_erase: "timers (s\<lparr>queue := mm_erase n (queue s)\<rparr>) = (timers s)(n := None)"
proof -
  have "map_of (map (\<lambda>x. (fst (snd x), (fst x, snd (snd x)))) (mm_erase n q)) =
      (map_of (map (\<lambda>x. (fst (snd x), (fst x, snd (snd x)))) q))(n := None)" for q :: "'a queue_entry list"
    by (induction q) (auto simp: mm_erase_def fun_eq_iff)
  then show ?thesis by (simp add: timers_def)
qed

interpretation sched: timer_store schedule_at schedule_cancel timers schedule_wf
proof unfold_locales
  fix s :: "'f schedule" and ts :: int and f :: 'f
  assume wf: "schedule_wf s"
  then have "timers s (next_node s) = None"
    using schedule_wf_queue_fresh by (simp only: timers_None not_False_eq_True)
  with wf timers_at [OF wf, of ts f] schedule_at_wf [OF wf, of ts f]
  show "\<exists>n s'. schedule_at ts f s = (Inr (ts, Some n), s') \<and> timers s n = None \<and>
      timers s' = (timers s)(n \<mapsto> (ts, f)) \<and> schedule_wf s'"
    by (intro exI [of _ "next_node s"] exI [of _ "snd (schedule_at ts f s)"])
      (simp add: schedule_at_def)
next
  fix s :: "'f schedule" and n :: nat and ts :: int and f :: 'f
  assume wf: "schedule_wf s" and live: "timers s n = Some (ts, f)" and ts: "ts \<noteq> 0"
  then have "(ts, n, f) \<in> set (queue s)" by (simp add: timers_Some)
  from schedule_cancel_live [OF wf this ts] schedule_wf_mm_erase [OF wf]
  show "\<exists>s'. schedule_cancel (ts, Some n) s = (Inr (True, 0, Some n), s') \<and>
      timers s' = (timers s)(n := None) \<and> schedule_wf s'"
    by (auto simp: timers_erase)
qed simp

section \<open>The loop of \<open>run\<close>\<close>

lemma run_empty [op_simps]: "queue s = [] \<Longrightarrow> schedule_run now call (s, r) = Some (Inr 0, (s, r))"
  by (simp add: schedule_run.simps)

lemma run_due:
  "queue s = x # xs \<Longrightarrow> fst x \<le> now r \<Longrightarrow>
   schedule_run now call (s, r) =
     then_prog (call (snd (snd x))) (schedule_run now call) (s\<lparr>queue := xs\<rparr>, r)"
  by (subst schedule_run.simps) (simp add: op_defs)

lemma run_idle:
  "queue s = x # xs \<Longrightarrow> now r < fst x \<Longrightarrow>
   schedule_run now call (s, r) = Some
     (if in_time_range (fst x - now r) then Inr (word_of_int (fst x - now r))
      else Inl Undefined_behaviour, (s, r))"
  by (subst schedule_run.simps) simp

definition due_count :: "('r \<Rightarrow> int) \<Rightarrow> 'f schedule \<times> 'r \<Rightarrow> nat" where
  "due_count now st = length (filter (\<lambda>x. fst x \<le> now (snd st)) (queue (fst st)))"

text \<open>The state left by a run that returns has nothing due.\<close>

definition run_post :: "('r \<Rightarrow> int) \<Rightarrow> u32 \<Rightarrow> 'f schedule \<times> 'r \<Rightarrow> bool" where
  "run_post now d st \<longleftrightarrow>
     (case queue (fst st) of
        [] \<Rightarrow> d = 0
      | x # xs \<Rightarrow> now (snd st) < fst x \<and> d = word_of_int (fst x - now (snd st)))"

lemma schedule_run_rule:
  assumes run: "schedule_run now call st = Some (res, st')"
    and start: "I st"
    and step: "\<And>s r x xs res st'. I (s, r) \<Longrightarrow> queue s = x # xs \<Longrightarrow> fst x \<le> now r \<Longrightarrow>
      call (snd (snd x)) (s\<lparr>queue := xs\<rparr>, r) = Some (res, st') \<Longrightarrow> I st'"
  shows "I st' \<and> (\<forall>d. res = Inr d \<longrightarrow> run_post now d st')"
proof -
  let ?Q = "\<lambda>st p. I st \<longrightarrow> I (snd p) \<and> (\<forall>d. fst p = Inr d \<longrightarrow> run_post now d (snd p))"
  have "now = now \<longrightarrow> call = call \<longrightarrow> ?Q st (res, st')"
  proof (rule schedule_run.raw_induct
      [where P = "\<lambda>now' call' st p. now' = now \<longrightarrow> call' = call \<longrightarrow> ?Q st p", OF _ run], goal_cases)
    case (1 rec now' call' st p)
    obtain s r where st: "st = (s, r)" by (cases st)
    have "?Q st p" if eqs: "now' = now" "call' = call"
    proof (cases "queue s")
      case Nil
      with 1 show ?thesis by (auto simp: st run_post_def)
    next
      case (Cons x xs)
      show ?thesis
      proof (cases "fst x \<le> now r")
        case False
        with 1 Cons eqs show ?thesis by (auto simp: st run_post_def split: if_splits)
      next
        case True
        with 1(2) Cons eqs obtain out st1 where
          call: "call (snd (snd x)) (s\<lparr>queue := xs\<rparr>, r) = Some (out, st1)"
          by (auto simp: st split: option.splits)
        then have I1: "I (s, r) \<Longrightarrow> I st1" using step Cons True by blast
        show ?thesis
        proof (cases out)
          case (Inl e)
          with 1(2) Cons True call I1 eqs show ?thesis by (auto simp: st)
        next
          case (Inr u)
          with 1(2) Cons True call eqs have "rec now call st1 = Some p" by (simp add: st)
          with 1(1) I1 show ?thesis by (auto simp: st)
        qed
      qed
    qed
    then show ?case by blast
  qed
  with start show ?thesis by simp
qed

text \<open>The same for an invariant that need not hold after a fault.\<close>

lemma schedule_run_ensures:
  assumes erase: "\<And>s r x xs. J (s, r) \<Longrightarrow> queue s = x # xs \<Longrightarrow> J (s\<lparr>queue := xs\<rparr>, r)"
    and call: "\<And>f. p_ensures J E (call f)"
    and failed: "\<And>st. J st \<Longrightarrow> E Undefined_behaviour st"
  shows "p_ensures J E (schedule_run now call)"
proof -
  have "now = now \<longrightarrow> call = call \<longrightarrow> J st \<longrightarrow> outcome J E p" if run: "schedule_run now call st = Some p" for st p
  proof (rule schedule_run.raw_induct [where P = "\<lambda>now' call' st p.
      now' = now \<longrightarrow> call' = call \<longrightarrow> J st \<longrightarrow> outcome J E p", OF _ run], intro impI, goal_cases)
    case (1 rec now' call' st p)
    obtain s r where st: "st = (s, r)" by (cases st)
    have rec: "outcome J E y" if "rec now call s = Some y" "J s" for s y
      using 1(1) [OF that(1)] that(2) 1(3,4) by blast
    have call1: "outcome J E y" if "call f (s\<lparr>queue := xs\<rparr>, r) = Some y" "queue s = x # xs" for f y x xs
      using call erase [of s r x xs] that 1(5) unfolding p_ensures_outcome st by blast
    note step = 1(2) [unfolded 1(3,4) st fst_conv snd_conv]
    show ?case
    proof (cases "queue s")
      case Nil
      with step 1(5) st show ?thesis by auto
    next
      case (Cons x xs)
      with step 1(5) failed [OF 1(5)] st show ?thesis
        by (auto split: if_splits option.splits prod.splits sum.splits dest!: rec call1 [OF _ Cons])
    qed
  qed
  then show ?thesis unfolding p_ensures_outcome by blast
qed

lemma due_count_tl:
  "queue s = x # xs \<Longrightarrow> fst x \<le> now r \<Longrightarrow>
   due_count now (s, r) = Suc (due_count now (s\<lparr>queue := xs\<rparr>, r))"
  by (simp add: due_count_def)

lemma schedule_run_returns_inv:
  assumes start: "I st"
    and step: "\<And>s r x xs. I (s, r) \<Longrightarrow> queue s = x # xs \<Longrightarrow> fst x \<le> now r \<Longrightarrow>
      \<exists>res st'. call (snd (snd x)) (s\<lparr>queue := xs\<rparr>, r) = Some (res, st') \<and> I st' \<and>
        due_count now st' \<le> due_count now (s\<lparr>queue := xs\<rparr>, r)"
  shows "returns (schedule_run now call) st"
  using start
proof (induction "due_count now st" arbitrary: st rule: less_induct)
  case less
  obtain s r where st: "st = (s, r)" by (cases st)
  show ?case
  proof (cases "queue s")
    case Nil
    then show ?thesis by (simp add: st returns_def op_simps)
  next
    case (Cons x xs)
    show ?thesis
    proof (cases "fst x \<le> now r")
      case False
      with Cons show ?thesis by (simp add: st returns_def run_idle)
    next
      case True
      obtain res st' where call: "call (snd (snd x)) (s\<lparr>queue := xs\<rparr>, r) = Some (res, st')"
          and "I st'" and "due_count now st' < due_count now st"
        using step [OF less.prems [unfolded st] Cons True] due_count_tl [OF Cons, of now r] True
        by (auto simp: st)
      then have "returns (schedule_run now call) st'" using less.hyps by blast
      with call show ?thesis
        by (cases res) (auto simp: st run_due [OF Cons, of now r] True returns_def op_simps)
    qed
  qed
qed

lemma filter_due_sorted:
  "sorted (map fst q) \<Longrightarrow> q = x # xs \<Longrightarrow> t < fst x \<Longrightarrow>
   filter (\<lambda>x. fst x \<le> t) q = [] \<and> filter (\<lambda>x. t < fst x) q = q"
  by (auto simp: filter_empty_conv filter_id_conv)

definition next_delay :: "int \<Rightarrow> 'f queue_entry list \<Rightarrow> u32" where
  "next_delay t q = (case q of [] \<Rightarrow> 0 | x # _ \<Rightarrow> word_of_int (fst x - t))"

lemma schedule_run_frame:
  assumes frame: "\<And>f s r. call f (s, r) = Some (Inr (), (s, upd f r))"
    and clock: "\<And>f r. now (upd f r) = now r"
    and range: "\<forall>x \<in> set (queue s). in_time_range (fst x - now r)"
    and "sorted (map fst (queue s))"
  shows "schedule_run now call (s, r) =
    (let later = filter (\<lambda>x. now r < fst x) (queue s);
         tasks = map (\<lambda>x. snd (snd x)) (filter (\<lambda>x. fst x \<le> now r) (queue s))
     in Some (Inr (next_delay (now r) later), (s\<lparr>queue := later\<rparr>, fold upd tasks r)))"
  using range \<open>sorted _\<close>
proof (induction "queue s" arbitrary: s r)
  case Nil
  then have "queue s = []" by simp
  then show ?case by (simp add: op_simps next_delay_def)
next
  case (Cons x xs)
  then have q: "queue s = x # xs" by simp
  show ?case
  proof (cases "fst x \<le> now r")
    case False
    with filter_due_sorted [OF Cons.prems(2) q, of "now r"] show ?thesis
      using Cons.prems(1) by (simp add: run_idle [OF q] q next_delay_def)
  next
    case True
    have "schedule_run now call (s, r) = schedule_run now call (s\<lparr>queue := xs\<rparr>, upd (snd (snd x)) r)"
      using True by (simp add: run_due [OF q, of now r] frame op_simps)
    also have "\<dots> = (let later = filter (\<lambda>x. now r < fst x) xs;
         tasks = map (\<lambda>x. snd (snd x)) (filter (\<lambda>x. fst x \<le> now r) xs)
       in Some (Inr (next_delay (now r) later), (s\<lparr>queue := later\<rparr>, fold upd tasks (upd (snd (snd x)) r))))"
      using Cons.hyps(1) [of "s\<lparr>queue := xs\<rparr>" "upd (snd (snd x)) r"] Cons.prems by (simp add: q clock Let_def)
    finally show ?thesis using True by (simp add: q)
  qed
qed

section \<open>Scheduling a list of tasks sorts it\<close>

fun schedule_all :: "(int \<times> 'f) list \<Rightarrow> 'f schedule \<Rightarrow> 'f schedule" where
  "schedule_all [] s = s"
| "schedule_all (e # es) s = schedule_all es (snd (schedule_at (fst e) (snd e) s))"

abbreviation stamped :: "'f queue_entry list \<Rightarrow> (int \<times> 'f) list" where
  "stamped q \<equiv> map (\<lambda>x. (fst x, snd (snd x))) q"

lemma schedule_all_wf: "schedule_wf s \<Longrightarrow> schedule_wf (schedule_all es s)"
  by (induction es arbitrary: s) (simp_all add: schedule_at_wf)

lemma filter_stamped_mm_insert:
  "sorted (map fst q) \<Longrightarrow>
   filter (\<lambda>x. k = fst x) (stamped (mm_insert e q)) =
     filter (\<lambda>x. k = fst x) (stamped q) @ (if k = fst e then [(fst e, snd (snd e))] else [])"
proof (induction q)
  case (Cons x q)
  show ?case
  proof (cases "fst x \<le> fst e")
    case False
    with Cons.prems have "k = fst e \<Longrightarrow> filter (\<lambda>x. k = fst x) (stamped (x # q)) = []"
      by (auto simp: filter_empty_conv)
    with False show ?thesis by auto
  qed (use Cons in auto)
qed simp

lemma queue_schedule_at:
  "queue (snd (schedule_at ts f s)) = mm_insert (ts, next_node s, f) (queue s)"
  by (simp add: schedule_at_def)

lemma mset_schedule_all:
  "mset (stamped (queue (schedule_all es s))) = mset (stamped (queue s)) + mset es"
  by (induction es arbitrary: s) (simp_all add: queue_schedule_at mset_mm_insert)

lemma filter_schedule_all:
  "schedule_wf s \<Longrightarrow>
   filter (\<lambda>x. k = fst x) (stamped (queue (schedule_all es s))) =
     filter (\<lambda>x. k = fst x) (stamped (queue s)) @ filter (\<lambda>x. k = fst x) es"
proof (induction es arbitrary: s)
  case (Cons e es)
  from Cons.prems have "sorted (map fst (queue s))" by (simp add: schedule_wf_def)
  with Cons.IH [OF schedule_at_wf [OF Cons.prems]] show ?case
    by (auto simp: queue_schedule_at filter_stamped_mm_insert)
qed simp

lemma schedule_all_sorts:
  "stamped (queue (schedule_all es schedule_init)) = sort_key fst es"
proof (rule sym, rule properties_for_sort_key)
  let ?q = "queue (schedule_all es (schedule_init :: 'a schedule))"
  show "mset (stamped ?q) = mset es"
    using mset_schedule_all [of es schedule_init] by (simp add: schedule_init_def)
  show "filter (\<lambda>x. fst k = fst x) (stamped ?q) = filter (\<lambda>x. fst k = fst x) es" for k
    using filter_schedule_all [OF schedule_wf_init] by (simp add: schedule_init_def)
  show "sorted (map fst (stamped ?q))"
    using schedule_all_wf [OF schedule_wf_init, of es] by (simp add: schedule_wf_def comp_def)
qed

lemma schedule_run_diverges:
  assumes start: "I st"
    and step: "\<And>s r. I (s, r) \<Longrightarrow> \<exists>x xs st'. queue s = x # xs \<and> fst x \<le> now r \<and>
      call (snd (snd x)) (s\<lparr>queue := xs\<rparr>, r) = Some (Inr (), st') \<and> I st'"
  shows "schedule_run now call st = None"
proof (rule ccontr)
  assume "schedule_run now call st \<noteq> None"
  then obtain p where run: "schedule_run now call st = Some p" by auto
  have "now = now \<longrightarrow> call = call \<longrightarrow> \<not> I st"
  proof (rule schedule_run.raw_induct
      [where P = "\<lambda>now' call' st p. now' = now \<longrightarrow> call' = call \<longrightarrow> \<not> I st", OF _ run], goal_cases)
    case (1 rec now' call' st p)
    obtain s r where st: "st = (s, r)" by (cases st)
    have "\<not> I st" if eqs: "now' = now" "call' = call"
    proof
      assume "I st"
      then obtain x xs st1 where "queue s = x # xs" "fst x \<le> now r"
          "call (snd (snd x)) (s\<lparr>queue := xs\<rparr>, r) = Some (Inr (), st1)" "I st1"
        using step unfolding st by blast
      with 1 eqs show False by (auto simp: st)
    qed
    then show ?case by blast
  qed
  with start show False by simp
qed

section \<open>Properties\<close>

text \<open>
  C1.  Any list of tasks, scheduled on an empty dispatcher and then run, is executed in the order of
  the time stamps, tasks of one stamp in the order they were scheduled; exactly the tasks whose
  time has come are executed, the others stay queued, and \<open>run\<close> returns the seconds until the
  first of those, or 0 when there is none.
\<close>

theorem schedule_runs_tasks_in_order:
  assumes frame: "\<And>f s r. call f (s, r) = Some (Inr (), (s, upd f r))"
    and clock: "\<And>f r. now (upd f r) = now r"
    and range: "\<forall>e \<in> set es. in_time_range (fst e - now r)"
  shows "\<exists>s'. schedule_run now call (schedule_all es schedule_init, r) =
      Some (Inr (case filter (\<lambda>e. now r < fst e) (sort_key fst es) of
                   [] \<Rightarrow> 0 | e # _ \<Rightarrow> word_of_int (fst e - now r)),
            (s', fold upd (map snd (filter (\<lambda>e. fst e \<le> now r) (sort_key fst es))) r)) \<and>
    stamped (queue s') = filter (\<lambda>e. now r < fst e) (sort_key fst es)"
proof -
  let ?s = "schedule_all es (schedule_init :: 'a schedule)"
  have st: "stamped (queue ?s) = sort_key fst es" by (rule schedule_all_sorts)
  have "fst ` set (queue ?s) = fst ` set (stamped (queue ?s))" by (simp add: image_image)
  then have keys: "fst ` set (queue ?s) = fst ` set es" by (simp add: st)
  have "\<forall>x \<in> set (queue ?s). in_time_range (fst x - now r)"
  proof
    fix x assume "x \<in> set (queue ?s)"
    then have "fst x \<in> fst ` set es" unfolding keys [symmetric] by blast
    with range show "in_time_range (fst x - now r)" by auto
  qed
  from schedule_run_frame [of call upd now, OF frame clock this]
    schedule_all_wf [OF schedule_wf_init, of es]
  have run: "schedule_run now call (?s, r) =
    (let later = filter (\<lambda>x. now r < fst x) (queue ?s);
         tasks = map (\<lambda>x. snd (snd x)) (filter (\<lambda>x. fst x \<le> now r) (queue ?s))
     in Some (Inr (next_delay (now r) later), (?s\<lparr>queue := later\<rparr>, fold upd tasks r)))"
    by (simp add: schedule_wf_def)
  have later: "stamped (filter (\<lambda>x. now r < fst x) (queue ?s)) =
      filter (\<lambda>e. now r < fst e) (sort_key fst es)"
    by (simp add: filter_map comp_def flip: st)
  have tasks: "map (\<lambda>x. snd (snd x)) (filter (\<lambda>x. fst x \<le> now r) (queue ?s)) =
      map snd (filter (\<lambda>e. fst e \<le> now r) (sort_key fst es))"
    by (simp add: filter_map comp_def flip: st)
  have delay: "next_delay (now r) (filter (\<lambda>x. now r < fst x) (queue ?s)) =
      (case filter (\<lambda>e. now r < fst e) (sort_key fst es) of
         [] \<Rightarrow> 0 | e # _ \<Rightarrow> word_of_int (fst e - now r))"
    unfolding later [symmetric] by (simp add: next_delay_def split: list.split)
  from run later show ?thesis by (simp add: Let_def delay tasks)
qed

text \<open>The first test case of the repository's \<open>test/schedule.cpp\<close>: a task now, one in a second, one
  in five; the tasks record their names.\<close>

theorem schedule_runs_tasks_in_order_witness:
  "\<exists>s'. schedule_run fst (\<lambda>f (s, r). Some (Inr (), (s, (fst r, snd r @ [f]))))
      (schedule_all [(105, ''c''), (100, ''a''), (101, ''b'')] schedule_init, (100, [])) =
      Some (Inr 1, (s', (100, [''a'']))) \<and>
    stamped (queue s') = [(101, ''b''), (105, ''c'')]"
proof -
  have "\<exists>s'. schedule_run fst (\<lambda>f (s, r). Some (Inr (), (s, (fst r, snd r @ [f]))))
      (schedule_all [(105, ''c''), (100, ''a''), (101, ''b'')] schedule_init, (100, [])) =
      Some (Inr (case filter (\<lambda>e. fst (100 :: int, [] :: string list) < fst e)
          (sort_key fst [(105, ''c''), (100, ''a''), (101, ''b'')]) of
            [] \<Rightarrow> 0 | e # _ \<Rightarrow> word_of_int (fst e - fst (100 :: int, [] :: string list))),
        (s', fold (\<lambda>f r. (fst r, snd r @ [f])) (map snd (filter (\<lambda>e. fst e \<le> fst (100 :: int, [] :: string list))
          (sort_key fst [(105, ''c''), (100, ''a''), (101, ''b'')]))) (100, []))) \<and>
    stamped (queue s') = filter (\<lambda>e. fst (100 :: int, [] :: string list) < fst e)
      (sort_key fst [(105, ''c''), (100, ''a''), (101, ''b'')])"
    by (rule schedule_runs_tasks_in_order) (simp_all add: in_time_range_def)
  then show ?thesis by (simp add: sort_key_def)
qed

text \<open>
  C24.  Whatever the tasks do (schedule more tasks, cancel some, change the clock), a \<open>run\<close> that
  returns normally leaves only tasks whose time is still to come, and its result is the distance
  from the clock to the earliest of them, reduced to 32 bits, or 0 when the queue is empty.
\<close>

theorem schedule_run_result:
  assumes wf: "schedule_wf s"
    and keeps: "\<And>f s r res s' r'. schedule_wf s \<Longrightarrow> call f (s, r) = Some (res, (s', r')) \<Longrightarrow> schedule_wf s'"
    and run: "schedule_run now call (s, r) = Some (Inr d, (s', r'))"
  shows "schedule_wf s' \<and> (\<forall>x \<in> set (queue s'). now r' < fst x) \<and>
    d = (if queue s' = [] then 0 else word_of_int (Min (fst ` set (queue s')) - now r'))"
proof -
  have "schedule_wf (fst (s', r')) \<and> (\<forall>d'. Inr d = (Inr d' :: fault + u32) \<longrightarrow> run_post now d' (s', r'))"
  proof (rule schedule_run_rule [OF run, of "\<lambda>st. schedule_wf (fst st)"])
    fix s0 r0 x xs res st'
    assume "schedule_wf (fst (s0, r0))" and q: "queue s0 = x # xs"
      and c: "call (snd (snd x)) (s0\<lparr>queue := xs\<rparr>, r0) = Some (res, st')"
    then have "schedule_wf (s0\<lparr>queue := xs\<rparr>)" using schedule_wf_tl by simp
    moreover obtain s1 r1 where "st' = (s1, r1)" by (cases st')
    ultimately show "schedule_wf (fst st')" using keeps c by simp
  qed (use wf in simp)
  then have wf': "schedule_wf s'" and post: "run_post now d (s', r')" by auto
  show ?thesis
  proof (cases "queue s'")
    case Nil
    with wf' post show ?thesis by (simp add: run_post_def)
  next
    case (Cons x xs)
    with wf' have "\<forall>y \<in> set (queue s'). fst x \<le> fst y" by (auto simp: schedule_wf_def)
    then have "Min (fst ` set (queue s')) = fst x" by (intro Min_eqI) (auto simp: Cons)
    with wf' post Cons \<open>\<forall>y \<in> set (queue s'). fst x \<le> fst y\<close> show ?thesis
      by (auto simp: run_post_def)
  qed
qed

definition beep :: "string \<Rightarrow> (string schedule \<times> int, unit) prog" where
  "beep f = (\<lambda>(s, r). Some (Inr (),
     (if f = ''again'' then snd (schedule_at (r + 3) ''stop'' s) else s, r)))"

lemma beep_wf: "schedule_wf s \<Longrightarrow> beep f (s, r) = Some (res, (s', r')) \<Longrightarrow> schedule_wf s'"
  using schedule_at_wf by (auto simp: beep_def split: if_splits)

theorem schedule_run_result_witness:
  "schedule_run (\<lambda>r. r) beep (\<lparr>queue = [(7, 0, ''again'')], next_node = 1\<rparr>, 8) =
     Some (Inr 3, (\<lparr>queue = [(11, 1, ''stop'')], next_node = 2\<rparr>, 8)) \<and>
   (3 :: u32) = word_of_int (Min {11} - 8)"
proof -
  have run: "schedule_run (\<lambda>r. r) beep (\<lparr>queue = [(7, 0, ''again'')], next_node = 1\<rparr>, 8) =
     Some (Inr 3, (\<lparr>queue = [(11, 1, ''stop'')], next_node = 2\<rparr>, 8))"
    by (subst schedule_run.simps, simp add: beep_def schedule_at_def)
      (subst schedule_run.simps, simp add: in_time_range_def)
  have "schedule_wf \<lparr>queue = [(7, 0, ''again'')], next_node = 1\<rparr>" by (simp add: schedule_wf_def)
  from schedule_run_result [OF this beep_wf run] run show ?thesis by simp
qed

text \<open>
  C29.  \<open>run\<close> returns whenever the tasks return and do not queue more due work than they find: no
  task that \<open>run\<close> calls leaves more entries due than there were when it was called.
\<close>

theorem schedule_run_returns:
  assumes "\<And>f s r. \<exists>res st'. call f (s, r) = Some (res, st') \<and> due_count now st' \<le> due_count now (s, r)"
  shows "\<exists>res st'. schedule_run now call st = Some (res, st')"
proof -
  have "returns (schedule_run now call) st"
    by (rule schedule_run_returns_inv [of "\<lambda>_. True"]) (use assms in auto)
  then show ?thesis by (auto simp: returns_def)
qed

lemma due_count_at_later:
  "now r < ts \<Longrightarrow> due_count now (snd (schedule_at ts f s), r) = due_count now (s, r)"
proof -
  assume later: "now r < ts"
  have "length (filter (\<lambda>x. fst x \<le> now r) (mm_insert (ts, n, f) q)) =
      length (filter (\<lambda>x. fst x \<le> now r) q)" for n q
    using later by (induction q) auto
  then show ?thesis by (simp add: due_count_def queue_schedule_at)
qed

theorem schedule_run_returns_witness:
  "\<exists>res st'. schedule_run (\<lambda>r. r) beep (\<lparr>queue = [(7, 0, ''again''), (8, 1, ''again'')], next_node = 2\<rparr>, 8)
     = Some (res, st')"
proof (rule schedule_run_returns)
  fix f s and r :: int
  show "\<exists>res st'. beep f (s, r) = Some (res, st') \<and>
      due_count (\<lambda>r. r) st' \<le> due_count (\<lambda>r. r) (s, r)"
    by (simp add: beep_def due_count_at_later)
qed

definition reschedule_now :: "'f \<Rightarrow> ('f schedule \<times> int, unit) prog" where
  "reschedule_now f = (\<lambda>(s, now). Some (Inr (), (snd (schedule_in now 0 f s), now)))"

text \<open>
  A task that schedules itself again for the present moment keeps \<open>run\<close> from ever returning:
  there is no bound on the work of one call, so the i/o dispatcher and the resolver starve.
\<close>

theorem schedule_run_starves:
  assumes "in_time_range now" and "schedule_wf s" and "\<exists>x \<in> set (queue s). fst x \<le> now"
  shows "schedule_run (\<lambda>r. r) reschedule_now (s, now) = None"
proof (rule schedule_run_diverges
    [of "\<lambda>st. snd st = now \<and> schedule_wf (fst st) \<and> (\<exists>x \<in> set (queue (fst st)). fst x \<le> now)"])
  fix s0 :: "'a schedule" and r0 :: int
  assume I: "snd (s0, r0) = now \<and> schedule_wf (fst (s0, r0)) \<and> (\<exists>x \<in> set (queue (fst (s0, r0))). fst x \<le> now)"
  then obtain x xs where q: "queue s0 = x # xs" by (cases "queue s0") auto
  let ?s = "snd (schedule_at now (snd (snd x)) (s0\<lparr>queue := xs\<rparr>))"
  have "fst x \<le> now" using I by (auto simp: q schedule_wf_def)
  moreover have "reschedule_now (snd (snd x)) (s0\<lparr>queue := xs\<rparr>, now) = Some (Inr (), (?s, now))"
    using assms(1) by (simp add: reschedule_now_def schedule_in_def op_defs)
  moreover have "schedule_wf ?s" using schedule_at_wf [OF schedule_wf_tl [OF _ q]] I by simp
  moreover have "\<exists>x \<in> set (queue ?s). fst x \<le> now" by (auto simp: queue_schedule_at)
  ultimately show "\<exists>x xs st'. queue s0 = x # xs \<and> fst x \<le> r0 \<and>
      reschedule_now (snd (snd x)) (s0\<lparr>queue := xs\<rparr>, r0) = Some (Inr (), st') \<and>
      snd st' = now \<and> schedule_wf (fst st') \<and> (\<exists>x \<in> set (queue (fst st')). fst x \<le> now)"
    using I q by auto
qed (use assms in simp)

theorem schedule_run_starves_witness:
  "schedule_run (\<lambda>r. r) reschedule_now (\<lparr>queue = [(5, 0, ''tick'')], next_node = 1\<rparr>, 5) = None"
  by (rule schedule_run_starves) (simp_all add: in_time_range_def schedule_wf_def)

text \<open>
  C25.  What \<open>cancel\<close> does with an identifier that \<open>at\<close> has issued.  A pending task is removed, and
  nothing else; the identifier is reset to time 0, so that a second \<open>cancel\<close> is a no-op.  For a
  task that is no longer queued, \<open>cancel\<close> answers false only while the first entry of the queue is
  later than the stamp of the identifier: when it is earlier the code erases through a dangling
  iterator, and when it has the same stamp the code compares the first iterator with a dangling one.
\<close>

theorem schedule_cancel_cases:
  assumes wf: "schedule_wf s" and issued: "\<forall>ts' f. timers s n = Some (ts', f) \<longrightarrow> ts' = ts"
  shows "schedule_cancel (ts, Some n) s =
    (if ts = 0 \<or> queue s = [] then (Inr (False, ts, Some n), s)
     else if timers s n \<noteq> None then (Inr (True, 0, Some n), s\<lparr>queue := mm_erase n (queue s)\<rparr>)
     else if fst (hd (queue s)) \<le> ts then (Inl Undefined_behaviour, s)
     else (Inr (False, ts, Some n), s))"
proof (cases "timers s n")
  case None
  then have "n \<notin> set (nodes (queue s))" by (simp only: timers_None not_False_eq_True)
  from schedule_cancel_stale [OF this, of ts] None show ?thesis by auto
next
  case (Some e)
  with issued obtain f where "timers s n = Some (ts, f)" by (cases e) auto
  with wf have live: "(ts, n, f) \<in> set (queue s)" by (simp add: timers_Some)
  then show ?thesis
    using schedule_cancel_live [OF wf live] Some by (cases "ts = 0") auto
qed

theorem schedule_cancel_cases_witness:
  "schedule_cancel (7, Some 1) \<lparr>queue = [(7, 0, ''a''), (7, 1, ''b''), (9, 2, ''c'')], next_node = 3\<rparr> =
     (Inr (True, 0, Some 1), \<lparr>queue = [(7, 0, ''a''), (9, 2, ''c'')], next_node = 3\<rparr>)"
proof -
  let ?s = "\<lparr>queue = [(7, 0, ''a''), (7, 1, ''b''), (9, 2, ''c'')], next_node = 3\<rparr>"
  have "schedule_wf ?s" by (simp add: schedule_wf_def)
  moreover have "\<forall>ts' f. timers ?s 1 = Some (ts', f) \<longrightarrow> ts' = 7" by (simp add: timers_def)
  ultimately show ?thesis
    using schedule_cancel_cases [of ?s 1 7] by (simp add: timers_def mm_erase_def)
qed

text \<open>
  C35.  Scheduling a task and cancelling it with the identifier that was returned leaves the queue
  exactly as it was, for every time stamp but 0.
\<close>

theorem schedule_at_cancel:
  assumes "schedule_wf s" and "ts \<noteq> 0"
  shows "bind_op (schedule_at ts f) schedule_cancel s =
    (Inr (True, 0, Some (next_node s)), s\<lparr>next_node := Suc (next_node s)\<rparr>)"
proof -
  let ?s = "snd (schedule_at ts f s)"
  have "(ts, next_node s, f) \<in> set (queue ?s)" by (simp add: queue_schedule_at)
  from schedule_cancel_live [OF schedule_at_wf [OF assms(1)] this assms(2)]
    mm_erase_insert [of "(ts, next_node s, f)" "queue s"] schedule_wf_queue_fresh [OF assms(1)]
  show ?thesis by (simp add: schedule_at_def bind_op_def)
qed

theorem schedule_at_cancel_witness:
  "bind_op (schedule_at 8 ''x'') schedule_cancel \<lparr>queue = [(8, 0, ''a''), (9, 1, ''b'')], next_node = 2\<rparr> =
    (Inr (True, 0, Some 2), \<lparr>queue = [(8, 0, ''a''), (9, 1, ''b'')], next_node = 3\<rparr>)"
  using schedule_at_cancel [of "\<lparr>queue = [(8, 0, ''a''), (9, 1, ''b'')], next_node = 2\<rparr>" 8 "''x''"]
  by (simp add: schedule_wf_def)

text \<open>
  Time stamp 0 doubles as the mark of an identifier that is not in use: a task scheduled for the
  epoch cannot be cancelled.  \<open>cancel\<close> answers false and leaves it queued.
\<close>

theorem schedule_at_epoch_not_cancelled:
  "bind_op (schedule_at 0 f) schedule_cancel s =
    (Inr (False, 0, Some (next_node s)), snd (schedule_at 0 f s)) \<and>
   (0, next_node s, f) \<in> set (queue (snd (schedule_at 0 f s)))"
  by (simp add: bind_op_def schedule_at_def)

text \<open>
  Re-arming a \<open>timeout\<close> whose task is pending replaces that task: the old entry is gone, the new
  one is queued under the identifier the \<open>timeout\<close> now holds, every other timer is untouched, and the
  call reports that a task was cancelled.
\<close>

theorem timeout_at_replaces:
  assumes "schedule_wf s" and "timers s n = Some (ts, f)" and "ts \<noteq> 0"
  shows "\<exists>m s'. timeout_at ts' g (ts, Some n) s = (Inr (True, ts', Some m), s') \<and>
    timers s' = (timers s)(n := None, m \<mapsto> (ts', g)) \<and> (m = n \<or> timers s m = None) \<and> schedule_wf s'"
  unfolding timeout_at_def using assms by (rule sched.rearm)

theorem timeout_at_replaces_witness:
  "\<exists>m s'. timeout_at 20 ''new'' (7, Some 0) \<lparr>queue = [(7, 0, ''old''), (9, 1, ''b'')], next_node = 2\<rparr>
      = (Inr (True, 20, Some m), s') \<and> timers s' m = Some (20, ''new'')"
proof -
  let ?s = "\<lparr>queue = [(7, 0, ''old''), (9, 1, ''b'')], next_node = 2\<rparr>"
  have "schedule_wf ?s" "timers ?s 0 = Some (7, ''old'')" by (simp_all add: schedule_wf_def timers_def)
  from timeout_at_replaces [OF this, of 20 "''new''"] show ?thesis by auto
qed

text \<open>
  C40.  A \<open>timeout\<close> whose task has run still holds the identifier of the erased node.  Cancelling it
  (as its destructor does) while an entry with the same stamp is queued compares with an iterator that
  is no longer valid, which is undefined.
\<close>

theorem timeout_cancel_after_fire:
  assumes "ts \<noteq> 0"
  shows "\<exists>tid s1 s2 r. schedule_at ts f schedule_init = (Inr tid, s1) \<and>
    schedule_run (\<lambda>r. r) (\<lambda>_ st. Some (Inr (), st)) (s1, ts) = Some (Inr 0, (s2, r)) \<and>
    fst (timeout_cancel tid (snd (schedule_at ts g s2))) = Inl Undefined_behaviour"
proof -
  have "schedule_run (\<lambda>r. r) (\<lambda>_ st. Some (Inr (), st)) (\<lparr>queue = [(ts, 0, f)], next_node = 1\<rparr>, ts) =
      Some (Inr 0, (\<lparr>queue = [], next_node = 1\<rparr>, ts))"
    by (subst schedule_run.simps, simp, subst schedule_run.simps, simp)
  with assms show ?thesis
    by (simp add: schedule_at_def schedule_init_def timeout_cancel_def schedule_cancel_def)
qed

theorem timeout_cancel_after_fire_witness:
  "\<exists>tid s1 s2 r. schedule_at 100 ''f'' schedule_init = (Inr tid, s1) \<and>
    schedule_run (\<lambda>r. r) (\<lambda>_ st. Some (Inr (), st)) (s1, 100) = Some (Inr 0, (s2, r)) \<and>
    fst (timeout_cancel tid (snd (schedule_at 100 ''g'' s2))) = Inl Undefined_behaviour"
  by (rule timeout_cancel_after_fire) simp

end
