(* ===== verification/Ioxx_Error.thy ===== *)
theory Ioxx_Error
  imports Ioxx_Prelude
begin

text \<open>
  The error handling of \<open>include/ioxx/error.hpp\<close>: the exception class \<open>system_error\<close> and the
  combinators \<open>throw_errno_if\<close> and \<open>throw_errno_if_minus1\<close> that every system call of the library
  goes through.

  The operating system is not part of the repository.  Its state is a type variable; a system call
  is a function on the world, that is, on that state together with the thread's \<open>errno\<close>, which a
  call may overwrite.  The numeric codes are those of Linux.
\<close>

record 'k world =
  errno :: int
  os :: 'k

type_synonym ('k, 'r) syscall = "'k world \<Rightarrow> 'r \<times> 'k world"

definition EINTR :: int where
  "EINTR = 4"

definition EAGAIN :: int where
  "EAGAIN = 11"

definition EWOULDBLOCK :: int where
  "EWOULDBLOCK = 11"

definition ERANGE :: int where
  "ERANGE = 34"

definition ESRCH :: int where
  "ESRCH = 3"

lemmas errno_codes = EINTR_def EAGAIN_def EWOULDBLOCK_def ERANGE_def ESRCH_def

section \<open>Definitions\<close>

text \<open>The message of an exception: \<open>context + ": " + strerror(ec)\<close>; \<open>strerror\<close> belongs to the C
  library and is an argument.\<close>

fun system_error_what :: "(int \<Rightarrow> string) \<Rightarrow> fault \<Rightarrow> string option" where
  "system_error_what strerror (System_error ec ctx) = Some (ctx @ '': '' @ strerror ec)"
| "system_error_what strerror (Runtime_error msg) = Some msg"
| "system_error_what strerror (Invalid_argument msg) = Some msg"
| "system_error_what strerror _ = None"

text \<open>The loop of \<open>throw_errno_if\<close>; the first argument is the counter \<open>max_retries\<close>.  The
  post-decrement of a counter that is already 0 is not observable: the next statement throws.\<close>

fun throw_errno_loop ::
  "nat \<Rightarrow> ('r \<Rightarrow> int \<Rightarrow> bool) \<Rightarrow> string \<Rightarrow> ('k, 'r) syscall \<Rightarrow> ('k world, 'r) op" where
  "throw_errno_loop n is_failure error_msg f w =
     (case f w of (r, w') \<Rightarrow>
        if is_failure r (errno w') then
          (if errno w' = EINTR \<and> 0 < n
           then throw_errno_loop (n - 1) is_failure error_msg f w'
           else (Inl (System_error (errno w') error_msg), w'))
        else (Inr r, w'))"

declare throw_errno_loop.simps [simp del]

definition throw_errno_if ::
  "('r \<Rightarrow> int \<Rightarrow> bool) \<Rightarrow> string \<Rightarrow> ('k, 'r) syscall \<Rightarrow> ('k world, 'r) op" where
  "throw_errno_if is_failure error_msg f =
     bind_op (throw_errno_loop 5 is_failure error_msg f)
       (\<lambda>r w. then_op (assert_op (\<not> is_failure r (errno w))) (ret r) w)"

definition throw_errno_if_minus1 :: "string \<Rightarrow> ('k, int) syscall \<Rightarrow> ('k world, int) op" where
  "throw_errno_if_minus1 error_msg f = throw_errno_if (\<lambda>r _. -1 = r) error_msg f"

section \<open>What the loop does\<close>

text \<open>The worlds a repeated call goes through, and the result of its \<open>i\<close>-th repetition.\<close>

fun world_after :: "nat \<Rightarrow> ('k, 'r) syscall \<Rightarrow> 'k world \<Rightarrow> 'k world" where
  "world_after 0 f w = w"
| "world_after (Suc i) f w = world_after i f (snd (f w))"

definition nth_result :: "nat \<Rightarrow> ('k, 'r) syscall \<Rightarrow> 'k world \<Rightarrow> 'r" where
  "nth_result i f w = fst (f (world_after i f w))"

text \<open>The \<open>i\<close>-th call (from 0) fails with \<open>EINTR\<close>.\<close>

definition interrupted :: "('r \<Rightarrow> int \<Rightarrow> bool) \<Rightarrow> nat \<Rightarrow> ('k, 'r) syscall \<Rightarrow> 'k world \<Rightarrow> bool" where
  "interrupted is_failure i f w \<longleftrightarrow>
     is_failure (nth_result i f w) (errno (world_after (Suc i) f w)) \<and>
     errno (world_after (Suc i) f w) = EINTR"

definition attempt ::
  "('r \<Rightarrow> int \<Rightarrow> bool) \<Rightarrow> string \<Rightarrow> nat \<Rightarrow> ('k, 'r) syscall \<Rightarrow> ('k world, 'r) op" where
  "attempt is_failure error_msg i f w =
     ((if is_failure (nth_result i f w) (errno (world_after (Suc i) f w))
       then Inl (System_error (errno (world_after (Suc i) f w)) error_msg)
       else Inr (nth_result i f w)), world_after (Suc i) f w)"

lemma nth_result_Suc: "nth_result (Suc i) f w = nth_result i f (snd (f w))"
  by (simp add: nth_result_def)

lemma interrupted_Suc: "interrupted p (Suc i) f w = interrupted p i f (snd (f w))"
  by (simp add: interrupted_def nth_result_Suc)

lemma attempt_Suc: "attempt p msg (Suc i) f w = attempt p msg i f (snd (f w))"
  by (simp add: attempt_def nth_result_Suc)

lemma throw_errno_loop_attempt:
  "(\<And>j. j < i \<Longrightarrow> interrupted p j f w) \<Longrightarrow> i \<le> n \<Longrightarrow> i = n \<or> \<not> interrupted p i f w \<Longrightarrow>
   throw_errno_loop n p msg f w = attempt p msg i f w"
proof (induction i arbitrary: n w)
  case 0
  then show ?case
    by (auto simp: throw_errno_loop.simps [of n] attempt_def interrupted_def nth_result_def
        split: prod.splits)
next
  case (Suc i)
  then obtain m where n: "n = Suc m" by (cases n) auto
  have "interrupted p 0 f w" using Suc.prems(1) by blast
  then have step: "throw_errno_loop n p msg f w = throw_errno_loop m p msg f (snd (f w))"
    by (auto simp: throw_errno_loop.simps [of "Suc m"] n interrupted_def nth_result_def
        split: prod.splits)
  have "throw_errno_loop m p msg f (snd (f w)) = attempt p msg i f (snd (f w))"
    using Suc.prems by (intro Suc.IH) (auto simp: n interrupted_Suc [symmetric])
  with step show ?case by (simp add: attempt_Suc)
qed

lemma throw_errno_loop_not_failing:
  "throw_errno_loop n p msg f w = (Inr r, w') \<Longrightarrow> \<not> p r (errno w')"
  by (induction n p msg f w rule: throw_errno_loop.induct)
    (subst (asm) (2) throw_errno_loop.simps, auto split: prod.splits if_splits)

text \<open>The assertion at the end of \<open>throw_errno_if\<close> never fires, so the combinator is its loop.\<close>

lemma throw_errno_if_loop: "throw_errno_if p msg f w = throw_errno_loop 5 p msg f w"
proof (cases "throw_errno_loop 5 p msg f w")
  case (Pair r w')
  then show ?thesis
    by (cases r) (auto simp: throw_errno_if_def op_simps dest: throw_errno_loop_not_failing)
qed

lemma throw_errno_if_attempt:
  assumes "\<And>j. j < i \<Longrightarrow> interrupted p j f w" and "i \<le> 5" and "i = 5 \<or> \<not> interrupted p i f w"
  shows "throw_errno_if p msg f w = attempt p msg i f w"
  using throw_errno_loop_attempt [of i p f w 5 msg] assms by (simp add: throw_errno_if_loop)

lemma throw_errno_if_Inl:
  assumes "throw_errno_if p msg f w = (Inl e, w')"
  shows "e = System_error (errno w') msg"
proof -
  have "throw_errno_loop n p msg f w = (Inl e, w') \<Longrightarrow> e = System_error (errno w') msg" for n
    by (induction n p msg f w rule: throw_errno_loop.induct)
      (subst (asm) (2) throw_errno_loop.simps, auto split: prod.splits if_splits)
  with assms show ?thesis by (auto simp: throw_errno_if_loop)
qed

lemma throw_errno_if_Inr:
  "throw_errno_if p msg f w = (Inr r, w') \<Longrightarrow> \<not> p r (errno w')"
  by (auto simp: throw_errno_if_loop dest: throw_errno_loop_not_failing)

lemma throw_errno_if_from_call:
  assumes "throw_errno_if p msg f w = (Inr r, w')"
  shows "\<exists>w0. f w0 = (r, w')"
proof -
  have "throw_errno_loop n p msg f w = (Inr r, w') \<Longrightarrow> \<exists>w0. f w0 = (r, w')" for n
    by (induction n p msg f w rule: throw_errno_loop.induct)
      (subst (asm) (2) throw_errno_loop.simps, auto split: prod.splits if_splits)
  with assms show ?thesis by (auto simp: throw_errno_if_loop)
qed

text \<open>What no call changes, the combinator leaves alone.\<close>

lemma throw_errno_loop_keeps:
  "(\<And>w. q (snd (f w)) = q w) \<Longrightarrow> q (snd (throw_errno_loop n p msg f w)) = q w"
proof (induction n p msg f w rule: throw_errno_loop.induct)
  case (1 n p msg f w)
  obtain r w' where f: "f w = (r, w')" by (cases "f w")
  with 1(1) [OF f [symmetric]] 1(2) [of w] 1(2) show ?case
    by (subst throw_errno_loop.simps) (simp add: f)
qed

lemma throw_errno_if_keeps [keeps_intros]:
  "(\<And>w. q (snd (f w)) = q w) \<Longrightarrow> keeps q (throw_errno_if p msg f)"
  unfolding keeps_def throw_errno_if_loop by (simp add: throw_errno_loop_keeps)

text \<open>What one call does to the world, a transitive relation, the combinator does.\<close>

lemma throw_errno_loop_relates:
  "(\<And>w. R w (snd (f w))) \<Longrightarrow> (\<And>u v w. R u v \<Longrightarrow> R v w \<Longrightarrow> R u w) \<Longrightarrow> R w (snd (throw_errno_loop n p msg f w))"
proof (induction n p msg f w rule: throw_errno_loop.induct)
  case (1 n p msg f w)
  obtain r w' where f: "f w = (r, w')" by (cases "f w")
  with 1(2) [of w] have "R w w'" by simp
  with 1(1) [OF f [symmetric] _ _ 1(2,3)] 1(3) show ?case by (subst throw_errno_loop.simps) (auto simp: f)
qed

lemma throw_errno_if_relates:
  assumes "\<And>w. R w (snd (f w))" and "\<And>u v w. R u v \<Longrightarrow> R v w \<Longrightarrow> R u w" and "throw_errno_if p msg f w = (r, w')"
  shows "R w w'"
proof -
  have "R w (snd (throw_errno_loop 5 p msg f w))" by (rule throw_errno_loop_relates) (fact assms(1), fact assms(2))
  with assms(3) show ?thesis by (simp add: throw_errno_if_loop)
qed

lemma throw_errno_if_invariant:
  assumes "\<And>w. I w \<Longrightarrow> I (snd (f w))" and "throw_errno_if p msg f w = (r, w')" and "I w"
  shows "I w'"
  using throw_errno_if_relates [of "\<lambda>u v. I u \<longrightarrow> I v", OF _ _ assms(2)] assms(1,3) by blast

text \<open>A call that fails leaves \<open>q\<close> alone: then the call whose result is returned is the only one that counts.\<close>

lemma throw_errno_loop_last:
  "(\<And>w r w'. f w = (r, w') \<Longrightarrow> p r (errno w') \<Longrightarrow> q w' = q w) \<Longrightarrow> throw_errno_loop n p msg f w = (x, w') \<Longrightarrow>
   case x of Inl _ \<Rightarrow> q w' = q w | Inr r \<Rightarrow> \<exists>w0. q w0 = q w \<and> f w0 = (r, w') \<and> \<not> p r (errno w')"
proof (induction n p msg f w rule: throw_errno_loop.induct)
  case (1 n p msg f w)
  obtain r v where f: "f w = (r, v)" by (cases "f w")
  note run = 1(3) [unfolded throw_errno_loop.simps [of n] f prod.case]
  show ?case
  proof (cases "p r (errno v) \<and> errno v = EINTR \<and> 0 < n")
    case True
    then have "p r (errno v)" by blast
    from 1(2) [OF f this] have "q v = q w" .
    with True run 1(1) [OF f [symmetric] _ _ 1(2)] show ?thesis by (auto split: sum.splits)
  next
    case False
    with run f 1(2) [OF f] show ?thesis by (auto split: if_splits)
  qed
qed

lemma throw_errno_if_last:
  assumes "\<And>w r w'. f w = (r, w') \<Longrightarrow> p r (errno w') \<Longrightarrow> q w' = q w" and "throw_errno_if p msg f w = (x, w')"
  shows "case x of Inl _ \<Rightarrow> q w' = q w | Inr r \<Rightarrow> \<exists>w0. q w0 = q w \<and> f w0 = (r, w') \<and> \<not> p r (errno w')"
  using throw_errno_loop_last [of f p q, OF assms(1)] assms(2) by (simp add: throw_errno_if_loop)

lemma throw_errno_if_minus1_keeps [keeps_intros]:
  "(\<And>w. q (snd (f w)) = q w) \<Longrightarrow> keeps q (throw_errno_if_minus1 msg f)"
  unfolding throw_errno_if_minus1_def by (rule throw_errno_if_keeps)

text \<open>A call that succeeds at once is passed through.\<close>

lemma throw_errno_if_success [op_simps]:
  "f w = (r, w') \<Longrightarrow> \<not> p r (errno w') \<Longrightarrow> throw_errno_if p msg f w = (Inr r, w')"
  by (simp add: throw_errno_if_loop throw_errno_loop.simps)

lemma throw_errno_if_minus1_success [op_simps]:
  "f w = (r, w') \<Longrightarrow> r \<noteq> -1 \<Longrightarrow> throw_errno_if_minus1 msg f w = (Inr r, w')"
  by (simp add: throw_errno_if_minus1_def op_simps)

lemma throw_errno_if_failure [op_simps]:
  "f w = (r, w') \<Longrightarrow> p r (errno w') \<Longrightarrow> errno w' \<noteq> EINTR \<Longrightarrow>
   throw_errno_if p msg f w = (Inl (System_error (errno w') msg), w')"
  by (simp add: throw_errno_if_loop throw_errno_loop.simps)

lemma throw_errno_if_minus1_failure [op_simps]:
  "f w = (-1, w') \<Longrightarrow> errno w' \<noteq> EINTR \<Longrightarrow>
   throw_errno_if_minus1 msg f w = (Inl (System_error (errno w') msg), w')"
  by (simp add: throw_errno_if_minus1_def op_simps)

section \<open>Properties\<close>

definition last_attempt :: "('r \<Rightarrow> int \<Rightarrow> bool) \<Rightarrow> ('k, 'r) syscall \<Rightarrow> 'k world \<Rightarrow> nat" where
  "last_attempt p f w = (LEAST i. i = 5 \<or> \<not> interrupted p i f w)"

lemma last_attempt_props:
  "last_attempt p f w \<le> 5"
  "last_attempt p f w = 5 \<or> \<not> interrupted p (last_attempt p f w) f w"
  "j < last_attempt p f w \<Longrightarrow> interrupted p j f w"
proof -
  let ?P = "\<lambda>i. i = 5 \<or> \<not> interrupted p i f w"
  show "last_attempt p f w \<le> 5"
    unfolding last_attempt_def by (rule Least_le) simp
  show "last_attempt p f w = 5 \<or> \<not> interrupted p (last_attempt p f w) f w"
    unfolding last_attempt_def by (rule LeastI [of ?P 5]) simp
  show "j < last_attempt p f w \<Longrightarrow> interrupted p j f w"
    unfolding last_attempt_def using not_less_Least [of j ?P] by blast
qed

text \<open>
  C20.  \<open>throw_errno_if\<close> repeats the call while it fails with \<open>EINTR\<close>, six times at most, and its
  outcome is that of the last repetition: the value returned when the predicate accepts it, a
  \<open>system_error\<close> with the \<open>errno\<close> of that repetition and the given context otherwise.  The
  assertion at its end never fires.
\<close>

theorem throw_errno_if_retries:
  "throw_errno_if p msg f w = attempt p msg (last_attempt p f w) f w \<and> last_attempt p f w \<le> 5"
  using throw_errno_if_attempt last_attempt_props by metis

text \<open>
  The restart after a signal is bounded: a call that is interrupted six times in a row is
  reported to the caller as a \<open>system_error\<close> with code \<open>EINTR\<close>, although the documentation of the
  combinator says that it handles that condition transparently and that only other errors are
  signalled.
\<close>

theorem throw_errno_if_reports_EINTR:
  assumes "\<And>j. j \<le> 5 \<Longrightarrow> interrupted p j f w"
  shows "fst (throw_errno_if p msg f w) = Inl (System_error EINTR msg)"
proof -
  have "throw_errno_if p msg f w = attempt p msg 5 f w"
    by (rule throw_errno_if_attempt) (use assms in auto)
  moreover have "interrupted p 5 f w" using assms by simp
  ultimately show ?thesis by (auto simp: attempt_def interrupted_def simp del: world_after.simps)
qed

definition always_interrupted :: "(unit, int) syscall" where
  "always_interrupted w = (-1, w\<lparr>errno := EINTR\<rparr>)"

theorem throw_errno_if_reports_EINTR_witness:
  "fst (throw_errno_if (\<lambda>r _. r = -1) ''read(2)'' always_interrupted \<lparr>errno = 0, os = ()\<rparr>)
     = Inl (System_error EINTR ''read(2)'')"
proof (rule throw_errno_if_reports_EINTR)
  fix j :: nat
  have w: "errno (world_after (Suc j) always_interrupted w) = EINTR" for w
    by (induction j arbitrary: w) (simp_all add: always_interrupted_def)
  show "interrupted (\<lambda>r _. r = -1) j always_interrupted \<lparr>errno = 0, os = ()\<rparr>"
    unfolding interrupted_def w by (simp add: nth_result_def always_interrupted_def)
qed

end
