(* ===== verification/Ioxx_Event_Set.thy ===== *)
theory Ioxx_Event_Set
  imports Ioxx_Error
begin

text \<open>
  Event sets and the interface of a demultiplexer.

  Each demultiplexer (\<open>include/ioxx/detail/select.hpp\<close>, \<open>poll.hpp\<close>, \<open>epoll.hpp\<close>) declares an
  enumeration \<open>event_set\<close> with the bits \<open>readable\<close>, \<open>writable\<close> and \<open>pridata\<close> and the operators
  \<open>|\<close> and \<open>&\<close> on it.  A value is a 32-bit word, an enumeration is the record of its three bits.
  The locale \<open>event_bits\<close> states what the users of an event set rely on (the concept check of
  \<open>test/demux.cpp\<close>); the locale \<open>event_source\<close> states what the dispatcher relies on when it takes
  events from a demultiplexer.
\<close>

unbundle bit_operations_syntax

record event_codes =
  readable :: u32
  writable :: u32
  pridata :: u32

definition no_events :: u32 where
  "no_events = 0"

text \<open>The operators of the enumeration, which cast to \<open>int\<close> and back.\<close>

definition event_or :: "u32 \<Rightarrow> u32 \<Rightarrow> u32" where
  "event_or l r = l OR r"

definition event_and :: "u32 \<Rightarrow> u32 \<Rightarrow> u32" where
  "event_and l r = l AND r"

text \<open>\<open>ev & bit\<close> as a condition.\<close>

definition has_event :: "u32 \<Rightarrow> u32 \<Rightarrow> bool" where
  "has_event ev b \<longleftrightarrow> ev AND b \<noteq> 0"

text \<open>\<open>c ? bit : no_events\<close>.\<close>

definition event_if :: "bool \<Rightarrow> u32 \<Rightarrow> u32" where
  "event_if c b = (if c then b else 0)"

definition all_events :: "event_codes \<Rightarrow> u32" where
  "all_events c = readable c OR writable c OR pridata c"

definition event_show :: "event_codes \<Rightarrow> u32 \<Rightarrow> string" where
  "event_show c ev =
     (if ev = no_events then ''None'' else '''') @ (if has_event ev (readable c) then ''Read'' else '''') @
     (if has_event ev (writable c) then ''Write'' else '''') @ (if has_event ev (pridata c) then ''Pridata'' else '''')"

text \<open>What \<open>poll\<close> and \<open>epoll\<close> make of the bits the kernel reports: the normal and priority band bits
  stand for the plain ones, and every other bit is dropped.\<close>

definition normalize_events :: "event_codes \<Rightarrow> u32 \<Rightarrow> u32 \<Rightarrow> u32 \<Rightarrow> u32 \<Rightarrow> u32" where
  "normalize_events c rdnorm rdband wrnorm ev =
     (let ev = ev OR event_if (has_event ev rdnorm) (readable c);
          ev = ev OR event_if (has_event ev rdband) (pridata c);
          ev = ev OR event_if (has_event ev wrnorm) (writable c)
      in ev AND all_events c)"

section \<open>The bits are independent\<close>

lemma has_event_or: "has_event (x OR y) b \<longleftrightarrow> has_event x b \<or> has_event y b"
  unfolding has_event_def by (simp add: bit.conj_disj_distrib2 or_eq_0_iff)

lemma has_event_bit: "has_event x (2 ^ n) \<longleftrightarrow> bit x n"
  unfolding has_event_def by (simp add: and_exp_eq_0_iff_not_bit)

lemma has_event_bits:
  "has_event x 1 \<longleftrightarrow> bit x 0" "has_event x 2 \<longleftrightarrow> bit x 1" "has_event x 4 \<longleftrightarrow> bit x 2"
  "has_event x 64 \<longleftrightarrow> bit x 6" "has_event x 128 \<longleftrightarrow> bit x 7" "has_event x 256 \<longleftrightarrow> bit x 8"
  using has_event_bit [of x 0] has_event_bit [of x 1] has_event_bit [of x 2]
    has_event_bit [of x 6] has_event_bit [of x 7] has_event_bit [of x 8] by simp_all

lemma has_event_and_all:
  "b AND all_events c = b \<Longrightarrow> has_event (ev AND all_events c) b = has_event ev b"
  unfolding has_event_def by (metis and.assoc and.commute)

lemma normalize_events_bits:
  fixes ev :: u32
  assumes c: "c = \<lparr>readable = 1, writable = 4, pridata = 2\<rparr>"
  shows "has_event (normalize_events c 64 128 256 ev) (readable c) \<longleftrightarrow> bit ev 0 \<or> bit ev 6"
    and "has_event (normalize_events c 64 128 256 ev) (writable c) \<longleftrightarrow> bit ev 2 \<or> bit ev 8"
    and "has_event (normalize_events c 64 128 256 ev) (pridata c) \<longleftrightarrow> bit ev 1 \<or> bit ev 7"
proof -
  have all: "readable c AND all_events c = readable c" "writable c AND all_events c = writable c"
    "pridata c AND all_events c = pridata c" by (simp_all add: c all_events_def)
  have e: "bit (event_if p 1) 0 = p" "bit (event_if p 2) 0 = False" "bit (event_if p 4) 0 = False"
    "bit (event_if p 1) 1 = False" "bit (event_if p 2) 1 = p" "bit (event_if p 4) 1 = False"
    "bit (event_if p 1) 2 = False" "bit (event_if p 2) 2 = False" "bit (event_if p 4) 2 = p"
    "bit (event_if p 1) 7 = False" "bit (event_if p 1) 8 = False" "bit (event_if p 2) 8 = False" for p
    by (simp_all add: event_if_def bit_1_iff)
  show "has_event (normalize_events c 64 128 256 ev) (readable c) \<longleftrightarrow> bit ev 0 \<or> bit ev 6"
    "has_event (normalize_events c 64 128 256 ev) (writable c) \<longleftrightarrow> bit ev 2 \<or> bit ev 8"
    "has_event (normalize_events c 64 128 256 ev) (pridata c) \<longleftrightarrow> bit ev 1 \<or> bit ev 7"
    unfolding normalize_events_def Let_def has_event_and_all [OF all(1)] has_event_and_all [OF all(2)]
      has_event_and_all [OF all(3)]
    by (simp_all only: c event_codes.select_convs has_event_bits bit_or_iff e) auto
qed

lemma normalize_events_none:
  assumes "c = \<lparr>readable = 1, writable = 4, pridata = 2\<rparr>"
  shows "normalize_events c 64 128 256 ev = no_events \<longleftrightarrow>
    \<not> (bit ev 0 \<or> bit ev 1 \<or> bit ev 2 \<or> bit ev 6 \<or> bit ev 7 \<or> bit ev 8)"
proof -
  let ?n = "normalize_events c 64 128 256 ev"
  have "?n AND all_events c = ?n" unfolding normalize_events_def Let_def by (simp add: and.assoc)
  then have "?n = no_events \<longleftrightarrow> \<not> has_event ?n (all_events c)"
    by (simp add: has_event_def no_events_def)
  also have "has_event ?n (all_events c) \<longleftrightarrow> has_event ?n (readable c) \<or> has_event ?n (writable c) \<or> has_event ?n (pridata c)"
    by (simp add: has_event_def all_events_def bit.conj_disj_distrib or_eq_0_iff)
  finally show ?thesis unfolding normalize_events_bits [OF assms] by auto
qed

locale event_bits =
  fixes c :: event_codes
  assumes nonzero: "readable c \<noteq> 0" "writable c \<noteq> 0" "pridata c \<noteq> 0"
    and disjoint: "readable c AND writable c = 0" "readable c AND pridata c = 0" "writable c AND pridata c = 0"
begin

lemma disjoint_sym: "writable c AND readable c = 0" "pridata c AND readable c = 0" "pridata c AND writable c = 0"
  using disjoint by (simp_all add: and.commute)

lemma has_event_if:
  "has_event (event_if p (readable c)) (readable c) = p"
  "has_event (event_if p (readable c)) (writable c) = False"
  "has_event (event_if p (readable c)) (pridata c) = False"
  "has_event (event_if p (writable c)) (readable c) = False"
  "has_event (event_if p (writable c)) (writable c) = p"
  "has_event (event_if p (writable c)) (pridata c) = False"
  "has_event (event_if p (pridata c)) (readable c) = False"
  "has_event (event_if p (pridata c)) (writable c) = False"
  "has_event (event_if p (pridata c)) (pridata c) = p"
  using nonzero disjoint disjoint_sym by (auto simp: event_if_def has_event_def)

lemma has_event_union:
  "has_event (event_if r (readable c) OR event_if w (writable c) OR event_if p (pridata c)) (readable c) = r"
  "has_event (event_if r (readable c) OR event_if w (writable c) OR event_if p (pridata c)) (writable c) = w"
  "has_event (event_if r (readable c) OR event_if w (writable c) OR event_if p (pridata c)) (pridata c) = p"
  by (simp_all add: has_event_or has_event_if)

lemma union_nonzero:
  "event_if r (readable c) OR event_if w (writable c) OR event_if p (pridata c) \<noteq> 0 \<longleftrightarrow> r \<or> w \<or> p"
  using nonzero by (auto simp: event_if_def or_eq_0_iff)

end

text \<open>The three bits of an event set.\<close>

definition event_bits_of :: "event_codes \<Rightarrow> u32 \<Rightarrow> bool \<times> bool \<times> bool" where
  "event_bits_of c ev = (has_event ev (readable c), has_event ev (writable c), has_event ev (pridata c))"

text \<open>An event set that is made of the three bits asks for one of them or is \<open>no_events\<close>.\<close>

definition event_valid :: "event_codes \<Rightarrow> u32 \<Rightarrow> bool" where
  "event_valid c ev \<longleftrightarrow> ev = no_events \<or> event_bits_of c ev \<noteq> (False, False, False)"

lemma no_events_bits [simp]: "event_bits_of c no_events = (False, False, False)"
  by (simp add: event_bits_of_def has_event_def no_events_def)

section \<open>What a dispatcher takes events from\<close>

text \<open>A demultiplexer that is in a good state holds a list of events that it has yet to deliver;
  \<open>pop_event\<close> delivers the first one, and answers false when there is none.\<close>

text \<open>The events \<open>n\<close> calls of \<open>pop_event\<close> deliver, up to the first that delivers none.\<close>

fun pop_times :: "('d, (int \<times> u32) option) op \<Rightarrow> nat \<Rightarrow> 'd \<Rightarrow> (int \<times> u32) list" where
  "pop_times pop 0 d = []"
| "pop_times pop (Suc n) d = (case pop d of (Inr (Some x), d') \<Rightarrow> x # pop_times pop n d' | _ \<Rightarrow> [])"

locale event_source =
  fixes pop_event :: "('d, (int \<times> u32) option) op"
    and undelivered :: "'d \<Rightarrow> (int \<times> u32) list"
    and ready :: "'d \<Rightarrow> bool"
  assumes pop_nothing: "ready d \<Longrightarrow> undelivered d = [] \<Longrightarrow>
      \<exists>d'. pop_event d = (Inr None, d') \<and> ready d' \<and> undelivered d' = []"
    and pop_next: "ready d \<Longrightarrow> undelivered d = x # xs \<Longrightarrow>
      \<exists>d'. pop_event d = (Inr (Some x), d') \<and> ready d' \<and> undelivered d' = xs"
    and events_valid: "ready d \<Longrightarrow> x \<in> set (undelivered d) \<Longrightarrow> 0 \<le> fst x"
begin

lemma pop_times_all: "ready d \<Longrightarrow> length (undelivered d) \<le> n \<Longrightarrow> pop_times pop_event n d = undelivered d"
proof (induction n arbitrary: d)
  case (Suc n)
  show ?case
  proof (cases "undelivered d")
    case Nil
    with pop_nothing [OF Suc.prems(1)] show ?thesis by auto
  next
    case (Cons x xs)
    with pop_next [OF Suc.prems(1)] obtain d' where
      "pop_event d = (Inr (Some x), d')" "ready d'" "undelivered d' = xs" by blast
    with Suc Cons show ?thesis by auto
  qed
qed simp

end

section \<open>What a table of registered sockets promises\<close>

text \<open>A registration of a socket, a change of what it waits for, and its removal; what a table of
  registered sockets should hold after them, and when the caller may use them.\<close>

datatype 'e registration = Register int 'e | Change int 'e | Unregister int

fun registered :: "'e registration list \<Rightarrow> (int \<rightharpoonup> 'e) \<Rightarrow> (int \<rightharpoonup> 'e)" where
  "registered [] m = m"
| "registered (Register s e # rs) m = registered rs (m(s \<mapsto> e))"
| "registered (Change s e # rs) m = registered rs (m(s \<mapsto> e))"
| "registered (Unregister s # rs) m = registered rs (m(s := None))"

fun registrations_allowed :: "'e registration list \<Rightarrow> int set \<Rightarrow> bool" where
  "registrations_allowed [] S \<longleftrightarrow> True"
| "registrations_allowed (Register s e # rs) S \<longleftrightarrow> 0 \<le> s \<and> s \<notin> S \<and> registrations_allowed rs (insert s S)"
| "registrations_allowed (Change s e # rs) S \<longleftrightarrow> s \<in> S \<and> registrations_allowed rs S"
| "registrations_allowed (Unregister s # rs) S \<longleftrightarrow> s \<in> S \<and> registrations_allowed rs (S - {s})"

text \<open>Running them with the operations of an implementation.\<close>

fun run_registrations ::
  "(int \<Rightarrow> 'e \<Rightarrow> ('d, unit) op) \<Rightarrow> (int \<Rightarrow> 'e \<Rightarrow> ('d, unit) op) \<Rightarrow> (int \<Rightarrow> ('d, unit) op) \<Rightarrow>
   'e registration list \<Rightarrow> ('d, unit) op" where
  "run_registrations add change remove [] = ret ()"
| "run_registrations add change remove (Register s e # rs) =
     then_op (add s e) (run_registrations add change remove rs)"
| "run_registrations add change remove (Change s e # rs) =
     then_op (change s e) (run_registrations add change remove rs)"
| "run_registrations add change remove (Unregister s # rs) =
     then_op (remove s) (run_registrations add change remove rs)"

text \<open>What an operation that was tried makes of a table: nothing when it was refused.\<close>

definition after_trying :: "(fault \<Rightarrow> bool) \<Rightarrow> fault + unit \<Rightarrow> (int \<rightharpoonup> 'e) \<Rightarrow> (int \<rightharpoonup> 'e) \<Rightarrow> (int \<rightharpoonup> 'e) \<Rightarrow> bool" where
  "after_trying refusal r m m' i \<longleftrightarrow> (case r of Inr _ \<Rightarrow> i = m' | Inl x \<Rightarrow> refusal x \<and> i = m)"

text \<open>How a sequence of registrations ends that stops at the first one that is refused: \<open>carried\<close> were
  carried out, and only an addition or a change is ever refused.\<close>

definition ended_at :: "(fault \<Rightarrow> bool) \<Rightarrow> fault + unit \<Rightarrow> 'e registration list \<Rightarrow> 'e registration list \<Rightarrow> bool" where
  "ended_at refusal r carried rs \<longleftrightarrow>
     (case r of
        Inr _ \<Rightarrow> carried = rs
      | Inl x \<Rightarrow> refusal x \<and> (\<exists>q rest. rs = carried @ q # rest \<and> (\<forall>s. q \<noteq> Unregister s)))"

lemma ended_at_Nil: "ended_at refusal (Inr ()) [] []"
  by (simp add: ended_at_def)

lemma ended_at_Cons: "ended_at refusal r carried rs \<Longrightarrow> ended_at refusal r (q # carried) (q # rs)"
  by (auto simp: ended_at_def split: sum.splits)

lemma ended_at_refused:
  "refusal x \<Longrightarrow> (\<And>s. q \<noteq> Unregister s) \<Longrightarrow> ended_at refusal (Inl x) [] (q # rs)"
  by (simp add: ended_at_def)

text \<open>A table whose additions and changes may be refused, which changes nothing.\<close>

locale fallible_table =
  fixes add :: "int \<Rightarrow> 'e \<Rightarrow> ('d, unit) op"
    and change :: "int \<Rightarrow> 'e \<Rightarrow> ('d, unit) op"
    and remove :: "int \<Rightarrow> ('d, unit) op"
    and interest :: "'d \<Rightarrow> (int \<rightharpoonup> 'e)"
    and table_ok :: "'d \<Rightarrow> bool"
    and refusal :: "fault \<Rightarrow> bool"
  assumes try_add: "table_ok d \<Longrightarrow> 0 \<le> s \<Longrightarrow> interest d s = None \<Longrightarrow>
      \<exists>r d'. add s e d = (r, d') \<and> table_ok d' \<and> after_trying refusal r (interest d) ((interest d)(s \<mapsto> e)) (interest d')"
    and try_change: "table_ok d \<Longrightarrow> interest d s \<noteq> None \<Longrightarrow>
      \<exists>r d'. change s e d = (r, d') \<and> table_ok d' \<and> after_trying refusal r (interest d) ((interest d)(s \<mapsto> e)) (interest d')"
    and do_remove: "table_ok d \<Longrightarrow> interest d s \<noteq> None \<Longrightarrow>
      \<exists>d'. remove s d = (Inr (), d') \<and> table_ok d' \<and> interest d' = (interest d)(s := None)"
begin

lemma run_registrations_prefix:
  "table_ok d \<Longrightarrow> registrations_allowed rs (dom (interest d)) \<Longrightarrow>
   \<exists>r carried d'. run_registrations add change remove rs d = (r, d') \<and> table_ok d' \<and> ended_at refusal r carried rs \<and>
     interest d' = registered carried (interest d)"
proof (induction rs arbitrary: d)
  case Nil
  then show ?case by (auto simp: op_simps intro!: exI [of _ "[]"] ended_at_Nil)
next
  case (Cons q rs)
  let ?all = "run_registrations add change remove rs"
  have step: "\<exists>r carried d'. then_op m ?all d = (r, d') \<and> table_ok d' \<and> ended_at refusal r carried (q # rs) \<and>
      interest d' = registered carried (interest d)"
    if m: "m d = (r1, d1)" "table_ok d1" "after_trying refusal r1 (interest d) i (interest d1)"
      and q: "\<And>x. r1 = Inl x \<Longrightarrow> \<forall>s. q \<noteq> Unregister s" and allowed: "registrations_allowed rs (dom i)"
      and reg: "\<And>carried. registered (q # carried) (interest d) = registered carried i" for m i r1 d1
  proof (cases r1)
    case (Inl x)
    with m have "then_op m ?all d = (Inl x, d1)" "refusal x" "interest d1 = interest d"
      by (simp_all add: op_simps after_trying_def)
    with m(2) q [OF Inl] ended_at_refused [of refusal x q rs] show ?thesis
      by (intro exI [of _ "Inl x"] exI [of _ "[]"] exI [of _ d1]) simp
  next
    case (Inr u)
    with m(3) have i: "interest d1 = i" by (simp add: after_trying_def)
    from Cons.IH [OF m(2), unfolded i, OF allowed] obtain r carried d' where
      "?all d1 = (r, d')" "table_ok d'" "ended_at refusal r carried rs" "interest d' = registered carried i" by blast
    with m(1) Inr reg ended_at_Cons [of refusal r carried rs q] show ?thesis
      by (intro exI [of _ r] exI [of _ "q # carried"] exI [of _ d']) (simp add: op_simps)
  qed
  show ?case
  proof (cases q)
    case (Register s e)
    with Cons.prems have pre: "0 \<le> s" "interest d s = None" "registrations_allowed rs (dom ((interest d)(s \<mapsto> e)))"
      by (auto simp: domIff)
    from try_add [OF Cons.prems(1) pre(1,2), of e] obtain r1 d1 where
      m: "add s e d = (r1, d1)" "table_ok d1" "after_trying refusal r1 (interest d) ((interest d)(s \<mapsto> e)) (interest d1)" by blast
    have "\<exists>r carried d'. then_op (add s e) ?all d = (r, d') \<and> table_ok d' \<and> ended_at refusal r carried (q # rs) \<and>
        interest d' = registered carried (interest d)"
      by (rule step [of "add s e", OF m _ pre(3)]) (simp_all add: Register)
    then show ?thesis by (simp add: Register)
  next
    case (Change s e)
    with Cons.prems have pre: "interest d s \<noteq> None" "dom ((interest d)(s \<mapsto> e)) = dom (interest d)" by auto
    then have allowed: "registrations_allowed rs (dom ((interest d)(s \<mapsto> e)))" using Cons.prems(2) Change by simp
    from try_change [OF Cons.prems(1) pre(1), of e] obtain r1 d1 where
      m: "change s e d = (r1, d1)" "table_ok d1" "after_trying refusal r1 (interest d) ((interest d)(s \<mapsto> e)) (interest d1)" by blast
    have "\<exists>r carried d'. then_op (change s e) ?all d = (r, d') \<and> table_ok d' \<and> ended_at refusal r carried (q # rs) \<and>
        interest d' = registered carried (interest d)"
      by (rule step [of "change s e", OF m _ allowed]) (simp_all add: Change)
    then show ?thesis by (simp add: Change)
  next
    case (Unregister s)
    with Cons.prems have pre: "interest d s \<noteq> None" "registrations_allowed rs (dom ((interest d)(s := None)))" by auto
    from do_remove [OF Cons.prems(1) pre(1)] obtain d1 where
      m: "remove s d = (Inr (), d1)" "table_ok d1" "interest d1 = (interest d)(s := None)" by blast
    then have "after_trying refusal (Inr ()) (interest d) ((interest d)(s := None)) (interest d1)"
      by (simp add: after_trying_def)
    from step [of "remove s", OF m(1,2) this _ pre(2)] Unregister show ?thesis by simp
  qed
qed

end

text \<open>A table that refuses nothing.\<close>

locale socket_table =
  fixes add :: "int \<Rightarrow> 'e \<Rightarrow> ('d, unit) op"
    and change :: "int \<Rightarrow> 'e \<Rightarrow> ('d, unit) op"
    and remove :: "int \<Rightarrow> ('d, unit) op"
    and interest :: "'d \<Rightarrow> (int \<rightharpoonup> 'e)"
    and table_ok :: "'d \<Rightarrow> bool"
  assumes add_law: "table_ok d \<Longrightarrow> 0 \<le> s \<Longrightarrow> interest d s = None \<Longrightarrow>
      \<exists>d'. add s e d = (Inr (), d') \<and> table_ok d' \<and> interest d' = (interest d)(s \<mapsto> e)"
    and change_law: "table_ok d \<Longrightarrow> interest d s \<noteq> None \<Longrightarrow>
      \<exists>d'. change s e d = (Inr (), d') \<and> table_ok d' \<and> interest d' = (interest d)(s \<mapsto> e)"
    and remove_law: "table_ok d \<Longrightarrow> interest d s \<noteq> None \<Longrightarrow>
      \<exists>d'. remove s d = (Inr (), d') \<and> table_ok d' \<and> interest d' = (interest d)(s := None)"
begin

lemma fallible: "fallible_table add change remove interest table_ok (\<lambda>_. False)"
proof
  fix d s e
  assume ok: "table_ok d"
  show "\<exists>r d'. add s e d = (r, d') \<and> table_ok d' \<and> after_trying (\<lambda>_. False) r (interest d) ((interest d)(s \<mapsto> e)) (interest d')"
    if "0 \<le> s" "interest d s = None"
    using add_law [OF ok that, of e] by (auto simp: after_trying_def)
  show "\<exists>r d'. change s e d = (r, d') \<and> table_ok d' \<and> after_trying (\<lambda>_. False) r (interest d) ((interest d)(s \<mapsto> e)) (interest d')"
    if "interest d s \<noteq> None"
    using change_law [OF ok that, of e] by (auto simp: after_trying_def)
  show "\<exists>d'. remove s d = (Inr (), d') \<and> table_ok d' \<and> interest d' = (interest d)(s := None)" if "interest d s \<noteq> None"
    by (rule remove_law [OF ok that])
qed

end

sublocale socket_table \<subseteq> fallible_table add change remove interest table_ok "\<lambda>_. False"
  by (rule fallible)

context socket_table
begin

lemma run_registrations_refine:
  assumes "table_ok d" and "registrations_allowed rs (dom (interest d))"
  shows "\<exists>d'. run_registrations add change remove rs d = (Inr (), d') \<and> table_ok d' \<and>
    interest d' = registered rs (interest d)"
proof -
  from run_registrations_prefix [OF assms] obtain r carried d' where
    run: "run_registrations add change remove rs d = (r, d')" "table_ok d'" "interest d' = registered carried (interest d)"
    and "ended_at (\<lambda>_. False) r carried rs" by blast
  then have "r = Inr ()" "carried = rs" by (cases r; simp add: ended_at_def)+
  with run show ?thesis by simp
qed

end

end
