(* ===== verification/Ioxx_Signal.thy ===== *)
theory Ioxx_Signal
  imports Ioxx_Error
begin

text \<open>
  The scope guards \<open>signal_block\<close> and \<open>signal_unblock\<close> of \<open>include/ioxx/signal.hpp\<close>, and the bracket
  the demultiplexers put around a blocking system call.

  A signal set is a set of signal numbers.  \<open>sigprocmask\<close> is an argument: it takes the set to
  install and answers its return code and the previous mask.  \<open>sigfillset\<close> and \<open>sigemptyset\<close> fill a
  local variable and cannot fail.
\<close>

type_synonym sigset = "int set"
type_synonym 'k sigprocmask = "sigset \<Rightarrow> ('k, int \<times> sigset) syscall"

definition all_signals :: sigset where
  "all_signals = {1..64}"

definition call_sigprocmask :: "'k sigprocmask \<Rightarrow> sigset \<Rightarrow> ('k world, sigset) op" where
  "call_sigprocmask spm new =
     bind_op (throw_errno_if (\<lambda>r _. -1 = fst r) ''sigprocmask(2)'' (spm new)) (\<lambda>r. ret (snd r))"

text \<open>The constructors answer the member \<open>_orig_mask\<close>.\<close>

definition signal_block_construct :: "'k sigprocmask \<Rightarrow> ('k world, sigset) op" where
  "signal_block_construct spm = call_sigprocmask spm all_signals"

definition signal_unblock_construct :: "'k sigprocmask \<Rightarrow> ('k world, sigset) op" where
  "signal_unblock_construct spm = call_sigprocmask spm {}"

definition signal_block_destruct :: "'k sigprocmask \<Rightarrow> sigset \<Rightarrow> ('k world, unit) op" where
  "signal_block_destruct spm orig_mask = bind_op (call_sigprocmask spm orig_mask) (\<lambda>_. ret ())"

definition signal_unblock_destruct :: "'k sigprocmask \<Rightarrow> sigset \<Rightarrow> ('k world, unit) op" where
  "signal_unblock_destruct spm orig_mask = bind_op (call_sigprocmask spm orig_mask) (\<lambda>_. ret ())"

text \<open>A block whose first statement declares a guard.\<close>

definition with_signal_block :: "'k sigprocmask \<Rightarrow> ('k world, 'a) op \<Rightarrow> ('k world, 'a) op" where
  "with_signal_block spm body =
     bind_op (signal_block_construct spm) (\<lambda>orig. with_dtor body (signal_block_destruct spm orig))"

definition with_signal_unblock :: "'k sigprocmask \<Rightarrow> ('k world, 'a) op \<Rightarrow> ('k world, 'a) op" where
  "with_signal_unblock spm body =
     bind_op (signal_unblock_construct spm) (\<lambda>orig. with_dtor body (signal_unblock_destruct spm orig))"

text \<open>How \<open>wait\<close> calls the kernel: through the variant of the call that takes a signal mask (\<open>pselect\<close>,
  \<open>ppoll\<close>, \<open>epoll_pwait\<close>) with the empty mask where the platform has it, inside a \<open>signal_unblock\<close>
  scope otherwise.  The function \<open>f\<close> is the call; its argument is the mask it is given.\<close>

definition signal_safe_call ::
  "bool \<Rightarrow> 'k sigprocmask \<Rightarrow> (sigset option \<Rightarrow> ('k, 'r) syscall) \<Rightarrow> ('k world, 'r) op" where
  "signal_safe_call have_masked_call spm f =
     (if have_masked_call then (\<lambda>w. case f (Some {}) w of (r, w') \<Rightarrow> (Inr r, w'))
      else with_signal_unblock spm (\<lambda>w. case f None w of (r, w') \<Rightarrow> (Inr r, w')))"

section \<open>Properties\<close>

text \<open>The documented behaviour of \<open>sigprocmask(SIG_SETMASK, new, old)\<close>: it succeeds, answers the mask
  in force and installs the new one; \<open>mask_of\<close> reads the mask off the kernel's state.\<close>

definition sigprocmask_law :: "('k \<Rightarrow> sigset) \<Rightarrow> 'k sigprocmask \<Rightarrow> bool" where
  "sigprocmask_law mask_of spm \<longleftrightarrow>
     (\<forall>new w. fst (spm new w) = (0, mask_of (os w)) \<and> mask_of (os (snd (spm new w))) = new \<and>
        errno (snd (spm new w)) = errno w)"

lemma call_sigprocmask_law:
  assumes "sigprocmask_law mask_of spm"
  shows "call_sigprocmask spm new w = (Inr (mask_of (os w)), snd (spm new w))"
proof -
  have "spm new w = ((0, mask_of (os w)), snd (spm new w))"
    using assms unfolding sigprocmask_law_def by (metis prod.collapse)
  from throw_errno_if_success [of "spm new", OF this] show ?thesis
    by (simp add: call_sigprocmask_def op_simps)
qed

text \<open>
  A \<open>signal_block\<close> scope gives its body a mask that blocks every signal and puts the caller's
  mask back when the body ends, also when an exception leaves it; the outcome of the body is passed
  on unchanged.
\<close>

theorem signal_block_scope:
  assumes law: "sigprocmask_law mask_of spm"
    and body: "body (snd (spm all_signals w)) = (res, w1)"
    and ends: "case res of Inl e \<Rightarrow> is_exception e | Inr _ \<Rightarrow> True"
  shows "mask_of (os (snd (spm all_signals w))) = all_signals \<and>
    (\<exists>w2. with_signal_block spm body w = (res, w2) \<and> mask_of (os w2) = mask_of (os w))"
proof -
  have restore: "signal_block_destruct spm m u = (Inr (), snd (spm m u)) \<and>
      mask_of (os (snd (spm m u))) = m" for m u
    using law call_sigprocmask_law [OF law, of m u]
    by (simp add: signal_block_destruct_def op_simps sigprocmask_law_def)
  have start: "signal_block_construct spm w = (Inr (mask_of (os w)), snd (spm all_signals w))"
    using call_sigprocmask_law [OF law] by (simp add: signal_block_construct_def)
  have "with_signal_block spm body w = (res, snd (spm (mask_of (os w)) w1))"
    using body restore ends
    by (cases res) (simp_all add: with_signal_block_def op_simps start with_dtor_def)
  with restore law show ?thesis by (auto simp: sigprocmask_law_def)
qed

definition mask_kernel :: "sigset sigprocmask" where
  "mask_kernel new w = ((0, os w), w\<lparr>os := new\<rparr>)"

theorem signal_block_scope_witness:
  "\<exists>w2. with_signal_block mask_kernel (raise_op (Runtime_error ''boom'')) \<lparr>errno = 0, os = {2}\<rparr>
      = (Inl (Runtime_error ''boom''), w2 :: sigset world) \<and> os w2 = {2}"
  using signal_block_scope [of "\<lambda>m. m" mask_kernel "raise_op (Runtime_error ''boom'')"
      "\<lparr>errno = 0, os = {2}\<rparr>" "Inl (Runtime_error ''boom'')" "\<lparr>errno = 0, os = all_signals\<rparr>"]
  by (simp add: sigprocmask_law_def mask_kernel_def raise_op_def)

text \<open>Without a call that takes a mask, the blocking call runs with every signal unblocked, and
  neither its result nor the \<open>errno\<close> it left is disturbed by the guard.\<close>

lemma signal_safe_call_law:
  assumes law: "sigprocmask_law mask_of spm" and that: "m = (if hv then Some {} else None)"
  shows "\<exists>w0 w1 w2. signal_safe_call hv spm f w = (Inr (fst (f m w0)), w2) \<and> f m w0 = (fst (f m w0), w1) \<and>
    errno w2 = errno w1 \<and> (if hv then m = Some {} \<and> w0 = w else m = None \<and> mask_of (os w0) = {})"
proof (cases hv)
  case True
  then show ?thesis using that by (auto simp: signal_safe_call_def split: prod.split)
next
  case False
  let ?w0 = "snd (spm {} w)"
  have start: "signal_unblock_construct spm w = (Inr (mask_of (os w)), ?w0)"
    using call_sigprocmask_law [OF law] by (simp add: signal_unblock_construct_def)
  have stop: "signal_unblock_destruct spm o1 u = (Inr (), snd (spm o1 u))" for o1 u
    using call_sigprocmask_law [OF law, of o1 u] by (simp add: signal_unblock_destruct_def op_simps)
  obtain r w1 where f: "f None ?w0 = (r, w1)" by (cases "f None ?w0")
  have "signal_safe_call hv spm f w = (Inr r, snd (spm (mask_of (os w)) w1))"
    using False
    by (simp add: signal_safe_call_def with_signal_unblock_def op_simps start with_dtor_def f stop)
  then have "signal_safe_call hv spm f w = (Inr (fst (f m ?w0)), snd (spm (mask_of (os w)) w1)) \<and>
      f m ?w0 = (fst (f m ?w0), w1) \<and> errno (snd (spm (mask_of (os w)) w1)) = errno w1 \<and>
      (if hv then m = Some {} \<and> ?w0 = w else m = None \<and> mask_of (os ?w0) = {})"
    using f law False that by (simp add: sigprocmask_law_def)
  then show ?thesis by blast
qed

lemma signal_safe_call_from_call:
  assumes "signal_safe_call hv spm f w = (Inr r, w')"
  shows "\<exists>m w0 w1. f m w0 = (r, w1)"
proof (cases hv)
  case True
  with assms show ?thesis by (auto simp: signal_safe_call_def split: prod.splits)
next
  case False
  with assms obtain orig w0 where
    "with_dtor (\<lambda>w. case f None w of (r, w') \<Rightarrow> (Inr r, w')) (signal_unblock_destruct spm orig) w0 = (Inr r, w')"
    by (auto simp: signal_safe_call_def with_signal_unblock_def elim: bind_op_InrE)
  then have "fst (f None w0) = r"
    by (auto simp: with_dtor_def split: prod.splits sum.splits if_splits)
  then show ?thesis by (metis prod.collapse)
qed

end
