(* ===== verification/Ioxx_Socket.thy ===== *)
theory Ioxx_Socket
  imports Ioxx_Error
begin

text \<open>
  The class \<open>system_socket\<close> of \<open>include/ioxx/socket.hpp\<close> with its nested classes \<open>address\<close> and
  \<open>endpoint\<close>.

  The socket calls of the operating system and the resolver calls of the C library are the fields of
  a record that every operation takes.  Memory the calls write to is a result of the call: \<open>read\<close>
  returns the bytes it delivers, \<open>accept\<close> the peer's address.  A \<open>char *\<close> into a buffer is the offset
  from the start of the buffer, the null pointer is \<^const>\<open>None\<close>.  \<open>SOCKADDR_SIZE\<close> is
  \<open>sizeof(sockaddr)\<close>, the size of the storage an \<open>address\<close> holds.
\<close>

unbundle bit_operations_syntax

section \<open>The platform\<close>

definition SOCKADDR_SIZE :: int where
  "SOCKADDR_SIZE = 16"

definition O_NONBLOCK :: int where
  "O_NONBLOCK = 2048"

definition F_GETFL :: int where
  "F_GETFL = 3"

definition F_SETFL :: int where
  "F_SETFL = 4"

definition SOL_SOCKET :: int where
  "SOL_SOCKET = 1"

definition SO_REUSEADDR :: int where
  "SO_REUSEADDR = 2"

definition SO_LINGER :: int where
  "SO_LINGER = 13"

definition MSG_DONTWAIT :: int where
  "MSG_DONTWAIT = 64"

definition AI_NUMERICHOST :: int where
  "AI_NUMERICHOST = 4"

datatype service_type_tag = stream_service | datagram_service

fun socktype_code :: "service_type_tag \<Rightarrow> int" where
  "socktype_code stream_service = 1"
| "socktype_code datagram_service = 2"

section \<open>Addresses and end points\<close>

record address =
  sa_family :: int
  sa_data :: "u8 list"
  addr_len :: int

record endpoint = address +
  ep_socktype :: int
  ep_protocol :: int

record addrinfo =
  ai_socktype :: int
  ai_protocol :: int
  ai_addrlen :: int
  ai_addr :: "int \<times> u8 list"

text \<open>\<open>getaddrinfo\<close> takes host, service, the hint's flags and the hint's socket type, and answers an
  error code and the result list; \<open>gai_strerror\<close> describes the code.\<close>

record 'k sock_os =
  sys_getaddrinfo :: "string \<Rightarrow> string \<Rightarrow> int \<Rightarrow> int \<Rightarrow> ('k, int \<times> addrinfo list) syscall"
  sys_getnameinfo :: "address \<Rightarrow> ('k, int \<times> string \<times> string) syscall"
  gai_strerror :: "int \<Rightarrow> string"
  sys_socket :: "int \<Rightarrow> int \<Rightarrow> int \<Rightarrow> ('k, int) syscall"
  sys_close :: "int \<Rightarrow> ('k, int) syscall"
  sys_fcntl :: "int \<Rightarrow> int \<Rightarrow> int \<Rightarrow> ('k, int) syscall"
  sys_setsockopt :: "int \<Rightarrow> int \<Rightarrow> int \<Rightarrow> int list \<Rightarrow> ('k, int) syscall"
  sys_bind :: "int \<Rightarrow> address \<Rightarrow> ('k, int) syscall"
  sys_listen :: "int \<Rightarrow> int \<Rightarrow> ('k, int) syscall"
  sys_accept :: "int \<Rightarrow> address \<Rightarrow> ('k, int \<times> address) syscall"
  sys_read :: "int \<Rightarrow> int \<Rightarrow> ('k, int \<times> u8 list) syscall"
  sys_write :: "int \<Rightarrow> u8 list \<Rightarrow> ('k, int) syscall"
  sys_readv :: "int \<Rightarrow> int list \<Rightarrow> ('k, int \<times> u8 list) syscall"
  sys_writev :: "int \<Rightarrow> u8 list list \<Rightarrow> ('k, int) syscall"
  sys_recvmsg :: "int \<Rightarrow> int list \<Rightarrow> address \<Rightarrow> int \<Rightarrow> ('k, int \<times> u8 list \<times> address) syscall"
  sys_sendmsg :: "int \<Rightarrow> u8 list list \<Rightarrow> address \<Rightarrow> int \<Rightarrow> ('k, int) syscall"
  sys_getsockname :: "int \<Rightarrow> address \<Rightarrow> ('k, int \<times> address) syscall"
  sys_getpeername :: "int \<Rightarrow> address \<Rightarrow> ('k, int \<times> address) syscall"

text \<open>The default constructor leaves the storage uninitialised and sets the length to 0.\<close>

definition address_default :: address where
  "address_default = \<lparr>sa_family = 0, sa_data = replicate 14 0, addr_len = 0\<rparr>"

text \<open>Both constructors from a host and a service name.  The third assertion of the source reads
  \<open>!addr->ai_addrlen <= sizeof(sockaddr)\<close>, which C++ parses as \<open>(!addr->ai_addrlen) <= sizeof(sockaddr)\<close>.\<close>

definition endpoint_construct ::
  "'k sock_os \<Rightarrow> string \<Rightarrow> string \<Rightarrow> service_type_tag \<Rightarrow> ('k world, endpoint) op" where
  "endpoint_construct P host service type w =
     (case sys_getaddrinfo P host service AI_NUMERICHOST (socktype_code type) w of
        ((rc, ais), w') \<Rightarrow>
          if rc \<noteq> 0 then (Inl (Runtime_error (gai_strerror P rc)), w')
          else (case ais of
                  [] \<Rightarrow> (Inl Assertion_failed, w')
                | ai # rest \<Rightarrow>
                    if ai_socktype ai = socktype_code type \<and> rest = [] \<and>
                       (if ai_addrlen ai = 0 then 1 else 0) \<le> SOCKADDR_SIZE
                    then (Inr \<lparr>sa_family = fst (ai_addr ai), sa_data = take 14 (snd (ai_addr ai)),
                               addr_len = ai_addrlen ai,
                               ep_socktype = ai_socktype ai, ep_protocol = ai_protocol ai\<rparr>, w')
                    else (Inl Assertion_failed, w')))"

definition address_construct ::
  "'k sock_os \<Rightarrow> string \<Rightarrow> string \<Rightarrow> service_type_tag \<Rightarrow> ('k world, address) op" where
  "address_construct P host service type =
     bind_op (endpoint_construct P host service type) (\<lambda>e. ret (address.truncate e))"

definition address_show :: "'k sock_os \<Rightarrow> address \<Rightarrow> ('k world, string) op" where
  "address_show P a w =
     (case sys_getnameinfo P a w of
        ((rc, host, service), w') \<Rightarrow>
          if rc \<noteq> 0 then (Inl (Runtime_error (gai_strerror P rc)), w')
          else (Inr (host @ '':'' @ service), w'))"

definition endpoint_create :: "'k sock_os \<Rightarrow> endpoint \<Rightarrow> ('k world, int) op" where
  "endpoint_create P ep =
     throw_errno_if_minus1 ''socket(2)''
       (sys_socket P (sa_family ep) (ep_socktype ep) (ep_protocol ep))"

section \<open>The socket\<close>

record system_socket =
  sock :: int
  close_flag :: bool

datatype ownership_type_tag = weak | take_ownership

definition system_socket_construct :: "int \<Rightarrow> ownership_type_tag \<Rightarrow> ('s, system_socket) op" where
  "system_socket_construct s owner w =
     (if s < 0 then (Inl (Invalid_argument ''cannot construct an invalid ioxx::socket''), w)
      else (Inr \<lparr>sock = s, close_flag = (owner = take_ownership)\<rparr>, w))"

definition system_socket_destruct :: "'k sock_os \<Rightarrow> system_socket \<Rightarrow> ('k world, unit) op" where
  "system_socket_destruct P s =
     (if close_flag s
      then bind_op (throw_errno_if_minus1 ''close(2)'' (sys_close P (sock s))) (\<lambda>_. ret ())
      else ret ())"

definition set_close_on_destruction :: "bool \<Rightarrow> system_socket \<Rightarrow> system_socket" where
  "set_close_on_destruction enable s = s\<lparr>close_flag := enable\<rparr>"

definition get_close_on_destruction :: "system_socket \<Rightarrow> bool" where
  "get_close_on_destruction s = close_flag s"

definition set_nonblocking :: "'k sock_os \<Rightarrow> system_socket \<Rightarrow> bool \<Rightarrow> ('k world, unit) op" where
  "set_nonblocking P s enable =
     bind_op (throw_errno_if_minus1 ''cannot obtain socket flags'' (sys_fcntl P (sock s) F_GETFL 0))
       (\<lambda>rc. let flags = (if enable then rc OR O_NONBLOCK else rc AND NOT O_NONBLOCK) in
          if rc \<noteq> flags
          then bind_op (throw_errno_if_minus1 ''cannot set socket flags''
                          (sys_fcntl P (sock s) F_SETFL flags)) (\<lambda>_. ret ())
          else ret ())"

definition set_linger_timeout :: "'k sock_os \<Rightarrow> system_socket \<Rightarrow> u16 \<Rightarrow> ('k world, unit) op" where
  "set_linger_timeout P s second_timeout =
     bind_op (throw_errno_if_minus1 ''set socket lingering''
       (sys_setsockopt P (sock s) SOL_SOCKET SO_LINGER
          [if 0 < second_timeout then 1 else 0, uint second_timeout])) (\<lambda>_. ret ())"

definition reuse_bind_address :: "'k sock_os \<Rightarrow> system_socket \<Rightarrow> bool \<Rightarrow> ('k world, unit) op" where
  "reuse_bind_address P s enable =
     bind_op (throw_errno_if_minus1 ''bind with SO_REUSEADDR''
       (sys_setsockopt P (sock s) SOL_SOCKET SO_REUSEADDR [if enable then 1 else 0])) (\<lambda>_. ret ())"

definition socket_bind :: "'k sock_os \<Rightarrow> system_socket \<Rightarrow> address \<Rightarrow> ('k world, unit) op" where
  "socket_bind P s addr =
     bind_op (throw_errno_if_minus1 ''bind(2)'' (sys_bind P (sock s) addr)) (\<lambda>_. ret ())"

definition socket_listen :: "'k sock_os \<Rightarrow> system_socket \<Rightarrow> u16 \<Rightarrow> ('k world, unit) op" where
  "socket_listen P s backlog =
     bind_op (throw_errno_if_minus1 ''listen(2)'' (sys_listen P (sock s) (uint backlog))) (\<lambda>_. ret ())"

text \<open>The predicate for calls that may block: every error but \<open>EWOULDBLOCK\<close> and \<open>EAGAIN\<close> is a failure.\<close>

definition not_ewould_block :: "int \<Rightarrow> int \<Rightarrow> bool" where
  "not_ewould_block rc e \<longleftrightarrow> rc < 0 \<and> e \<noteq> EWOULDBLOCK \<and> e \<noteq> EAGAIN"

definition nonblocking_call ::
  "string \<Rightarrow> ('k, int \<times> 'd) syscall \<Rightarrow> ('k world, int \<times> 'd) op" where
  "nonblocking_call msg f = throw_errno_if (\<lambda>r e. not_ewould_block (fst r) e) msg f"

text \<open>\<open>accept\<close> returns whether a connection was accepted, its descriptor and the peer's address.\<close>

definition socket_accept ::
  "'k sock_os \<Rightarrow> system_socket \<Rightarrow> address \<Rightarrow> ('k world, bool \<times> int \<times> address) op" where
  "socket_accept P s addr =
     bind_op (nonblocking_call ''accept(2)'' (sys_accept P (sock s) (addr\<lparr>addr_len := SOCKADDR_SIZE\<rparr>)))
       (\<lambda>(rc, peer). ret (0 \<le> rc, rc, peer))"

definition store_bytes :: "'b list \<Rightarrow> int \<Rightarrow> 'b list \<Rightarrow> 'b list" where
  "store_bytes buf b bytes = take (nat b) buf @ bytes @ drop (nat b + length bytes) buf"

definition load_bytes :: "'b list \<Rightarrow> int \<Rightarrow> int \<Rightarrow> 'b list" where
  "load_bytes buf b e = take (nat (e - b)) (drop (nat b) buf)"

text \<open>\<open>read(begin, end)\<close>: the pointer returned and the buffer left behind.\<close>

definition socket_read ::
  "'k sock_os \<Rightarrow> system_socket \<Rightarrow> u8 list \<Rightarrow> int \<Rightarrow> int \<Rightarrow> ('k world, int option \<times> u8 list) op" where
  "socket_read P s buf b e =
     then_op (assert_op (b < e))
       (bind_op (nonblocking_call ''read(2)'' (sys_read P (sock s) (e - b)))
          (\<lambda>(rc, bytes) w.
             if rc = -1 then then_op (assert_op (errno w = EWOULDBLOCK \<or> errno w = EAGAIN))
                               (ret (Some b, buf)) w
             else if rc = 0 then ret (None, buf) w
             else ret (Some (b + rc), store_bytes buf b bytes) w))"

definition socket_write ::
  "'k sock_os \<Rightarrow> system_socket \<Rightarrow> u8 list \<Rightarrow> int \<Rightarrow> int \<Rightarrow> ('k world, int option) op" where
  "socket_write P s buf b e =
     then_op (assert_op (b < e))
       (bind_op (nonblocking_call ''write(2)''
           (\<lambda>w. case sys_write P (sock s) (load_bytes buf b e) w of (rc, w') \<Rightarrow> ((rc, ()), w')))
          (\<lambda>(rc, _) w.
             if rc = -1 then then_op (assert_op (errno w = EWOULDBLOCK \<or> errno w = EAGAIN))
                               (ret (Some b)) w
             else if rc = 0 then ret None w
             else ret (Some (b + rc)) w))"

text \<open>The vectored forms: \<open>lens\<close> are the lengths of the caller's buffers, \<open>chunks\<close> their contents.\<close>

definition socket_readv ::
  "'k sock_os \<Rightarrow> system_socket \<Rightarrow> int list \<Rightarrow> ('k world, int \<times> u8 list) op" where
  "socket_readv P s lens =
     then_op (assert_op (lens \<noteq> [])) (nonblocking_call ''readv(2)'' (sys_readv P (sock s) lens))"

definition socket_writev ::
  "'k sock_os \<Rightarrow> system_socket \<Rightarrow> u8 list list \<Rightarrow> ('k world, int) op" where
  "socket_writev P s chunks =
     then_op (assert_op (chunks \<noteq> []))
       (bind_op (nonblocking_call ''writev(2)''
           (\<lambda>w. case sys_writev P (sock s) chunks w of (rc, w') \<Rightarrow> ((rc, ()), w')))
          (\<lambda>(rc, _). ret rc))"

definition recv_from_iov ::
  "'k sock_os \<Rightarrow> system_socket \<Rightarrow> int list \<Rightarrow> address \<Rightarrow> ('k world, int \<times> u8 list \<times> address) op" where
  "recv_from_iov P s lens from =
     then_op (assert_op (lens \<noteq> []))
       (nonblocking_call ''recvmsg(2)''
          (sys_recvmsg P (sock s) lens (from\<lparr>addr_len := SOCKADDR_SIZE\<rparr>) MSG_DONTWAIT))"

definition recv_from ::
  "'k sock_os \<Rightarrow> system_socket \<Rightarrow> u8 list \<Rightarrow> int \<Rightarrow> int \<Rightarrow> address \<Rightarrow>
   ('k world, int option \<times> u8 list \<times> address) op" where
  "recv_from P s buf b e from =
     then_op (assert_op (b < e))
       (bind_op (recv_from_iov P s [e - b] from)
          (\<lambda>(rc, bytes, peer).
             if rc < 0 then ret (Some b, buf, peer)
             else if rc = 0 then ret (None, buf, peer)
             else ret (Some (b + rc), store_bytes buf b bytes, peer)))"

definition send_to_iov ::
  "'k sock_os \<Rightarrow> system_socket \<Rightarrow> u8 list list \<Rightarrow> address \<Rightarrow> ('k world, int) op" where
  "send_to_iov P s chunks to =
     then_op (assert_op (chunks \<noteq> []))
       (bind_op (nonblocking_call ''sendmsg(2)''
           (\<lambda>w. case sys_sendmsg P (sock s) chunks to MSG_DONTWAIT w of (rc, w') \<Rightarrow> ((rc, ()), w')))
          (\<lambda>(rc, _). ret rc))"

definition send_to ::
  "'k sock_os \<Rightarrow> system_socket \<Rightarrow> u8 list \<Rightarrow> int \<Rightarrow> int \<Rightarrow> address \<Rightarrow> ('k world, int option) op" where
  "send_to P s buf b e to =
     then_op (assert_op (b < e))
       (bind_op (send_to_iov P s [load_bytes buf b e] to)
          (\<lambda>rc. if rc < 0 then ret (Some b) else if rc = 0 then ret None else ret (Some (b + rc))))"

definition local_address :: "'k sock_os \<Rightarrow> system_socket \<Rightarrow> ('k world, address) op" where
  "local_address P s =
     bind_op (throw_errno_if (\<lambda>r _. -1 = fst r) ''getsockname(2)''
       (sys_getsockname P (sock s) (address_default\<lparr>addr_len := SOCKADDR_SIZE\<rparr>))) (\<lambda>r. ret (snd r))"

definition peer_address :: "'k sock_os \<Rightarrow> system_socket \<Rightarrow> ('k world, address) op" where
  "peer_address P s =
     bind_op (throw_errno_if (\<lambda>r _. -1 = fst r) ''getpeername(2)''
       (sys_getpeername P (sock s) (address_default\<lparr>addr_len := SOCKADDR_SIZE\<rparr>))) (\<lambda>r. ret (snd r))"

definition system_socket_less :: "system_socket \<Rightarrow> system_socket \<Rightarrow> bool" where
  "system_socket_less l r \<longleftrightarrow> sock l < sock r"

definition system_socket_eq :: "system_socket \<Rightarrow> system_socket \<Rightarrow> bool" where
  "system_socket_eq l r \<longleftrightarrow> sock l = sock r"

definition system_socket_le :: "system_socket \<Rightarrow> system_socket \<Rightarrow> bool" where
  "system_socket_le l r \<longleftrightarrow> sock l \<le> sock r"

definition system_socket_ne :: "system_socket \<Rightarrow> system_socket \<Rightarrow> bool" where
  "system_socket_ne l r \<longleftrightarrow> sock l \<noteq> sock r"

definition system_socket_ge :: "system_socket \<Rightarrow> system_socket \<Rightarrow> bool" where
  "system_socket_ge l r \<longleftrightarrow> sock l \<ge> sock r"

definition system_socket_greater :: "system_socket \<Rightarrow> system_socket \<Rightarrow> bool" where
  "system_socket_greater l r \<longleftrightarrow> sock l > sock r"

definition as_native_socket_t :: "system_socket \<Rightarrow> int" where
  "as_native_socket_t s = sock s"

text \<open>The comparison operators are a preorder on sockets; they identify sockets with the same descriptor.\<close>

instantiation system_socket_ext :: (type) preorder
begin

definition less_eq_system_socket_ext :: "'a system_socket_scheme \<Rightarrow> 'a system_socket_scheme \<Rightarrow> bool" where
  "less_eq_system_socket_ext l r \<longleftrightarrow> sock l \<le> sock r"

definition less_system_socket_ext :: "'a system_socket_scheme \<Rightarrow> 'a system_socket_scheme \<Rightarrow> bool" where
  "less_system_socket_ext l r \<longleftrightarrow> sock l < sock r"

instance
  by standard (auto simp: less_eq_system_socket_ext_def less_system_socket_ext_def)

end

lemma system_socket_comparisons:
  "system_socket_less l r \<longleftrightarrow> l < r" "system_socket_le l r \<longleftrightarrow> l \<le> r"
  "system_socket_greater l r \<longleftrightarrow> r < l" "system_socket_ge l r \<longleftrightarrow> r \<le> l"
  "system_socket_eq l r \<longleftrightarrow> l \<le> r \<and> r \<le> l" "system_socket_ne l r \<longleftrightarrow> \<not> system_socket_eq l r"
  by (auto simp: system_socket_less_def system_socket_le_def system_socket_greater_def system_socket_ge_def system_socket_eq_def
      system_socket_ne_def less_eq_system_socket_ext_def less_system_socket_ext_def)

lemma system_socket_total: "(l :: system_socket) \<le> r \<or> r \<le> l"
  by (simp add: less_eq_system_socket_ext_def linorder_linear)

section \<open>What the operations leave alone\<close>

lemma set_nonblocking_keeps [keeps_intros]:
  "(\<And>s c a w. q (snd (sys_fcntl P s c a w)) = q w) \<Longrightarrow> keeps q (set_nonblocking P sk b)"
  unfolding set_nonblocking_def Let_def by (intro keeps_intros)

lemma set_linger_timeout_keeps [keeps_intros]:
  "(\<And>s l n v w. q (snd (sys_setsockopt P s l n v w)) = q w) \<Longrightarrow> keeps q (set_linger_timeout P sk n)"
  unfolding set_linger_timeout_def by (intro keeps_intros)

section \<open>An operating system for the examples\<close>

text \<open>Every call succeeds at once and has no effect.  The examples that apply the theorems replace the
  calls they are about.\<close>

definition quiet_sock :: "'k sock_os" where
  "quiet_sock = \<lparr>sys_getaddrinfo = (\<lambda>h s f t w. ((0, []), w)), sys_getnameinfo = (\<lambda>a w. ((0, [], []), w)),
     gai_strerror = (\<lambda>_. []), sys_socket = (\<lambda>f t p w. (3, w)), sys_close = (\<lambda>s w. (0, w)),
     sys_fcntl = (\<lambda>s c a w. (0, w)), sys_setsockopt = (\<lambda>s l n v w. (0, w)), sys_bind = (\<lambda>s a w. (0, w)),
     sys_listen = (\<lambda>s n w. (0, w)), sys_accept = (\<lambda>s a w. ((-1, a), w\<lparr>errno := EAGAIN\<rparr>)),
     sys_read = (\<lambda>s n w. ((0, []), w)), sys_write = (\<lambda>s b w. (int (length b), w)),
     sys_readv = (\<lambda>s n w. ((0, []), w)), sys_writev = (\<lambda>s b w. (int (length (concat b)), w)),
     sys_recvmsg = (\<lambda>s n a f w. ((0, [], a), w)), sys_sendmsg = (\<lambda>s b a f w. (int (length (concat b)), w)),
     sys_getsockname = (\<lambda>s a w. ((0, a), w)), sys_getpeername = (\<lambda>s a w. ((0, a), w))\<rparr>"

section \<open>Properties\<close>

text \<open>The documented behaviour of \<open>read(2)\<close>: it fails with -1, or delivers as many bytes as it answers,
  at most as many as it was asked for.\<close>

definition read_law :: "'k sock_os \<Rightarrow> bool" where
  "read_law P \<longleftrightarrow> (\<forall>s n w rc bytes w'. sys_read P s n w = ((rc, bytes), w') \<longrightarrow>
     rc = -1 \<or> 0 \<le> rc \<and> rc \<le> n \<and> int (length bytes) = rc)"

lemma nonblocking_call_cases:
  assumes "nonblocking_call msg f w = (r, w')"
  shows "(\<exists>e. r = Inl (System_error e msg) \<and> e \<noteq> EAGAIN \<and> e \<noteq> EWOULDBLOCK) \<or>
    (\<exists>rc x w0. r = Inr (rc, x) \<and> f w0 = ((rc, x), w') \<and> (0 \<le> rc \<or> errno w' = EWOULDBLOCK \<or> errno w' = EAGAIN))"
proof (cases r)
  case (Inl e)
  obtain i where "throw_errno_if (\<lambda>r e. not_ewould_block (fst r) e) msg f w = attempt (\<lambda>r e. not_ewould_block (fst r) e) msg i f w"
    using throw_errno_if_attempt [of "last_attempt (\<lambda>r e. not_ewould_block (fst r) e) f w"] last_attempt_props by metis
  with assms Inl show ?thesis
    by (auto simp: nonblocking_call_def attempt_def not_ewould_block_def split: if_splits)
next
  case (Inr x)
  with assms throw_errno_if_Inr [of "\<lambda>r e. not_ewould_block (fst r) e" msg f w x w']
    throw_errno_if_from_call [of "\<lambda>r e. not_ewould_block (fst r) e" msg f w x w']
  show ?thesis by (cases x) (auto simp: nonblocking_call_def not_ewould_block_def)
qed

lemma nonblocking_call_attempt:
  "\<exists>i \<le> 5. (\<forall>j < i. interrupted (\<lambda>r e. not_ewould_block (fst r) e) j f w) \<and>
     (i = 5 \<or> \<not> interrupted (\<lambda>r e. not_ewould_block (fst r) e) i f w) \<and>
     nonblocking_call msg f w = attempt (\<lambda>r e. not_ewould_block (fst r) e) msg i f w"
proof -
  let ?p = "\<lambda>r e. not_ewould_block (fst r) e" and ?i = "last_attempt (\<lambda>r e. not_ewould_block (fst r) e) f w"
  have "nonblocking_call msg f w = attempt ?p msg ?i f w"
    unfolding nonblocking_call_def by (rule throw_errno_if_attempt [OF last_attempt_props(3,1,2)])
  with last_attempt_props(1,2) [of ?p f w] last_attempt_props(3) [of _ ?p f w] show ?thesis
    by (intro exI [of _ ?i]) blast
qed

lemma store_bytes_nth:
  assumes "0 \<le> b" and "b + int (length bytes) \<le> int (length buf)" and "k < length buf"
  shows "store_bytes buf b bytes ! k = (if b \<le> int k \<and> int k < b + int (length bytes) then bytes ! (k - nat b) else buf ! k)"
proof -
  have n: "nat b + length bytes \<le> length buf" "b \<le> int k \<longleftrightarrow> nat b \<le> k" "int k < b + int (length bytes) \<longleftrightarrow> k < nat b + length bytes"
    using assms(1,2) by linarith+
  with assms(3) show ?thesis by (auto simp: store_bytes_def nth_append)
qed

text \<open>
  C34.  What \<open>read\<close> into a range of a buffer reports is the answer of the last call of \<open>read(2)\<close>: the
  call is repeated while it is interrupted, six times at most, and the last one decides.  When it
  fails, \<open>read\<close> returns the start of the range if the call would block and throws the error otherwise;
  at the end of the stream it returns no pointer; and when bytes were read it returns the pointer
  behind them, within the range, and the buffer has these bytes from the start of the range on and is
  what it was elsewhere.  No assertion fails.
\<close>

theorem socket_read_contract:
  assumes law: "read_law P" and range: "0 \<le> b" "b < e" "e \<le> int (length buf)"
    and f: "f = sys_read P (sock s) (e - b)" and p: "p = (\<lambda>r e. not_ewould_block (fst r) e)"
    and run: "socket_read P s buf b e w = (r, w')"
  shows "\<exists>i rc bytes. i \<le> 5 \<and> (\<forall>j < i. interrupted p j f w) \<and> (i = 5 \<or> \<not> interrupted p i f w) \<and>
    nth_result i f w = (rc, bytes) \<and> w' = world_after (Suc i) f w \<and>
    (if rc = -1 then r = (if errno w' = EAGAIN \<or> errno w' = EWOULDBLOCK then Inr (Some b, buf)
                          else Inl (System_error (errno w') ''read(2)''))
     else if rc = 0 then r = Inr (None, buf)
     else b < b + rc \<and> b + rc \<le> e \<and> (\<exists>buf'. r = Inr (Some (b + rc), buf') \<and> length buf' = length buf \<and>
       (\<forall>k < length buf. buf' ! k = (if b \<le> int k \<and> int k < b + rc then bytes ! (k - nat b) else buf ! k))))"
proof -
  from nonblocking_call_attempt [of f w "''read(2)''"] obtain i where
    i: "i \<le> 5" "\<forall>j < i. interrupted p j f w" "i = 5 \<or> \<not> interrupted p i f w" "nonblocking_call ''read(2)'' f w = attempt p ''read(2)'' i f w"
    unfolding p by blast
  obtain rc bytes where ans: "nth_result i f w = (rc, bytes)" by (cases "nth_result i f w")
  let ?w = "world_after (Suc i) f w"
  have "sys_read P (sock s) (e - b) (world_after i f w) = ((rc, bytes), ?w)"
  proof -
    have "world_after (Suc i) f w = snd (f (world_after i f w))" by (induction i arbitrary: w) simp_all
    with ans show ?thesis by (simp add: nth_result_def f prod_eq_iff)
  qed
  with law have kernel: "rc = -1 \<or> 0 \<le> rc \<and> rc \<le> e - b \<and> int (length bytes) = rc" unfolding read_law_def by blast
  have call: "nonblocking_call ''read(2)'' (sys_read P (sock s) (e - b)) w =
      (if not_ewould_block rc (errno ?w) then (Inl (System_error (errno ?w) ''read(2)''), ?w) else (Inr (rc, bytes), ?w))"
    using i(4) ans by (simp add: attempt_def p f)
  have res: "(r, w') = (if rc = -1 then (if errno ?w = EAGAIN \<or> errno ?w = EWOULDBLOCK then (Inr (Some b, buf), ?w)
       else (Inl (System_error (errno ?w) ''read(2)''), ?w))
     else if rc = 0 then (Inr (None, buf), ?w) else (Inr (Some (b + rc), store_bytes buf b bytes), ?w))"
    using run range kernel call by (auto simp: socket_read_def op_simps not_ewould_block_def split: if_splits)
  then have w': "w' = ?w" by (simp split: if_splits)
  have stored: "length (store_bytes buf b bytes) = length buf \<and>
      (\<forall>k < length buf. store_bytes buf b bytes ! k = (if b \<le> int k \<and> int k < b + rc then bytes ! (k - nat b) else buf ! k))" if "0 < rc"
  proof -
    from that kernel range have len: "b + int (length bytes) \<le> int (length buf)" "int (length bytes) = rc" by linarith+
    then have "length (store_bytes buf b bytes) = length buf" using range by (simp add: store_bytes_def)
    with store_bytes_nth [OF range(1) len(1)] len(2) show ?thesis by simp
  qed
  show ?thesis
    using i(1-3) ans w' res kernel stored by (intro exI [of _ i] exI [of _ rc] exI [of _ bytes]) (auto split: if_splits)
qed

definition greeting :: "unit sock_os" where
  "greeting = quiet_sock\<lparr>sys_read := (\<lambda>s n w. if 2 \<le> n then ((2, [72, 105]), w) else ((-1, []), w\<lparr>errno := EAGAIN\<rparr>))\<rparr>"

theorem socket_read_contract_witness:
  "\<exists>buf'. fst (socket_read greeting \<lparr>sock = 4, close_flag = True\<rparr> [1, 2, 3, 4] 1 4 \<lparr>errno = 0, os = ()\<rparr>) = Inr (Some 3, buf') \<and>
     buf' ! 0 = 1 \<and> buf' ! 1 = 72 \<and> buf' ! 2 = 105 \<and> buf' ! 3 = 4"
proof -
  let ?w = "\<lparr>errno = 0, os = ()\<rparr>" and ?s = "\<lparr>sock = 4, close_flag = True\<rparr>"
  obtain r w' where run: "socket_read greeting ?s [1, 2, 3, 4] 1 4 ?w = (r, w')" by (cases "socket_read greeting ?s [1, 2, 3, 4] 1 4 ?w")
  have law: "read_law greeting" by (auto simp: read_law_def greeting_def split: if_splits)
  have ans: "sys_read greeting 4 3 v = ((2, [72, 105]), v)" for v by (simp add: greeting_def)
  have two: "nth_result i (sys_read greeting 4 3) ?w = (2, [72, 105])" for i
    by (simp add: nth_result_def ans)
  from socket_read_contract [OF law _ _ _ refl refl run] obtain i rc bytes where
    i: "nth_result i (sys_read greeting 4 3) ?w = (rc, bytes)" and c: "if rc = -1 then r = (if errno w' = EAGAIN \<or> errno w' = EWOULDBLOCK
        then Inr (Some 1, [1, 2, 3, 4]) else Inl (System_error (errno w') ''read(2)''))
      else if rc = 0 then r = Inr (None, [1, 2, 3, 4])
      else 1 < 1 + rc \<and> 1 + rc \<le> 4 \<and> (\<exists>buf'. r = Inr (Some (1 + rc), buf') \<and> length buf' = length [1 :: u8, 2, 3, 4] \<and>
        (\<forall>k < length [1 :: u8, 2, 3, 4]. buf' ! k = (if 1 \<le> int k \<and> int k < 1 + rc then bytes ! (k - nat 1) else [1, 2, 3, 4] ! k)))"
    by auto
  from i two [of i] have "rc = 2" "bytes = [72, 105]" by simp_all
  with c obtain buf' where "r = Inr (Some 3, buf')"
      "\<forall>k < 4. buf' ! k = (if 1 \<le> int k \<and> int k < 3 then [72, 105] ! (k - 1) else [1, 2, 3, 4] ! k)"
    by auto
  with run show ?thesis by simp
qed

text \<open>The documented behaviour of \<open>fcntl(2)\<close> with \<open>F_GETFL\<close> and \<open>F_SETFL\<close>, seen through the status
  flags of a descriptor; the flags are never negative.\<close>

definition fcntl_law :: "('k \<Rightarrow> int \<Rightarrow> int) \<Rightarrow> 'k sock_os \<Rightarrow> bool" where
  "fcntl_law fl P \<longleftrightarrow> (\<forall>k s. 0 \<le> fl k s) \<and>
     (\<forall>s w. sys_fcntl P s F_GETFL 0 w = (fl (os w) s, w)) \<and>
     (\<forall>s v w. 0 \<le> v \<longrightarrow> (\<exists>w'. sys_fcntl P s F_SETFL v w = (0, w') \<and> fl (os w') = (fl (os w))(s := v)))"

text \<open>
  \<open>set_nonblocking\<close> sets or clears \<open>O_NONBLOCK\<close> of its own descriptor, leaves every other status
  flag and every other descriptor as they are, and does not call the kernel to set what is set
  already.
\<close>

theorem set_nonblocking_flag:
  assumes law: "fcntl_law fl P"
  shows "\<exists>w'. set_nonblocking P s enable w = (Inr (), w') \<and>
    (\<forall>n. bit (fl (os w') (sock s)) n = (if n = 11 then enable else bit (fl (os w) (sock s)) n)) \<and>
    (\<forall>t. t \<noteq> sock s \<longrightarrow> fl (os w') t = fl (os w) t) \<and>
    ((bit (fl (os w) (sock s)) 11 = enable) \<longrightarrow> w' = w)"
proof -
  let ?f = "fl (os w) (sock s)"
  let ?new = "if enable then ?f OR O_NONBLOCK else ?f AND NOT O_NONBLOCK"
  have get: "throw_errno_if_minus1 msg (sys_fcntl P (sock s) F_GETFL 0) w = (Inr ?f, w)" for msg
    using law by (intro throw_errno_if_minus1_success) (auto simp: fcntl_law_def, metis neg_0_le_iff_le not_one_le_zero)
  have pos: "0 \<le> ?new" using law by (simp add: fcntl_law_def O_NONBLOCK_def)
  obtain w1 where set: "sys_fcntl P (sock s) F_SETFL ?new w = (0, w1)" "fl (os w1) = (fl (os w))(sock s := ?new)"
    using law pos unfolding fcntl_law_def by blast
  have two: "O_NONBLOCK = 2 ^ 11" by (simp add: O_NONBLOCK_def)
  have nb: "bit O_NONBLOCK n \<longleftrightarrow> n = 11" for n unfolding two bit_exp_iff by auto
  have bits: "bit ?new n = (if n = 11 then enable else bit ?f n)" for n
    by (auto simp: nb bit_or_iff bit_and_iff bit_not_iff)
  have eq: "?f = ?new \<longleftrightarrow> bit ?f 11 = enable"
    unfolding bit_eq_iff [of ?f ?new] bits by auto
  show ?thesis
  proof (cases "?f = ?new")
    case True
    then have "set_nonblocking P s enable w = (Inr (), w)"
      by (simp add: set_nonblocking_def bind_op_def get Let_def ret_def)
    with True bits show ?thesis by metis
  next
    case False
    then have "set_nonblocking P s enable w = (Inr (), w1)"
      using set(1) by (simp add: set_nonblocking_def bind_op_def get Let_def ret_def throw_errno_if_minus1_success)
    with False eq bits set(2) show ?thesis by simp
  qed
qed

text \<open>A kernel whose state is the table of the status flags.\<close>

definition flag_table :: "(int \<Rightarrow> nat) sock_os" where
  "flag_table = quiet_sock\<lparr>sys_fcntl := (\<lambda>s c a w.
     if c = F_GETFL then (int (os w s), w) else (0, w\<lparr>os := (os w)(s := nat a)\<rparr>))\<rparr>"

theorem set_nonblocking_flag_witness:
  "\<exists>w'. set_nonblocking flag_table \<lparr>sock = 5, close_flag = True\<rparr> True \<lparr>errno = 0, os = (\<lambda>_. 2)\<rparr> = (Inr (), w') \<and>
     bit (int (os w' 5)) 11 \<and> os w' 4 = 2"
proof -
  have law: "fcntl_law (\<lambda>k s. int (k s)) flag_table"
    by (auto simp: fcntl_law_def flag_table_def F_GETFL_def F_SETFL_def)
  obtain w' where r: "set_nonblocking flag_table \<lparr>sock = 5, close_flag = True\<rparr> True \<lparr>errno = 0, os = (\<lambda>_. 2)\<rparr> = (Inr (), w')"
      and b: "\<forall>n. bit (int (os w' 5)) n = (if n = 11 then True else bit (2 :: int) n)"
      and o: "\<forall>t. t \<noteq> 5 \<longrightarrow> int (os w' t) = 2"
    using set_nonblocking_flag [OF law, of "\<lparr>sock = 5, close_flag = True\<rparr>" True "\<lparr>errno = 0, os = (\<lambda>_. 2)\<rparr>"] by auto
  have "bit (int (os w' 5)) 11" by (simp only: b) simp
  moreover have "os w' 4 = 2" using o [rule_format, of 4] by simp
  ultimately show ?thesis using r by blast
qed

section \<open>The size of a resolved address\<close>

text \<open>
  The address length is checked with \<open>!addr->ai_addrlen <= sizeof(sockaddr)\<close>, which compares a
  truth value: whatever length the resolver answers, a single result of the requested type becomes an
  end point of that length, and of the address only what fits into the storage is kept.
\<close>

theorem endpoint_accepts_any_length:
  assumes answer: "sys_getaddrinfo P host service AI_NUMERICHOST (socktype_code type) w = ((0, [ai]), w')"
    and type: "ai_socktype ai = socktype_code type"
  shows "\<exists>ep. endpoint_construct P host service type w = (Inr ep, w') \<and> addr_len ep = ai_addrlen ai \<and>
    length (sa_data ep) \<le> 14 \<and> (SOCKADDR_SIZE < ai_addrlen ai \<longrightarrow> SOCKADDR_SIZE < addr_len ep)"
  using assms by (auto simp: endpoint_construct_def SOCKADDR_SIZE_def)

definition ipv6_resolver :: "unit sock_os" where
  "ipv6_resolver = quiet_sock\<lparr>sys_getaddrinfo := (\<lambda>h s f t w.
     ((0, [\<lparr>ai_socktype = t, ai_protocol = 6, ai_addrlen = 28, ai_addr = (10, replicate 26 1)\<rparr>]), w))\<rparr>"

theorem endpoint_accepts_any_length_witness:
  "\<exists>ep. fst (endpoint_construct ipv6_resolver ''::1'' ''80'' stream_service \<lparr>errno = 0, os = ()\<rparr>) = Inr ep \<and>
     addr_len ep = 28 \<and> SOCKADDR_SIZE < addr_len ep"
proof -
  let ?ai = "\<lparr>ai_socktype = 1, ai_protocol = 6, ai_addrlen = 28, ai_addr = (10, replicate 26 1)\<rparr>"
  have "sys_getaddrinfo ipv6_resolver ''::1'' ''80'' AI_NUMERICHOST (socktype_code stream_service) \<lparr>errno = 0, os = ()\<rparr> =
      ((0, [?ai]), \<lparr>errno = 0, os = ()\<rparr>)"
    by (simp add: ipv6_resolver_def)
  from endpoint_accepts_any_length [OF this] show ?thesis by (auto simp: SOCKADDR_SIZE_def)
qed

end
