(* ===== verification/Select_Demux.thy ===== *)
theory Select_Demux
  imports Ioxx_Event_Set Ioxx_Signal Ioxx_Socket
begin

text \<open>
  The demultiplexer on \<open>select(2)\<close>, \<open>include/ioxx/detail/select.hpp\<close>.

  An \<open>fd_set\<close> is the set of descriptors whose bit is set; \<open>FD_SET\<close>, \<open>FD_CLR\<close> and \<open>FD_ISSET\<close> on a
  descriptor outside \<open>0 .. FD_SETSIZE - 1\<close> access memory outside the array and are undefined.
  \<open>_n_events\<close> is a 64-bit \<open>size_t\<close> and wraps around when it is decremented below zero.
\<close>

unbundle bit_operations_syntax

definition FD_SETSIZE :: int where
  "FD_SETSIZE = 1024"

definition select_codes :: event_codes where
  "select_codes = \<lparr>readable = 1, writable = 2, pridata = 4\<rparr>"

record select_demux =
  req_read_fds :: "int set"
  req_write_fds :: "int set"
  req_except_fds :: "int set"
  recv_read_fds :: "int set"
  recv_write_fds :: "int set"
  recv_except_fds :: "int set"
  max_fd :: int
  current :: int
  n_events :: u64

section \<open>Operations\<close>

definition select_construct :: select_demux where
  "select_construct = \<lparr>req_read_fds = {}, req_write_fds = {}, req_except_fds = {}, recv_read_fds = {},
     recv_write_fds = {}, recv_except_fds = {}, max_fd = -1, current = 0, n_events = 0\<rparr>"

definition select_max_timeout :: u32 where
  "select_max_timeout = word_of_int INT_MAX"

definition select_empty :: "select_demux \<Rightarrow> bool" where
  "select_empty d \<longleftrightarrow> n_events d = 0"

definition fd_ok :: "int \<Rightarrow> bool" where
  "fd_ok s \<longleftrightarrow> 0 \<le> s \<and> s < FD_SETSIZE"

definition fd_put :: "bool \<Rightarrow> int \<Rightarrow> int set \<Rightarrow> int set" where
  "fd_put b s fds = (if b then insert s fds else fds - {s})"

definition requested :: "select_demux \<Rightarrow> int set" where
  "requested d = req_read_fds d \<union> req_write_fds d \<union> req_except_fds d"

text \<open>The loop that lowers \<open>_max_fd\<close> to the next descriptor that is still requested.\<close>

function lower_max_fd :: "int set \<Rightarrow> int \<Rightarrow> int" where
  "lower_max_fd fds m = (if 0 \<le> m then (if m \<in> fds then m else lower_max_fd fds (m - 1)) else m)"
  by pat_completeness auto
termination
  by (relation "measure (\<lambda>(fds, m). nat (m + 1))") auto

declare lower_max_fd.simps [simp del]

definition select_request :: "int \<Rightarrow> u32 \<Rightarrow> (select_demux, unit) op" where
  "select_request s ev =
     then_op (guard_op (fd_ok s))
       (\<lambda>d. let d1 = d\<lparr>req_read_fds := fd_put (has_event ev (readable select_codes)) s (req_read_fds d),
                       req_write_fds := fd_put (has_event ev (writable select_codes)) s (req_write_fds d),
                       req_except_fds := fd_put (has_event ev (pridata select_codes)) s (req_except_fds d)\<rparr> in
          if ev \<noteq> no_events then (Inr (), d1\<lparr>max_fd := max (max_fd d1) s\<rparr>)
          else if s = max_fd d1 then (Inr (), d1\<lparr>max_fd := lower_max_fd (requested d1) (max_fd d1)\<rparr>)
          else assert_op (s < max_fd d1) d1)"

text \<open>The constructor and destructor of the nested class \<open>socket\<close>; its base class \<open>system_socket\<close> is
  constructed first and destroyed last.\<close>

definition select_socket_construct :: "int \<Rightarrow> u32 \<Rightarrow> (select_demux, system_socket) op" where
  "select_socket_construct s ev =
     bind_op (system_socket_construct s take_ownership)
       (\<lambda>sk. then_op (assert_op (0 \<le> s))
         (then_op (assert_op (s \<le> FD_SETSIZE))
           (then_op (select_request s ev) (ret sk))))"

definition select_socket_destruct ::
  "'k sock_os \<Rightarrow> system_socket \<Rightarrow> (select_demux \<times> 'k world, unit) op" where
  "select_socket_destruct P sk =
     with_dtor (on_fst (select_request (sock sk) no_events)) (on_snd (system_socket_destruct P sk))"

function select_pop_event :: "(select_demux, (int \<times> u32) option) op" where
  "select_pop_event d =
     (if n_events d = 0 then (Inr None, d)
      else if \<not> current d \<le> max_fd d then (Inl Assertion_failed, d)
      else let s = current d; d1 = d\<lparr>current := s + 1\<rparr> in
        if s < 0 then (Inl Assertion_failed, d1)
        else if \<not> fd_ok s then (Inl Undefined_behaviour, d1)
        else let r = (s \<in> recv_read_fds d); w = (s \<in> recv_write_fds d); p = (s \<in> recv_except_fds d);
                 ev = event_if r (readable select_codes) OR event_if w (writable select_codes)
                        OR event_if p (pridata select_codes);
                 d2 = d1\<lparr>n_events := n_events d - of_bool r - of_bool w - of_bool p\<rparr>
             in if ev \<noteq> no_events then (Inr (Some (s, ev)), d2) else select_pop_event d2)"
  by pat_completeness auto
termination
  by (relation "measure (\<lambda>d. nat (max_fd d + 1 - current d))") (auto simp: Let_def)

declare select_pop_event.simps [simp del]

text \<open>\<open>select\<close> and \<open>pselect\<close> in one argument: the number of descriptors, the three sets, the time-out
  in seconds and the signal mask (\<^const>\<open>None\<close> for \<open>select\<close>); the answer is the return code and the
  three sets as the call leaves them.\<close>

type_synonym fd_sets = "int set \<times> int set \<times> int set"
type_synonym 'k sys_select = "int \<Rightarrow> fd_sets \<Rightarrow> u32 \<Rightarrow> sigset option \<Rightarrow> ('k, int \<times> fd_sets) syscall"

definition select_wait ::
  "bool \<Rightarrow> 'k sigprocmask \<Rightarrow> 'k sys_select \<Rightarrow> u32 \<Rightarrow> (select_demux \<times> 'k world, unit) op" where
  "select_wait have_pselect spm sel timeout =
     then_op (assert_op (timeout \<le> select_max_timeout))
       (\<lambda>(d, w). then_op (assert_op (n_events d = 0))
          (if max_fd d = -1
           then bind_op (on_snd (signal_safe_call have_pselect spm (sel 0 ({}, {}, {}) timeout))) (\<lambda>_. ret ())
           else then_op (on_fst (modify_op (\<lambda>d. d\<lparr>recv_read_fds := req_read_fds d,
                    recv_write_fds := req_write_fds d, recv_except_fds := req_except_fds d\<rparr>)))
             (bind_op (on_snd (signal_safe_call have_pselect spm
                    (sel (max_fd d + 1) (req_read_fds d, req_write_fds d, req_except_fds d) timeout)))
              (\<lambda>(rc, r, wr, ex) (d, w).
                 let d1 = d\<lparr>recv_read_fds := r, recv_write_fds := wr, recv_except_fds := ex\<rparr> in
                 if rc < 0 then
                   (if errno w = EINTR then (Inr (), (d1, w))
                    else (Inl (System_error (errno w) ''select(2)''), (d1, w)))
                 else (Inr (), (d1\<lparr>n_events := word_of_int rc, current := 0\<rparr>, w))))) (d, w))"

section \<open>The event bits\<close>

interpretation select_bits: event_bits select_codes
  by unfold_locales (simp_all add: select_codes_def)

section \<open>The invariant of the requests\<close>

text \<open>\<open>_max_fd\<close> is the greatest descriptor with a request, and -1 when there is none.\<close>

definition select_ok :: "select_demux \<Rightarrow> bool" where
  "select_ok d \<longleftrightarrow> (\<forall>s \<in> requested d. 0 \<le> s \<and> s < FD_SETSIZE \<and> s \<le> max_fd d) \<and>
     (max_fd d = -1 \<or> max_fd d \<in> requested d)"

lemma lower_max_fd_spec:
  "m \<ge> -1 \<Longrightarrow> (\<forall>s \<in> fds. 0 \<le> s \<and> s \<le> m) \<Longrightarrow>
   (\<forall>s \<in> fds. s \<le> lower_max_fd fds m) \<and> (lower_max_fd fds m = -1 \<or> lower_max_fd fds m \<in> fds)"
proof (induction fds m rule: lower_max_fd.induct)
  case (1 fds m)
  show ?case
  proof (cases "0 \<le> m \<and> m \<notin> fds")
    case True
    with 1(3) have "\<forall>s \<in> fds. 0 \<le> s \<and> s \<le> m - 1" by (metis zle_diff1_eq order_le_imp_less_or_eq)
    with 1 True show ?thesis by (subst (1 2 3) lower_max_fd.simps) simp
  next
    case False
    with 1(2,3) show ?thesis by (subst (1 2 3) lower_max_fd.simps) auto
  qed
qed

lemma requested_nonempty_max:
  "select_ok d \<Longrightarrow> -1 \<le> max_fd d"
  by (auto simp: select_ok_def)

text \<open>What a request asks for, bit by bit.\<close>

definition request_bits :: "select_demux \<Rightarrow> int \<Rightarrow> bool \<times> bool \<times> bool" where
  "request_bits d s = (s \<in> req_read_fds d, s \<in> req_write_fds d, s \<in> req_except_fds d)"

lemma fd_put_iff [simp]: "t \<in> fd_put b s fds \<longleftrightarrow> (if t = s then b else t \<in> fds)"
  by (auto simp: fd_put_def)

lemma select_request_ok:
  assumes ok: "select_ok d" and s: "fd_ok s" and ev: "event_valid select_codes ev"
    and pre: "ev \<noteq> no_events \<or> s \<le> max_fd d"
  shows "\<exists>d'. select_request s ev d = (Inr (), d') \<and> select_ok d' \<and>
    request_bits d' s = event_bits_of select_codes ev \<and> (\<forall>t. t \<noteq> s \<longrightarrow> request_bits d' t = request_bits d t) \<and>
    max_fd d' = (if ev \<noteq> no_events then max (max_fd d) s else max_fd d') \<and>
    (recv_read_fds d', recv_write_fds d', recv_except_fds d', current d', n_events d')
      = (recv_read_fds d, recv_write_fds d, recv_except_fds d, current d, n_events d)"
proof -
  let ?d1 = "d\<lparr>req_read_fds := fd_put (has_event ev (readable select_codes)) s (req_read_fds d),
      req_write_fds := fd_put (has_event ev (writable select_codes)) s (req_write_fds d),
      req_except_fds := fd_put (has_event ev (pridata select_codes)) s (req_except_fds d)\<rparr>"
  have bits: "request_bits (?d1\<lparr>max_fd := m\<rparr>) s = event_bits_of select_codes ev"
    "t \<noteq> s \<Longrightarrow> request_bits (?d1\<lparr>max_fd := m\<rparr>) t = request_bits d t" for m t
    by (simp_all add: request_bits_def event_bits_of_def)
  have member: "t \<in> requested ?d1 \<longleftrightarrow>
      (if t = s then event_bits_of select_codes ev \<noteq> (False, False, False) else t \<in> requested d)" for t
    by (auto simp: requested_def event_bits_of_def)
  have none: "ev = no_events \<Longrightarrow> requested ?d1 = requested d - {s}"
  proof (rule set_eqI)
    fix t assume "ev = no_events"
    then show "t \<in> requested ?d1 \<longleftrightarrow> t \<in> requested d - {s}"
      unfolding member by (metis (no_types) no_events_bits Diff_iff singletonD singletonI)
  qed
  have req_max: "requested (?d1\<lparr>max_fd := m\<rparr>) = requested ?d1" for m
    by (simp add: requested_def)
  consider (some) "ev \<noteq> no_events" | (top) "ev = no_events" "s = max_fd d" | (below) "ev = no_events" "s < max_fd d"
    using pre by fastforce
  then show ?thesis
  proof cases
    case some
    then have req: "select_request s ev d = (Inr (), ?d1\<lparr>max_fd := max (max_fd d) s\<rparr>)"
      using s by (simp add: select_request_def op_simps Let_def)
    have "s \<in> requested ?d1" using some ev by (simp add: member event_valid_def)
    with some have "select_ok (?d1\<lparr>max_fd := max (max_fd d) s\<rparr>)"
      using ok s unfolding select_ok_def req_max
      by (auto simp: member fd_ok_def max_def split: if_splits; meson order_trans)
    with req bits some show ?thesis by auto
  next
    case top
    let ?m = "lower_max_fd (requested ?d1) (max_fd d)"
    have req: "select_request s ev d = (Inr (), ?d1\<lparr>max_fd := ?m\<rparr>)"
      using s top by (simp add: select_request_def op_simps Let_def)
    have all: "\<forall>t \<in> requested ?d1. 0 \<le> t \<and> t \<le> max_fd d \<and> t < FD_SETSIZE"
      unfolding none [OF top(1)] using ok by (auto simp: select_ok_def)
    then have "select_ok (?d1\<lparr>max_fd := ?m\<rparr>)"
      using lower_max_fd_spec [of "max_fd d" "requested ?d1"] requested_nonempty_max [OF ok]
      unfolding select_ok_def req_max by auto
    with req bits top show ?thesis by auto
  next
    case below
    then have req: "select_request s ev d = (Inr (), ?d1)"
      using s by (simp add: select_request_def op_simps Let_def)
    have d1: "?d1 = ?d1\<lparr>max_fd := max_fd d\<rparr>" by simp
    have "select_ok ?d1"
      unfolding select_ok_def none [OF below(1)] using ok below by (auto simp: select_ok_def)
    moreover have "request_bits ?d1 s = event_bits_of select_codes ev"
      "\<And>t. t \<noteq> s \<Longrightarrow> request_bits ?d1 t = request_bits d t"
      by (simp_all add: request_bits_def event_bits_of_def)
    ultimately show ?thesis using req below by auto
  qed
qed

section \<open>Delivery of the events\<close>

definition recv_event :: "select_demux \<Rightarrow> int \<Rightarrow> u32" where
  "recv_event d s =
     event_if (s \<in> recv_read_fds d) (readable select_codes) OR
     event_if (s \<in> recv_write_fds d) (writable select_codes) OR
     event_if (s \<in> recv_except_fds d) (pridata select_codes)"

definition recv_bits :: "select_demux \<Rightarrow> int \<Rightarrow> nat" where
  "recv_bits d s = of_bool (s \<in> recv_read_fds d) + of_bool (s \<in> recv_write_fds d) + of_bool (s \<in> recv_except_fds d)"

definition select_undelivered :: "select_demux \<Rightarrow> (int \<times> u32) list" where
  "select_undelivered d =
     (if n_events d = 0 then []
      else filter (\<lambda>x. snd x \<noteq> no_events) (map (\<lambda>s. (s, recv_event d s)) [current d..max_fd d]))"

text \<open>The counter agrees with the bits that have not been looked at yet.\<close>

definition select_ready :: "select_demux \<Rightarrow> bool" where
  "select_ready d \<longleftrightarrow> n_events d = 0 \<or>
     (0 \<le> current d \<and> max_fd d < FD_SETSIZE \<and>
      unat (n_events d) = sum_list (map (recv_bits d) [current d..max_fd d]))"

lemma recv_event_none: "recv_event d s = no_events \<longleftrightarrow> recv_bits d s = 0"
  using select_bits.union_nonzero
  by (auto simp: recv_event_def recv_bits_def no_events_def)

lemma unat_minus_of_bool: "of_bool b \<le> unat (n :: u64) \<Longrightarrow> unat (n - of_bool b) = unat n - of_bool b"
  by (cases b) (auto simp: unat_sub word_le_nat_alt)

lemma n_events_decrement:
  "recv_bits d s \<le> unat (n :: u64) \<Longrightarrow>
   unat (n - of_bool (s \<in> recv_read_fds d) - of_bool (s \<in> recv_write_fds d) - of_bool (s \<in> recv_except_fds d))
     = unat n - recv_bits d s"
proof -
  let ?r = "s \<in> recv_read_fds d" and ?w = "s \<in> recv_write_fds d" and ?p = "s \<in> recv_except_fds d"
  assume "recv_bits d s \<le> unat n"
  then have le: "of_bool ?r + of_bool ?w + of_bool ?p \<le> unat n" by (simp only: recv_bits_def)
  have 1: "unat (n - of_bool ?r) = unat n - of_bool ?r"
    by (rule unat_minus_of_bool) (use le in linarith)
  have 2: "unat (n - of_bool ?r - of_bool ?w) = unat (n - of_bool ?r) - of_bool ?w"
    by (rule unat_minus_of_bool) (use le 1 in linarith)
  have 3: "unat (n - of_bool ?r - of_bool ?w - of_bool ?p) = unat (n - of_bool ?r - of_bool ?w) - of_bool ?p"
    by (rule unat_minus_of_bool) (use le 1 2 in linarith)
  show ?thesis unfolding recv_bits_def using 1 2 3 by linarith
qed

text \<open>One round of the loop of \<open>pop_event\<close>, in a ready state.\<close>

definition select_advance :: "select_demux \<Rightarrow> select_demux" where
  "select_advance d = d\<lparr>current := current d + 1,
     n_events := n_events d - of_bool (current d \<in> recv_read_fds d)
       - of_bool (current d \<in> recv_write_fds d) - of_bool (current d \<in> recv_except_fds d)\<rparr>"

lemma select_pop_round:
  assumes "select_ready d" and "n_events d \<noteq> 0"
  shows "current d \<le> max_fd d"
    and "select_pop_event d =
      (if recv_bits d (current d) = 0 then select_pop_event (select_advance d)
       else (Inr (Some (current d, recv_event d (current d))), select_advance d))"
    and "select_ready (select_advance d)"
    and "select_undelivered d =
      (if recv_bits d (current d) = 0 then select_undelivered (select_advance d)
       else (current d, recv_event d (current d)) # select_undelivered (select_advance d))"
proof -
  let ?s = "current d"
  have rdy: "0 \<le> ?s" "max_fd d < FD_SETSIZE"
      "unat (n_events d) = sum_list (map (recv_bits d) [?s..max_fd d])"
    using assms by (auto simp: select_ready_def)
  from assms(2) have "unat (n_events d) \<noteq> 0" by (simp add: unat_eq_0)
  then show le: "?s \<le> max_fd d" using rdy(3) by (cases "?s \<le> max_fd d") auto
  have split: "[?s..max_fd d] = ?s # [?s + 1..max_fd d]" using le by (rule upto_rec1)
  have bits: "unat (n_events d) = recv_bits d ?s + sum_list (map (recv_bits d) [?s + 1..max_fd d])"
    using rdy(3) by (simp add: split)
  have same: "recv_bits (select_advance d) = recv_bits d" "recv_event (select_advance d) = recv_event d"
    by (simp_all add: fun_eq_iff recv_bits_def recv_event_def select_advance_def)
  have n': "unat (n_events (select_advance d)) = sum_list (map (recv_bits d) [?s + 1..max_fd d])"
    using n_events_decrement [of d ?s "n_events d"] bits by (simp add: select_advance_def)
  then show "select_ready (select_advance d)"
    using rdy by (auto simp: select_ready_def same) (simp_all add: select_advance_def)
  have "fd_ok ?s" using rdy le by (simp add: fd_ok_def)
  then show "select_pop_event d =
      (if recv_bits d ?s = 0 then select_pop_event (select_advance d)
       else (Inr (Some (?s, recv_event d ?s)), select_advance d))"
    using assms(2) le rdy(1) recv_event_none [of d ?s]
    by (subst select_pop_event.simps) (simp add: Let_def recv_event_def select_advance_def)
  have empty: "filter (\<lambda>x. snd x \<noteq> no_events) (map (\<lambda>s. (s, recv_event d s)) [?s + 1..max_fd d]) = []"
    if "n_events (select_advance d) = 0"
  proof -
    have "sum_list (map (recv_bits d) [?s + 1..max_fd d]) = 0" using n' that by simp
    then have "\<forall>s \<in> set [?s + 1..max_fd d]. recv_bits d s = 0" by simp
    then show ?thesis by (simp add: filter_empty_conv recv_event_none)
  qed
  show "select_undelivered d =
      (if recv_bits d ?s = 0 then select_undelivered (select_advance d)
       else (?s, recv_event d ?s) # select_undelivered (select_advance d))"
    using assms(2) empty recv_event_none [of d ?s]
    by (auto simp: select_undelivered_def split same) (auto simp: select_advance_def)
qed

lemma select_pop_cases:
  "select_ready d \<Longrightarrow>
   (select_undelivered d = [] \<longrightarrow>
      (\<exists>d'. select_pop_event d = (Inr None, d') \<and> select_ready d' \<and> select_undelivered d' = [])) \<and>
   (\<forall>x xs. select_undelivered d = x # xs \<longrightarrow>
      (\<exists>d'. select_pop_event d = (Inr (Some x), d') \<and> select_ready d' \<and> select_undelivered d' = xs))"
proof (induction "nat (max_fd d + 1 - current d)" arbitrary: d rule: less_induct)
  case less
  show ?case
  proof (cases "n_events d = 0")
    case True
    then have "select_pop_event d = (Inr None, d)" by (subst select_pop_event.simps) simp
    with True less.prems show ?thesis by (simp add: select_undelivered_def)
  next
    case False
    note round = select_pop_round [OF less.prems False]
    have "nat (max_fd (select_advance d) + 1 - current (select_advance d)) < nat (max_fd d + 1 - current d)"
      using round(1) by (simp add: select_advance_def)
    from less.hyps [OF this round(3)] round show ?thesis by auto
  qed
qed

interpretation select_source: event_source select_pop_event select_undelivered select_ready
proof unfold_locales
  fix d :: select_demux and x
  assume "select_ready d" "x \<in> set (select_undelivered d)"
  then show "0 \<le> fst x" by (auto simp: select_ready_def select_undelivered_def split: if_splits)
qed (use select_pop_cases in blast)+

section \<open>What \<open>wait\<close> leaves behind\<close>

text \<open>The documented behaviour of \<open>select(2)\<close>: on success it answers the total number of bits set, and
  the sets hold only descriptors that were asked for and lie below the given bound.\<close>

definition select_law :: "'k sys_select \<Rightarrow> bool" where
  "select_law sel \<longleftrightarrow> (\<forall>n r wr ex to m w rc r' wr' ex' w'.
     sel n (r, wr, ex) to m w = ((rc, r', wr', ex'), w') \<longrightarrow> 0 \<le> rc \<longrightarrow>
     r' \<subseteq> r \<inter> {0..<n} \<and> wr' \<subseteq> wr \<inter> {0..<n} \<and> ex' \<subseteq> ex \<inter> {0..<n} \<and>
     rc = int (card r' + card wr' + card ex'))"

lemma sum_recv_bits:
  assumes "recv_read_fds d \<subseteq> {0..m}" "recv_write_fds d \<subseteq> {0..m}" "recv_except_fds d \<subseteq> {0..m}"
  shows "sum_list (map (recv_bits d) [0..m]) =
    card (recv_read_fds d) + card (recv_write_fds d) + card (recv_except_fds d)"
proof -
  have one: "(\<Sum>s \<in> {0..m}. of_bool (s \<in> A)) = card A" if "A \<subseteq> {0..m}" for A :: "int set"
    using that by (simp add: sum_of_bool_eq Int_absorb1)
  show ?thesis
    using one [OF assms(1)] one [OF assms(2)] one [OF assms(3)]
    by (simp add: sum_list_distinct_conv_sum_set recv_bits_def sum.distrib)
qed

lemma card_fds: "A \<subseteq> {0..m} \<Longrightarrow> m < FD_SETSIZE \<Longrightarrow> card A \<le> 1024"
  using card_mono [of "{0..m}" A] by (simp add: FD_SETSIZE_def)

lemma select_ready_start:
  assumes "recv_read_fds d \<subseteq> {0..max_fd d}" "recv_write_fds d \<subseteq> {0..max_fd d}"
    "recv_except_fds d \<subseteq> {0..max_fd d}" and "max_fd d < FD_SETSIZE" and "current d = 0"
    and n: "n_events d = word_of_int (int (card (recv_read_fds d) + card (recv_write_fds d) + card (recv_except_fds d)))"
  shows "select_ready d"
proof -
  let ?n = "card (recv_read_fds d) + card (recv_write_fds d) + card (recv_except_fds d)"
  have "?n \<le> 3072"
    using card_fds [OF assms(1,4)] card_fds [OF assms(2,4)] card_fds [OF assms(3,4)] by linarith
  then have "unat (n_events d) = ?n"
    unfolding n of_int_of_nat_eq by (simp only: unat_of_nat) (simp add: take_bit_nat_eq_self)
  with assms sum_recv_bits [OF assms(1-3)] show ?thesis by (simp add: select_ready_def)
qed

lemma select_wait_ready:
  assumes ok: "select_ok d" and law: "select_law sel"
    and wait: "select_wait hv spm sel timeout (d, w) = (Inr (), (d', w'))"
  shows "select_ready d' \<and> select_ok d' \<and> max_fd d' = max_fd d \<and> request_bits d' = request_bits d \<and>
    (n_events d' \<noteq> 0 \<longrightarrow> current d' = 0 \<and> recv_read_fds d' \<subseteq> req_read_fds d \<and>
      recv_write_fds d' \<subseteq> req_write_fds d \<and> recv_except_fds d' \<subseteq> req_except_fds d)"
proof (cases "max_fd d = -1")
  case True
  with wait have "d' = d \<and> n_events d = 0"
    by (auto simp: select_wait_def on_snd_def op_defs split: prod.splits sum.splits if_splits)
  with ok show ?thesis by (simp add: select_ready_def)
next
  case False
  let ?d0 = "d\<lparr>recv_read_fds := req_read_fds d, recv_write_fds := req_write_fds d,
    recv_except_fds := req_except_fds d\<rparr>"
  let ?sel = "sel (max_fd d + 1) (req_read_fds d, req_write_fds d, req_except_fds d) timeout"
  from False wait obtain rc r wr ex w1 where n0: "n_events d = 0"
      and call: "signal_safe_call hv spm ?sel w = (Inr (rc, r, wr, ex), w1)"
      and d': "d' = (let d1 = ?d0\<lparr>recv_read_fds := r, recv_write_fds := wr, recv_except_fds := ex\<rparr>
        in if rc < 0 then d1 else d1\<lparr>n_events := word_of_int rc, current := 0\<rparr>)"
    by (auto simp: select_wait_def on_snd_def on_fst_def op_defs Let_def split: prod.splits sum.splits if_splits)
  have same: "max_fd d' = max_fd d" "request_bits d' = request_bits d" "requested d' = requested d"
    by (simp_all add: d' Let_def request_bits_def requested_def fun_eq_iff)
  then have ok': "select_ok d'" using ok by (simp add: select_ok_def)
  show ?thesis
  proof (cases "rc < 0")
    case True
    then show ?thesis using n0 same ok' by (simp add: d' Let_def select_ready_def)
  next
    case False
    obtain m w0 w2 where "?sel m w0 = ((rc, r, wr, ex), w2)"
      using signal_safe_call_from_call [OF call] by blast
    with law False have sets: "r \<subseteq> req_read_fds d \<inter> {0..<max_fd d + 1}" "wr \<subseteq> req_write_fds d \<inter> {0..<max_fd d + 1}"
        "ex \<subseteq> req_except_fds d \<inter> {0..<max_fd d + 1}" "rc = int (card r + card wr + card ex)"
      unfolding select_law_def by (metis not_less)+
    have "max_fd d < FD_SETSIZE" using ok \<open>max_fd d \<noteq> -1\<close> by (auto simp: select_ok_def)
    then have "select_ready d'"
      using sets False by (intro select_ready_start) (auto simp: d' Let_def)
    then show ?thesis using same ok' sets False by (auto simp: d' Let_def)
  qed
qed

section \<open>A sequence of requests\<close>

text \<open>Requests on several sockets, one after the other, and the event set each descriptor was last
  asked for.\<close>

fun select_requests :: "(int \<times> u32) list \<Rightarrow> (select_demux, unit) op" where
  "select_requests [] = ret ()"
| "select_requests ((s, ev) # rs) = then_op (select_request s ev) (select_requests rs)"

fun last_request :: "(int \<times> u32) list \<Rightarrow> int \<Rightarrow> u32" where
  "last_request [] s = no_events"
| "last_request ((t, ev) # rs) s = (if s \<in> fst ` set rs then last_request rs s else if s = t then ev else no_events)"

text \<open>The code's own precondition: a request for no events needs a socket with the same or a higher
  number that has one.\<close>

fun requests_allowed :: "(int \<Rightarrow> bool) \<Rightarrow> (int \<times> u32) list \<Rightarrow> bool" where
  "requests_allowed live [] \<longleftrightarrow> True"
| "requests_allowed live ((s, ev) # rs) \<longleftrightarrow>
     fd_ok s \<and> event_valid select_codes ev \<and> (ev = no_events \<longrightarrow> (\<exists>t \<ge> s. live t)) \<and>
     requests_allowed (live(s := (ev \<noteq> no_events))) rs"

lemma requested_bits: "s \<in> requested d \<longleftrightarrow> request_bits d s \<noteq> (False, False, False)"
  by (auto simp: requested_def request_bits_def)

lemma event_valid_bits: "event_valid c ev \<Longrightarrow> event_bits_of c ev = (False, False, False) \<longleftrightarrow> ev = no_events"
  by (auto simp: event_valid_def)

lemma select_requests_spec:
  "select_ok d \<Longrightarrow> requests_allowed (\<lambda>s. s \<in> requested d) rs \<Longrightarrow>
   \<exists>d'. select_requests rs d = (Inr (), d') \<and> select_ok d' \<and>
     (\<forall>s. request_bits d' s =
        (if s \<in> fst ` set rs then event_bits_of select_codes (last_request rs s) else request_bits d s))"
proof (induction rs arbitrary: d)
  case Nil
  then show ?case by (simp add: op_simps)
next
  case (Cons r rs)
  obtain s ev where r: "r = (s, ev)" by (cases r)
  have s: "fd_ok s" "event_valid select_codes ev" and low: "ev = no_events \<longrightarrow> (\<exists>t \<ge> s. t \<in> requested d)"
    and rest: "requests_allowed ((\<lambda>s. s \<in> requested d)(s := (ev \<noteq> no_events))) rs"
    using Cons.prems by (auto simp: r)
  have "ev \<noteq> no_events \<or> s \<le> max_fd d"
    using low Cons.prems(1) unfolding select_ok_def by (meson order_trans)
  from select_request_ok [OF Cons.prems(1) s this] obtain d1 where
    step: "select_request s ev d = (Inr (), d1)" and ok: "select_ok d1"
    and bits: "request_bits d1 s = event_bits_of select_codes ev"
      "\<And>t. t \<noteq> s \<Longrightarrow> request_bits d1 t = request_bits d t" by blast
  have "(\<lambda>t. t \<in> requested d1) = (\<lambda>s. s \<in> requested d)(s := (ev \<noteq> no_events))"
  proof (rule ext)
    fix t show "(t \<in> requested d1) = ((\<lambda>s. s \<in> requested d)(s := (ev \<noteq> no_events))) t"
      using bits event_valid_bits [OF s(2)] by (cases "t = s") (simp_all add: requested_bits)
  qed
  with rest have "requests_allowed (\<lambda>t. t \<in> requested d1) rs" by simp
  from Cons.IH [OF ok this] obtain d' where
    "select_requests rs d1 = (Inr (), d')" "select_ok d'"
    "\<And>t. request_bits d' t =
        (if t \<in> fst ` set rs then event_bits_of select_codes (last_request rs t) else request_bits d1 t)" by blast
  then show ?case using step bits by (intro exI [of _ d']) (auto simp: r op_simps)
qed

lemma select_construct_ok: "select_ok select_construct" "requested select_construct = {}"
  by (auto simp: select_ok_def select_construct_def requested_def)

section \<open>Properties\<close>

text \<open>
  C26.  After any sequence of requests that the class allows, each descriptor is watched for exactly
  the events of its last request, and \<open>_max_fd\<close>, which bounds what \<open>select(2)\<close> looks at, is the
  greatest descriptor that is watched, or -1 when none is.
\<close>

theorem select_requests_watch:
  assumes "requests_allowed (\<lambda>_. False) rs"
  shows "\<exists>d. select_requests rs select_construct = (Inr (), d) \<and>
    (\<forall>s. request_bits d s = event_bits_of select_codes (last_request rs s)) \<and>
    (\<forall>s. last_request rs s \<noteq> no_events \<longrightarrow> s \<le> max_fd d) \<and>
    (max_fd d = -1 \<or> last_request rs (max_fd d) \<noteq> no_events)"
proof -
  have none: "last_request rs s = no_events" if "s \<notin> fst ` set rs" for s
    using that by (induction rs s rule: last_request.induct) auto
  have valid: "event_valid select_codes (last_request rs s)" for s
  proof -
    have "requests_allowed live rs \<Longrightarrow> event_valid select_codes (last_request rs s)" for live
      by (induction live rs rule: requests_allowed.induct) (auto simp: event_valid_def)
    with assms show ?thesis by blast
  qed
  obtain d where d: "select_requests rs select_construct = (Inr (), d)" "select_ok d"
    and bits: "\<And>s. request_bits d s = (if s \<in> fst ` set rs
        then event_bits_of select_codes (last_request rs s) else request_bits select_construct s)"
    using select_requests_spec [OF select_construct_ok(1), of rs] assms
    unfolding select_construct_ok(2) by auto
  have all: "request_bits d s = event_bits_of select_codes (last_request rs s)" for s
    using bits [of s] none [of s] by (simp add: request_bits_def select_construct_def)
  then have "s \<in> requested d \<longleftrightarrow> last_request rs s \<noteq> no_events" for s
    using event_valid_bits [OF valid] by (simp add: requested_bits)
  with d all show ?thesis unfolding select_ok_def by blast
qed

theorem select_requests_watch_witness:
  "\<exists>d. select_requests [(3, 1), (7, 3), (3, 0), (7, 0)] select_construct = (Inr (), d) \<and> max_fd d = -1"
proof -
  let ?rs = "[(3, 1), (7, 3), (3, 0), (7, 0)] :: (int \<times> u32) list"
  have v: "event_valid select_codes 0" "event_valid select_codes 1" "event_valid select_codes 3"
    by (simp_all add: event_valid_def no_events_def event_bits_of_def has_event_def select_codes_def)
  have "requests_allowed (\<lambda>_. False) ?rs"
    using v by (auto simp: fd_ok_def FD_SETSIZE_def no_events_def)
  moreover have "last_request ?rs s = no_events" for s
    by (auto simp: no_events_def)
  ultimately show ?thesis using select_requests_watch [of ?rs] by auto
qed

text \<open>
  C19.  After a \<open>wait\<close> that returned, calling \<open>pop_event\<close> until it answers false delivers every
  descriptor the kernel reported, each once, in ascending order and with exactly the events the kernel
  set, and nothing else; only events that were requested are delivered.  The assertions in the loop
  hold and \<open>_n_events\<close> does not wrap around.
\<close>

theorem select_delivers_what_the_kernel_reports:
  assumes ok: "select_ok d" and law: "select_law sel"
    and wait: "select_wait hv spm sel timeout (d, w) = (Inr (), (d', w'))" and more: "n_events d' \<noteq> 0"
    and n: "nat (max_fd d + 1) \<le> n"
  shows "pop_times select_pop_event n d' =
      filter (\<lambda>x. snd x \<noteq> no_events) (map (\<lambda>s. (s, recv_event d' s)) [0..max_fd d]) \<and>
    recv_read_fds d' \<subseteq> req_read_fds d \<and> recv_write_fds d' \<subseteq> req_write_fds d \<and>
    recv_except_fds d' \<subseteq> req_except_fds d"
proof -
  note ready = select_wait_ready [OF ok law wait]
  with more have und: "select_undelivered d' =
      filter (\<lambda>x. snd x \<noteq> no_events) (map (\<lambda>s. (s, recv_event d' s)) [0..max_fd d])"
    by (simp add: select_undelivered_def)
  have "length (select_undelivered d') \<le> n"
    unfolding und using n by (intro order_trans [OF length_filter_le]) simp
  with ready have "pop_times select_pop_event n d' = select_undelivered d'"
    by (intro select_source.pop_times_all) auto
  with und ready more show ?thesis by simp
qed

definition ready_kernel :: "unit sys_select" where
  "ready_kernel n fds to m w = (case fds of (r, wr, ex) \<Rightarrow>
     ((int (card (r \<inter> {0..<n})), r \<inter> {0..<n}, {}, {}), w))"

theorem select_delivers_what_the_kernel_reports_witness:
  "pop_times select_pop_event 6 (fst (snd (select_wait True (\<lambda>_ w. ((0, {}), w)) ready_kernel 10
     (select_construct\<lparr>req_read_fds := {2, 5}, max_fd := 5\<rparr>, \<lparr>errno = 0, os = ()\<rparr>)))) = [(2, 1), (5, 1)]"
proof -
  let ?d = "select_construct\<lparr>req_read_fds := {2, 5}, max_fd := 5\<rparr>"
  let ?d' = "?d\<lparr>recv_read_fds := {2, 5}, n_events := 2\<rparr>"
  let ?w = "\<lparr>errno = 0, os = ()\<rparr>"
  have ok: "select_ok ?d"
    by (simp add: select_ok_def requested_def select_construct_def FD_SETSIZE_def)
  have law: "select_law ready_kernel"
    by (auto simp: select_law_def ready_kernel_def)
  have wait: "select_wait True (\<lambda>_ w. ((0, {}), w)) ready_kernel 10 (?d, ?w) = (Inr (), (?d', ?w))"
    by (simp add: select_wait_def op_defs on_fst_def on_snd_def signal_safe_call_def ready_kernel_def
        select_max_timeout_def INT_MAX_def select_construct_def Int_absorb2 Let_def)
  have "pop_times select_pop_event 6 ?d' =
      filter (\<lambda>x. snd x \<noteq> no_events) (map (\<lambda>s. (s, recv_event ?d' s)) [0..max_fd ?d])"
    using select_delivers_what_the_kernel_reports [OF ok law wait, of 6]
    by (simp add: select_construct_def)
  also have "\<dots> = [(2, 1), (5, 1)]"
    by (simp add: select_construct_def upto.simps recv_event_def event_if_def select_codes_def no_events_def)
  finally show ?thesis by (simp add: wait)
qed

text \<open>
  A socket without events can only be constructed below a socket that has some: the default
  argument \<open>ev = no_events\<close> of the constructor aborts the program when no watched descriptor is at
  least as high, in particular for the first socket of a demultiplexer.
\<close>

theorem select_construct_without_events_aborts:
  assumes "select_ok d" and "0 \<le> s" and "s < FD_SETSIZE" and "\<forall>t \<ge> s. t \<notin> requested d"
  shows "fst (select_socket_construct s no_events d) = Inl Assertion_failed"
proof -
  have "max_fd d < s"
    using assms(1,2,4) unfolding select_ok_def by (cases "max_fd d < s") auto
  then show ?thesis
    using assms(2,3)
    by (simp add: select_socket_construct_def system_socket_construct_def select_request_def
        op_defs fd_ok_def FD_SETSIZE_def no_events_def Let_def)
qed

theorem select_construct_without_events_aborts_witness:
  "fst (select_socket_construct 4 no_events select_construct) = Inl Assertion_failed"
  using select_construct_without_events_aborts [OF select_construct_ok(1), of 4]
  by (simp add: select_construct_ok FD_SETSIZE_def)

text \<open>
  The range check of the constructor is one too wide: descriptor \<open>FD_SETSIZE\<close> passes both
  assertions and is then used to index the descriptor sets, whose last bit is \<open>FD_SETSIZE - 1\<close>; every
  higher descriptor is rejected.
\<close>

theorem select_construct_range:
  "(\<forall>s > FD_SETSIZE. select_socket_construct s ev d = (Inl Assertion_failed, d)) \<and>
   select_socket_construct FD_SETSIZE ev d = (Inl Undefined_behaviour, d)"
  by (auto simp: select_socket_construct_def system_socket_construct_def select_request_def
      op_defs fd_ok_def FD_SETSIZE_def)

theorem select_construct_range_witness:
  "select_socket_construct 4096 1 select_construct = (Inl Assertion_failed, select_construct)"
  using select_construct_range [of 1 select_construct] by (simp add: FD_SETSIZE_def)

lemma select_pop_exhausted:
  "n_events d \<noteq> 0 \<Longrightarrow> 0 \<le> current d \<Longrightarrow> max_fd d < FD_SETSIZE \<Longrightarrow>
   \<forall>s \<in> {current d..max_fd d}. recv_bits d s = 0 \<Longrightarrow>
   fst (select_pop_event d) = Inl Assertion_failed"
proof (induction "nat (max_fd d + 1 - current d)" arbitrary: d rule: less_induct)
  case less
  show ?case
  proof (cases "current d \<le> max_fd d")
    case False
    with less.prems show ?thesis by (simp add: select_pop_event.simps [of d])
  next
    case True
    let ?d = "d\<lparr>current := current d + 1\<rparr>"
    have none: "recv_bits d (current d) = 0" using less.prems True by simp
    then have out: "current d \<notin> recv_read_fds d" "current d \<notin> recv_write_fds d" "current d \<notin> recv_except_fds d"
      by (auto simp: recv_bits_def)
    have "select_pop_event d = select_pop_event ?d"
      using less.prems True out
      by (simp add: select_pop_event.simps [of d] fd_ok_def event_if_def no_events_def)
    moreover have "fst (select_pop_event ?d) = Inl Assertion_failed"
      using less.prems True by (intro less.hyps) (auto simp: recv_bits_def)
    ultimately show ?thesis by simp
  qed
qed

text \<open>
  Removing a socket does not remove its undelivered events.  When the highest descriptor is
  unregistered while its event is the only one still pending, \<open>_max_fd\<close> drops below it, the scan runs
  past the new bound with \<open>_n_events\<close> still positive, and the next \<open>pop_event\<close> aborts.
\<close>

theorem select_remove_pending_aborts:
  assumes ok: "select_ok d" and ready: "select_ready d" and last: "select_undelivered d = [(max_fd d, ev)]"
    and gone: "select_request (max_fd d) no_events d = (Inr (), d1)"
  shows "fst (select_pop_event d1) = Inl Assertion_failed"
proof -
  have pend: "n_events d \<noteq> 0" using last by (auto simp: select_undelivered_def)
  have range: "0 \<le> current d" "max_fd d < FD_SETSIZE" using ready pend by (auto simp: select_ready_def)
  have only: "recv_bits d s = 0" if "s \<in> {current d..<max_fd d}" for s
  proof (rule ccontr)
    assume "recv_bits d s \<noteq> 0"
    then have "(s, recv_event d s) \<in> set (select_undelivered d)"
      using that pend by (auto simp: select_undelivered_def recv_event_none)
    with last that show False by simp
  qed
  have "fd_ok (max_fd d)" using gone by (auto simp: select_request_def elim!: then_op_InrE)
  from select_request_ok [OF ok this, of no_events] gone have d1:
    "select_ok d1" "request_bits d1 (max_fd d) = (False, False, False)"
    "\<forall>t. t \<noteq> max_fd d \<longrightarrow> request_bits d1 t = request_bits d t"
    "recv_read_fds d1 = recv_read_fds d" "recv_write_fds d1 = recv_write_fds d"
    "recv_except_fds d1 = recv_except_fds d" "current d1 = current d" "n_events d1 = n_events d"
    by (auto simp: event_valid_def)
  have "max_fd d1 < max_fd d"
  proof (cases "max_fd d1 = -1")
    case True
    with \<open>fd_ok (max_fd d)\<close> show ?thesis by (simp add: fd_ok_def)
  next
    case False
    then have m: "max_fd d1 \<in> requested d1" using d1(1) by (auto simp: select_ok_def)
    then have "max_fd d1 \<noteq> max_fd d" using d1(2) by (auto simp: requested_bits)
    moreover have "max_fd d1 \<in> requested d"
      using m d1(3) \<open>max_fd d1 \<noteq> max_fd d\<close> by (simp add: requested_bits)
    ultimately show ?thesis using ok by (fastforce simp: select_ok_def)
  qed
  moreover have "recv_bits d1 = recv_bits d" using d1 by (simp add: fun_eq_iff recv_bits_def)
  ultimately show ?thesis
    using pend range d1 only by (intro select_pop_exhausted) auto
qed

theorem select_remove_pending_aborts_witness:
  "\<exists>d1. select_request 5 no_events (select_construct\<lparr>req_read_fds := {5}, recv_read_fds := {5},
      max_fd := 5, n_events := 1\<rparr>) = (Inr (), d1) \<and> fst (select_pop_event d1) = Inl Assertion_failed"
proof -
  let ?d = "select_construct\<lparr>req_read_fds := {5}, recv_read_fds := {5}, max_fd := 5, n_events := 1\<rparr>"
  have ok: "select_ok ?d"
    by (simp add: select_ok_def requested_def select_construct_def FD_SETSIZE_def)
  have ready: "select_ready ?d"
    by (simp add: select_ready_def select_construct_def FD_SETSIZE_def upto.simps recv_bits_def)
  have und: "select_undelivered ?d = [(max_fd ?d, 1)]"
    by (simp add: select_undelivered_def select_construct_def upto.simps recv_event_def event_if_def
        select_codes_def no_events_def)
  obtain d1 where "select_request (max_fd ?d) no_events ?d = (Inr (), d1)"
    using select_request_ok [OF ok, of "max_fd ?d" no_events]
    by (auto simp: fd_ok_def FD_SETSIZE_def event_valid_def)
  with select_remove_pending_aborts [OF ok ready und this] show ?thesis by auto
qed

end
