(* ===== verification/Poll_Demux.thy ===== *)
theory Poll_Demux
  imports Ioxx_Event_Set Ioxx_Signal Ioxx_Socket
begin

text \<open>
  The demultiplexer on \<open>poll(2)\<close>, \<open>include/ioxx/detail/poll.hpp\<close>: a vector of \<open>pollfd\<close> entries and
  a map from descriptors to positions in it.

  The member \<open>_iter\<close> of a socket is the map's node for its descriptor, that is, the key.  The counters
  \<open>_n_events\<close> and \<open>_current\<close> are natural numbers: the first is decremented only when it is positive,
  the second is bounded by the size of the vector.  Reading the vector out of its bounds is undefined
  behaviour.  Running out of memory is not modelled.
\<close>

unbundle bit_operations_syntax

definition POLLERR :: u16 where
  "POLLERR = 8"

definition POLLHUP :: u16 where
  "POLLHUP = 16"

definition POLLNVAL :: u16 where
  "POLLNVAL = 32"

definition POLLRDNORM :: u32 where
  "POLLRDNORM = 64"

definition POLLRDBAND :: u32 where
  "POLLRDBAND = 128"

definition POLLWRNORM :: u32 where
  "POLLWRNORM = 256"

definition poll_codes :: event_codes where
  "poll_codes = \<lparr>readable = 1, writable = 4, pridata = 2\<rparr>"

text \<open>The operators of the enumeration, which every demultiplexer declares for its own.\<close>

definition poll_event_or :: "u32 \<Rightarrow> u32 \<Rightarrow> u32" where
  "poll_event_or l r = l OR r"

definition poll_event_and :: "u32 \<Rightarrow> u32 \<Rightarrow> u32" where
  "poll_event_and l r = l AND r"

definition poll_event_show :: "u32 \<Rightarrow> string" where
  "poll_event_show ev =
     (if ev = no_events then ''None'' else '''') @ (if has_event ev (readable poll_codes) then ''Read'' else '''') @
     (if has_event ev (writable poll_codes) then ''Write'' else '''') @
     (if has_event ev (pridata poll_codes) then ''Pridata'' else '''')"

record pollfd =
  pfd_fd :: int
  pfd_events :: u16
  pfd_revents :: u16

record poll_demux =
  poll_pfd :: "pollfd list"
  poll_indices :: "int \<rightharpoonup> nat"
  poll_n_events :: nat
  poll_current :: nat

section \<open>Operations\<close>

definition poll_construct :: poll_demux where
  "poll_construct = \<lparr>poll_pfd = [], poll_indices = Map.empty, poll_n_events = 0, poll_current = 0\<rparr>"

definition poll_max_timeout :: u32 where
  "poll_max_timeout = word_of_int (INT_MAX div 1000)"

definition poll_empty :: "poll_demux \<Rightarrow> bool" where
  "poll_empty d \<longleftrightarrow> poll_n_events d = 0"

text \<open>\<open>check_consistency\<close> of the socket with descriptor \<open>s\<close>; the result is \<open>_iter->second\<close>.\<close>

definition poll_check_consistency :: "int \<Rightarrow> (poll_demux, nat) op" where
  "poll_check_consistency s d =
     then_op (assert_op (0 \<le> s))
       (case poll_indices d s of
          None \<Rightarrow> raise_op Undefined_behaviour
        | Some i \<Rightarrow> then_op (assert_op (i < length (poll_pfd d)))
                      (then_op (assert_op (pfd_fd (poll_pfd d ! i) = s)) (ret i))) d"

definition poll_request :: "int \<Rightarrow> u32 \<Rightarrow> (poll_demux, unit) op" where
  "poll_request s ev =
     bind_op (poll_check_consistency s)
       (\<lambda>i. modify_op (\<lambda>d. d\<lparr>poll_pfd := (poll_pfd d)[i := (poll_pfd d ! i)\<lparr>pfd_events := ucast ev\<rparr>]\<rparr>))"

text \<open>The bodies of the constructor and the destructor of the nested class \<open>socket\<close>.\<close>

definition poll_register :: "int \<Rightarrow> u32 \<Rightarrow> (poll_demux, unit) op" where
  "poll_register s ev =
     then_op (assert_op (0 \<le> s))
       (\<lambda>d. if poll_indices d s \<noteq> None then (Inl Assertion_failed, d)
            else on_exception
                   (then_op (modify_op (\<lambda>d. d\<lparr>poll_pfd := poll_pfd d @ [\<lparr>pfd_fd = s, pfd_events = 0, pfd_revents = 0\<rparr>]\<rparr>))
                      (poll_request s ev))
                   (\<lambda>d. d\<lparr>poll_indices := (poll_indices d)(s := None)\<rparr>)
                   (d\<lparr>poll_indices := (poll_indices d)(s \<mapsto> length (poll_pfd d))\<rparr>))"

definition poll_unregister :: "int \<Rightarrow> (poll_demux, unit) op" where
  "poll_unregister s =
     bind_op (poll_check_consistency s)
       (\<lambda>i d. then_op (assert_op (poll_pfd d \<noteq> []))
          (let last = length (poll_pfd d) - 1 in
           then_op
             (if i \<noteq> last
              then then_op (assert_op (i < last))
                (case poll_indices d (pfd_fd (poll_pfd d ! last)) of
                   None \<Rightarrow> raise_op Assertion_failed
                 | Some j \<Rightarrow> then_op (assert_op (j = last))
                     (modify_op (\<lambda>d. d\<lparr>poll_indices := (poll_indices d)(pfd_fd (poll_pfd d ! last) \<mapsto> i),
                                        poll_pfd := (poll_pfd d)[i := poll_pfd d ! last]\<rparr>)))
              else ret ())
             (modify_op (\<lambda>d. d\<lparr>poll_indices := (poll_indices d)(s := None), poll_pfd := take last (poll_pfd d)\<rparr>))) d)"

definition poll_socket_construct ::
  "'k sock_os \<Rightarrow> int \<Rightarrow> u32 \<Rightarrow> (poll_demux \<times> 'k world, system_socket) op" where
  "poll_socket_construct P s ev =
     bind_op (system_socket_construct s take_ownership)
       (\<lambda>sk. then_op (unwind_op (on_fst (poll_register s ev)) (on_snd (system_socket_destruct P sk))) (ret sk))"

definition poll_socket_destruct ::
  "'k sock_os \<Rightarrow> system_socket \<Rightarrow> (poll_demux \<times> 'k world, unit) op" where
  "poll_socket_destruct P sk =
     with_dtor (on_fst (poll_unregister (sock sk))) (on_snd (system_socket_destruct P sk))"

definition poll_event_of :: "u16 \<Rightarrow> u32" where
  "poll_event_of rv = normalize_events poll_codes POLLRDNORM POLLRDBAND POLLWRNORM (scast rv)"

function poll_pop_event :: "(poll_demux, (int \<times> u32) option) op" where
  "poll_pop_event d =
     (if poll_n_events d = 0 then (Inr None, d)
      else if length (poll_pfd d) \<le> poll_current d then (Inl Undefined_behaviour, d)
      else let p = poll_pfd d ! poll_current d; d1 = d\<lparr>poll_current := poll_current d + 1\<rparr> in
        if pfd_fd p < 0 then (Inl Assertion_failed, d1)
        else if pfd_revents p = 0 then poll_pop_event d1
        else (Inr (Some (pfd_fd p, poll_event_of (pfd_revents p))), d1\<lparr>poll_n_events := poll_n_events d - 1\<rparr>))"
  by pat_completeness auto
termination
  by (relation "measure (\<lambda>d. length (poll_pfd d) - poll_current d)") (auto simp: Let_def)

declare poll_pop_event.simps [simp del]

text \<open>\<open>ppoll\<close> takes its time-out in seconds, \<open>poll\<close> in milliseconds.  The answer is the return code
  and the \<open>revents\<close> fields the call stores.\<close>

datatype poll_timeout = Seconds u32 | Milliseconds int

type_synonym 'k sys_poll = "pollfd list \<Rightarrow> poll_timeout \<Rightarrow> sigset option \<Rightarrow> ('k, int \<times> u16 list) syscall"

definition store_revents :: "pollfd list \<Rightarrow> u16 list \<Rightarrow> pollfd list" where
  "store_revents ps rs = map (\<lambda>(p, r). p\<lparr>pfd_revents := r\<rparr>) (zip ps rs) @ drop (length rs) ps"

definition poll_wait ::
  "bool \<Rightarrow> 'k sigprocmask \<Rightarrow> 'k sys_poll \<Rightarrow> u32 \<Rightarrow> (poll_demux \<times> 'k world, unit) op" where
  "poll_wait have_ppoll spm sys timeout =
     then_op (assert_op (timeout \<le> poll_max_timeout))
       (\<lambda>(d, w). then_op (assert_op (poll_n_events d = 0))
          (then_op (guard_op (poll_pfd d \<noteq> []))
          (then_op (guard_op (have_ppoll \<or> in_int_range (sint timeout * 1000)))
            (bind_op (on_snd (signal_safe_call have_ppoll spm
                 (\<lambda>m. sys (poll_pfd d) (if have_ppoll then Seconds timeout else Milliseconds (sint timeout * 1000)) m)))
              (\<lambda>(rc, rs) (d, w).
                 let d1 = d\<lparr>poll_pfd := store_revents (poll_pfd d) rs\<rparr> in
                 if rc < 0 then
                   (if errno w = EINTR then (Inr (), (d1, w))
                    else (Inl (System_error (errno w) ''poll(2)''), (d1, w)))
                 else (Inr (), (d1\<lparr>poll_n_events := nat rc, poll_current := 0\<rparr>, w)))))) (d, w))"

section \<open>The event bits\<close>

interpretation poll_bits: event_bits poll_codes
  by unfold_locales (simp_all add: poll_codes_def)

section \<open>The invariant of the containers\<close>

text \<open>The map and the vector describe each other: a descriptor is mapped to the position that holds
  it.  It is what \<open>check_consistency\<close> asserts, of every socket at once.\<close>

definition poll_ok :: "poll_demux \<Rightarrow> bool" where
  "poll_ok d \<longleftrightarrow>
     (\<forall>s i. poll_indices d s = Some i \<longleftrightarrow> i < length (poll_pfd d) \<and> pfd_fd (poll_pfd d ! i) = s) \<and>
     (\<forall>i < length (poll_pfd d). 0 \<le> pfd_fd (poll_pfd d ! i))"

definition poll_interest :: "poll_demux \<Rightarrow> (int \<rightharpoonup> u16)" where
  "poll_interest d s = map_option (\<lambda>i. pfd_events (poll_pfd d ! i)) (poll_indices d s)"

lemma poll_construct_ok: "poll_ok poll_construct" "poll_interest poll_construct = Map.empty"
  by (auto simp: poll_ok_def poll_construct_def poll_interest_def)

lemma poll_okD:
  assumes "poll_ok d"
  shows "poll_indices d s = Some i \<longleftrightarrow> i < length (poll_pfd d) \<and> pfd_fd (poll_pfd d ! i) = s"
    and "i < length (poll_pfd d) \<Longrightarrow> 0 \<le> pfd_fd (poll_pfd d ! i)"
  using assms unfolding poll_ok_def by blast+

lemma poll_interest_Some: "poll_interest d s \<noteq> None \<longleftrightarrow> (\<exists>i. poll_indices d s = Some i)"
  by (auto simp: poll_interest_def)

lemma poll_check_ok [op_simps]:
  "poll_ok d \<Longrightarrow> poll_indices d s = Some i \<Longrightarrow> poll_check_consistency s d = (Inr i, d)"
  using poll_okD(1) [of d s i] poll_okD(2) [of d i] by (simp add: poll_check_consistency_def op_simps)

lemma poll_fd_unique:
  "poll_ok d \<Longrightarrow> i < length (poll_pfd d) \<Longrightarrow> j < length (poll_pfd d) \<Longrightarrow>
   pfd_fd (poll_pfd d ! i) = pfd_fd (poll_pfd d ! j) \<longleftrightarrow> i = j"
  using poll_okD(1) [of d] by (metis option.inject)

lemma poll_request_ok:
  assumes ok: "poll_ok d" and i: "poll_indices d s = Some i"
  shows "poll_request s ev d = (Inr (), d\<lparr>poll_pfd := (poll_pfd d)[i := (poll_pfd d ! i)\<lparr>pfd_events := ucast ev\<rparr>]\<rparr>)"
    and "poll_ok (d\<lparr>poll_pfd := (poll_pfd d)[i := (poll_pfd d ! i)\<lparr>pfd_events := e\<rparr>]\<rparr>)"
    and "poll_interest (d\<lparr>poll_pfd := (poll_pfd d)[i := (poll_pfd d ! i)\<lparr>pfd_events := e\<rparr>]\<rparr>) = (poll_interest d)(s \<mapsto> e)"
proof -
  have i': "i < length (poll_pfd d)" "pfd_fd (poll_pfd d ! i) = s" using poll_okD(1) [OF ok] i by auto
  show "poll_request s ev d = (Inr (), d\<lparr>poll_pfd := (poll_pfd d)[i := (poll_pfd d ! i)\<lparr>pfd_events := ucast ev\<rparr>]\<rparr>)"
    using ok i by (simp add: poll_request_def op_simps)
  let ?d = "d\<lparr>poll_pfd := (poll_pfd d)[i := (poll_pfd d ! i)\<lparr>pfd_events := e\<rparr>]\<rparr>"
  have fd: "pfd_fd (poll_pfd ?d ! j) = pfd_fd (poll_pfd d ! j)" if "j < length (poll_pfd d)" for j
    using that i' by (simp add: nth_list_update)
  show "poll_ok ?d"
    unfolding poll_ok_def using poll_okD [OF ok] fd by auto
  show "poll_interest ?d = (poll_interest d)(s \<mapsto> e)"
  proof (rule ext)
    fix t show "poll_interest ?d t = ((poll_interest d)(s \<mapsto> e)) t"
    proof (cases "poll_indices d t")
      case (Some j)
      then have "j < length (poll_pfd d)" "pfd_fd (poll_pfd d ! j) = t" using poll_okD(1) [OF ok] by auto
      then show ?thesis using Some i i' by (auto simp: poll_interest_def nth_list_update)
    qed (use i in \<open>auto simp: poll_interest_def\<close>)
  qed
qed

lemma poll_register_ok:
  assumes ok: "poll_ok d" and s: "0 \<le> s" and new: "poll_indices d s = None"
  shows "\<exists>d'. poll_register s ev d = (Inr (), d') \<and> poll_ok d' \<and> poll_interest d' = (poll_interest d)(s \<mapsto> ucast ev)"
proof -
  let ?n = "length (poll_pfd d)"
  let ?p = "\<lparr>pfd_fd = s, pfd_events = 0, pfd_revents = 0\<rparr>"
  let ?d = "d\<lparr>poll_indices := (poll_indices d)(s \<mapsto> ?n), poll_pfd := poll_pfd d @ [?p]\<rparr>"
  have fresh: "pfd_fd (poll_pfd d ! i) \<noteq> s" if "i < ?n" for i
    using poll_okD(1) [OF ok, of s i] new that by auto
  have ok1: "poll_ok ?d"
    unfolding poll_ok_def
    using poll_okD [OF ok] s fresh by (auto simp: nth_append less_Suc_eq)
  have i: "poll_indices ?d s = Some ?n" by simp
  have "poll_interest ?d = (poll_interest d)(s \<mapsto> 0)"
    using poll_okD(1) [OF ok] by (auto simp: poll_interest_def fun_eq_iff nth_append intro!: option.map_cong0)
  with poll_request_ok(1) [OF ok1 i, of ev] poll_request_ok(2,3) [OF ok1 i, of "ucast ev"] s new show ?thesis
    by (auto simp: poll_register_def op_simps)
qed

lemma poll_unregister_last:
  assumes ok: "poll_ok d" and i: "poll_indices d s = Some i" and l: "i = length (poll_pfd d) - 1"
  shows "poll_unregister s d = (Inr (), d\<lparr>poll_indices := (poll_indices d)(s := None), poll_pfd := take i (poll_pfd d)\<rparr>)"
proof -
  have "poll_pfd d \<noteq> []" using poll_okD(1) [OF ok, of s i] i by auto
  then show ?thesis using ok i l by (simp add: poll_unregister_def op_simps Let_def)
qed

lemma poll_unregister_inner:
  assumes ok: "poll_ok d" and i: "poll_indices d s = Some i" and l: "i < length (poll_pfd d) - 1"
  shows "poll_unregister s d = (Inr (), d\<lparr>
    poll_indices := (poll_indices d)(pfd_fd (last (poll_pfd d)) \<mapsto> i, s := None),
    poll_pfd := take (length (poll_pfd d) - 1) ((poll_pfd d)[i := last (poll_pfd d)])\<rparr>)"
proof -
  let ?l = "length (poll_pfd d) - 1"
  have ne: "poll_pfd d \<noteq> []" "i \<noteq> ?l" using l by auto
  have "poll_indices d (pfd_fd (poll_pfd d ! ?l)) = Some ?l"
    using poll_okD(1) [OF ok, of _ ?l] ne by simp
  then show ?thesis using ok i l ne by (simp add: poll_unregister_def op_simps Let_def last_conv_nth)
qed

lemma poll_unregister_ok:
  assumes ok: "poll_ok d" and i: "poll_indices d s = Some i"
  shows "\<exists>d'. poll_unregister s d = (Inr (), d') \<and> poll_ok d' \<and> poll_interest d' = (poll_interest d)(s := None)"
proof -
  let ?l = "length (poll_pfd d) - 1"
  have i': "i < length (poll_pfd d)" "pfd_fd (poll_pfd d ! i) = s" using poll_okD(1) [OF ok] i by auto
  then have ne: "poll_pfd d \<noteq> []" by auto
  note D = poll_okD [OF ok] and U = poll_fd_unique [OF ok]
  show ?thesis
  proof (cases "i = ?l")
    case True
    let ?d = "d\<lparr>poll_indices := (poll_indices d)(s := None), poll_pfd := take i (poll_pfd d)\<rparr>"
    have "poll_ok ?d"
      unfolding poll_ok_def using D i' True U by (auto simp: fun_upd_def)
    moreover have "poll_interest ?d = (poll_interest d)(s := None)"
    proof (rule ext)
      fix t
      have "poll_indices d t = Some j \<Longrightarrow> t \<noteq> s \<Longrightarrow> j < i" for j
        using D(1) [of t j] i' True by (metis One_nat_def Suc_pred length_greater_0_conv less_SucE ne)
      then show "poll_interest ?d t = ((poll_interest d)(s := None)) t"
        by (cases "poll_indices d t") (auto simp: poll_interest_def)
    qed
    ultimately show ?thesis using poll_unregister_last [OF ok i True] by blast
  next
    case False
    let ?t = "pfd_fd (last (poll_pfd d))"
    let ?ps = "take ?l ((poll_pfd d)[i := last (poll_pfd d)])"
    let ?d = "d\<lparr>poll_indices := (poll_indices d)(?t \<mapsto> i, s := None), poll_pfd := ?ps\<rparr>"
    have l: "i < ?l" using i' False by simp
    have t: "last (poll_pfd d) = poll_pfd d ! ?l" "?l < length (poll_pfd d)" using ne by (auto simp: last_conv_nth)
    have tl: "poll_indices d ?t = Some ?l" using D(1) t by auto
    then have ts: "?t \<noteq> s" using i l by auto
    have nth: "?ps ! j = (if j = i then poll_pfd d ! ?l else poll_pfd d ! j)" if "j < ?l" for j
      using that l t by (auto simp: nth_list_update)
    have iff: "poll_indices ?d u = Some j \<longleftrightarrow> j < length ?ps \<and> pfd_fd (?ps ! j) = u" for u j
    proof (cases "j < ?l")
      case True
      then have "j < length (poll_pfd d)" by simp
      with True l i' t ts nth [OF True] D(1) [of u j] U [of j i] U [of j ?l] show ?thesis by auto
    next
      case False
      then have "j < length (poll_pfd d) \<Longrightarrow> j = ?l" by arith
      with False l D(1) [of u j] t tl have "poll_indices ?d u \<noteq> Some j" by auto
      with False show ?thesis by simp
    qed
    moreover have "0 \<le> pfd_fd (?ps ! j)" if "j < length ?ps" for j
    proof -
      have "j < ?l" using that by simp
      then have "0 \<le> pfd_fd (poll_pfd d ! j)" "0 \<le> pfd_fd (poll_pfd d ! ?l)" using D(2) t by auto
      then show ?thesis unfolding nth [OF \<open>j < ?l\<close>] by simp
    qed
    moreover have "poll_pfd ?d = ?ps" by simp
    ultimately have "poll_ok ?d" unfolding poll_ok_def by metis
    moreover have "poll_interest ?d = (poll_interest d)(s := None)"
    proof (rule ext)
      fix u
      have "poll_indices d u = Some j \<Longrightarrow> u \<noteq> s \<Longrightarrow> u \<noteq> ?t \<Longrightarrow> j \<noteq> i \<and> j < ?l" for j
        using D(1) [of u j] i' t by (metis One_nat_def Suc_pred length_greater_0_conv less_SucE ne)
      then show "poll_interest ?d u = ((poll_interest d)(s := None)) u"
        using nth [OF l] tl ts nth by (cases "poll_indices d u") (auto simp: poll_interest_def)
    qed
    ultimately show ?thesis using poll_unregister_inner [OF ok i l] by blast
  qed
qed

interpretation poll_table: socket_table "\<lambda>s e. poll_register s (ucast (e :: u16))"
    "\<lambda>s e. poll_request s (ucast (e :: u16))" poll_unregister poll_interest poll_ok
proof unfold_locales
  fix d :: poll_demux and s and e :: u16
  have id: "ucast (ucast e :: u32) = e" by (simp add: ucast_up_ucast_id is_up)
  show "poll_ok d \<Longrightarrow> 0 \<le> s \<Longrightarrow> poll_interest d s = None \<Longrightarrow>
    \<exists>d'. poll_register s (ucast e) d = (Inr (), d') \<and> poll_ok d' \<and> poll_interest d' = (poll_interest d)(s \<mapsto> e)"
    using poll_register_ok [of d s "ucast e"] by (simp add: id poll_interest_def)
  show "poll_ok d \<Longrightarrow> poll_interest d s \<noteq> None \<Longrightarrow>
    \<exists>d'. poll_request s (ucast e) d = (Inr (), d') \<and> poll_ok d' \<and> poll_interest d' = (poll_interest d)(s \<mapsto> e)"
    using poll_request_ok [of d s] by (auto simp: id poll_interest_def)
  show "poll_ok d \<Longrightarrow> poll_interest d s \<noteq> None \<Longrightarrow>
    \<exists>d'. poll_unregister s d = (Inr (), d') \<and> poll_ok d' \<and> poll_interest d' = (poll_interest d)(s := None)"
    using poll_unregister_ok [of d s] by (auto simp: poll_interest_def)
qed

section \<open>Delivery of the events\<close>

abbreviation poll_pending :: "pollfd \<Rightarrow> bool" where
  "poll_pending p \<equiv> pfd_revents p \<noteq> 0"

definition poll_undelivered :: "poll_demux \<Rightarrow> (int \<times> u32) list" where
  "poll_undelivered d =
     (if poll_n_events d = 0 then []
      else map (\<lambda>p. (pfd_fd p, poll_event_of (pfd_revents p))) (filter poll_pending (drop (poll_current d) (poll_pfd d))))"

definition poll_ready :: "poll_demux \<Rightarrow> bool" where
  "poll_ready d \<longleftrightarrow> (\<forall>p \<in> set (poll_pfd d). 0 \<le> pfd_fd p) \<and>
     (poll_n_events d = 0 \<or> poll_n_events d = length (filter poll_pending (drop (poll_current d) (poll_pfd d))))"

lemma poll_pop_round:
  assumes ready: "poll_ready d" and n: "poll_n_events d \<noteq> 0"
  shows "\<exists>p. poll_current d < length (poll_pfd d) \<and> p = poll_pfd d ! poll_current d \<and>
    poll_pop_event d =
      (if pfd_revents p = 0 then poll_pop_event (d\<lparr>poll_current := poll_current d + 1\<rparr>)
       else (Inr (Some (pfd_fd p, poll_event_of (pfd_revents p))),
             d\<lparr>poll_current := poll_current d + 1, poll_n_events := poll_n_events d - 1\<rparr>)) \<and>
    poll_ready (d\<lparr>poll_current := poll_current d + 1, poll_n_events := poll_n_events d - of_bool (poll_pending p)\<rparr>) \<and>
    poll_undelivered d = (if pfd_revents p = 0 then [] else [(pfd_fd p, poll_event_of (pfd_revents p))]) @
      poll_undelivered (d\<lparr>poll_current := poll_current d + 1, poll_n_events := poll_n_events d - of_bool (poll_pending p)\<rparr>)"
proof -
  let ?p = "poll_pfd d ! poll_current d"
  let ?rest = "drop (Suc (poll_current d)) (poll_pfd d)"
  have len: "poll_n_events d = length (filter poll_pending (drop (poll_current d) (poll_pfd d)))"
    and fds: "\<forall>p \<in> set (poll_pfd d). 0 \<le> pfd_fd p"
    using ready n by (auto simp: poll_ready_def)
  have cur: "poll_current d < length (poll_pfd d)"
    using len n by (cases "poll_current d < length (poll_pfd d)") auto
  then have split: "drop (poll_current d) (poll_pfd d) = ?p # ?rest" by (simp add: Cons_nth_drop_Suc)
  have fd: "0 \<le> pfd_fd ?p" using fds cur by simp
  have count: "poll_n_events d - of_bool (poll_pending ?p) = length (filter poll_pending ?rest)"
    using len by (simp add: split)
  have empty: "filter poll_pending ?rest = []" if "poll_n_events d - of_bool (poll_pending ?p) = 0"
    using count that by simp
  have "poll_ready (d\<lparr>poll_current := poll_current d + 1, poll_n_events := poll_n_events d - of_bool (poll_pending ?p)\<rparr>)"
    using fds count by (auto simp: poll_ready_def)
  moreover have "poll_undelivered d = (if pfd_revents ?p = 0 then [] else [(pfd_fd ?p, poll_event_of (pfd_revents ?p))]) @
      poll_undelivered (d\<lparr>poll_current := poll_current d + 1, poll_n_events := poll_n_events d - of_bool (poll_pending ?p)\<rparr>)"
    using n empty by (auto simp: poll_undelivered_def split)
  moreover have "poll_pop_event d =
      (if pfd_revents ?p = 0 then poll_pop_event (d\<lparr>poll_current := poll_current d + 1\<rparr>)
       else (Inr (Some (pfd_fd ?p, poll_event_of (pfd_revents ?p))),
             d\<lparr>poll_current := poll_current d + 1, poll_n_events := poll_n_events d - 1\<rparr>))"
    using n cur fd by (simp add: poll_pop_event.simps [of d] Let_def)
  ultimately show ?thesis using cur by blast
qed

lemma poll_pop_cases:
  "poll_ready d \<Longrightarrow>
   (poll_undelivered d = [] \<longrightarrow>
      (\<exists>d'. poll_pop_event d = (Inr None, d') \<and> poll_ready d' \<and> poll_undelivered d' = [])) \<and>
   (\<forall>x xs. poll_undelivered d = x # xs \<longrightarrow>
      (\<exists>d'. poll_pop_event d = (Inr (Some x), d') \<and> poll_ready d' \<and> poll_undelivered d' = xs))"
proof (induction "length (poll_pfd d) - poll_current d" arbitrary: d rule: less_induct)
  case less
  show ?case
  proof (cases "poll_n_events d = 0")
    case True
    then have "poll_pop_event d = (Inr None, d)" by (simp add: poll_pop_event.simps [of d])
    with True less.prems show ?thesis by (simp add: poll_undelivered_def)
  next
    case False
    from poll_pop_round [OF less.prems False] obtain p where
      cur: "poll_current d < length (poll_pfd d)" and
      pop: "poll_pop_event d =
        (if pfd_revents p = 0 then poll_pop_event (d\<lparr>poll_current := poll_current d + 1\<rparr>)
         else (Inr (Some (pfd_fd p, poll_event_of (pfd_revents p))),
               d\<lparr>poll_current := poll_current d + 1, poll_n_events := poll_n_events d - 1\<rparr>))" and
      next_ready: "poll_ready (d\<lparr>poll_current := poll_current d + 1, poll_n_events := poll_n_events d - of_bool (poll_pending p)\<rparr>)" and
      und: "poll_undelivered d = (if pfd_revents p = 0 then [] else [(pfd_fd p, poll_event_of (pfd_revents p))]) @
        poll_undelivered (d\<lparr>poll_current := poll_current d + 1, poll_n_events := poll_n_events d - of_bool (poll_pending p)\<rparr>)"
      by blast
    show ?thesis
    proof (cases "pfd_revents p = 0")
      case True
      let ?d = "d\<lparr>poll_current := poll_current d + 1\<rparr>"
      have "poll_ready ?d" "poll_undelivered ?d = poll_undelivered d" using next_ready und True by simp_all
      with less.hyps [of ?d] cur pop True show ?thesis by (simp add: diff_less_mono2)
    qed (use pop next_ready und in auto)
  qed
qed

interpretation poll_source: event_source poll_pop_event poll_undelivered poll_ready
proof unfold_locales
  fix d :: poll_demux and x
  assume "poll_ready d" "x \<in> set (poll_undelivered d)"
  then show "0 \<le> fst x"
    by (auto simp: poll_ready_def poll_undelivered_def split: if_splits dest: in_set_dropD)
qed (use poll_pop_cases in blast)+

section \<open>What \<open>wait\<close> leaves behind\<close>

text \<open>The documented behaviour of \<open>poll(2)\<close>: on success it sets the \<open>revents\<close> field of every entry,
  to events that were asked for and error conditions only, and answers the number of entries whose
  field is not zero.\<close>

definition poll_law :: "'k sys_poll \<Rightarrow> bool" where
  "poll_law sys \<longleftrightarrow> (\<forall>ps to m w rc rs w'. sys ps to m w = ((rc, rs), w') \<longrightarrow> 0 \<le> rc \<longrightarrow>
     length rs = length ps \<and> rc = int (length (filter (\<lambda>r. r \<noteq> 0) rs)) \<and>
     (\<forall>i < length ps. rs ! i AND NOT (pfd_events (ps ! i) OR POLLERR OR POLLHUP OR POLLNVAL) = 0))"

lemma store_revents_all:
  assumes "length rs = length ps"
  shows "length (store_revents ps rs) = length ps"
    and "i < length ps \<Longrightarrow> store_revents ps rs ! i = (ps ! i)\<lparr>pfd_revents := rs ! i\<rparr>"
    and "length (filter poll_pending (store_revents ps rs)) = length (filter (\<lambda>r. r \<noteq> 0) rs)"
proof -
  show "length (store_revents ps rs) = length ps"
    "i < length ps \<Longrightarrow> store_revents ps rs ! i = (ps ! i)\<lparr>pfd_revents := rs ! i\<rparr>"
    using assms by (simp_all add: store_revents_def)
  show "length (filter poll_pending (store_revents ps rs)) = length (filter (\<lambda>r. r \<noteq> 0) rs)"
    using assms by (induction rs ps rule: list_induct2) (auto simp: store_revents_def)
qed

lemma poll_ok_update:
  assumes ok: "poll_ok d" and len: "length ps = length (poll_pfd d)"
    and same: "\<And>i. i < length ps \<Longrightarrow> \<exists>r. ps ! i = (poll_pfd d ! i)\<lparr>pfd_revents := r\<rparr>"
  shows "poll_ok (d\<lparr>poll_pfd := ps, poll_n_events := n, poll_current := c\<rparr>)"
    and "poll_interest (d\<lparr>poll_pfd := ps, poll_n_events := n, poll_current := c\<rparr>) = poll_interest d"
proof -
  have fd: "pfd_fd (ps ! i) = pfd_fd (poll_pfd d ! i)" "pfd_events (ps ! i) = pfd_events (poll_pfd d ! i)"
    if "i < length ps" for i using same [OF that] by auto
  show "poll_ok (d\<lparr>poll_pfd := ps, poll_n_events := n, poll_current := c\<rparr>)"
    unfolding poll_ok_def using poll_okD [OF ok] fd len by auto
  show "poll_interest (d\<lparr>poll_pfd := ps, poll_n_events := n, poll_current := c\<rparr>) = poll_interest d"
  proof (rule ext)
    fix s show "poll_interest (d\<lparr>poll_pfd := ps, poll_n_events := n, poll_current := c\<rparr>) s = poll_interest d s"
      using fd poll_okD(1) [OF ok, of s] len by (cases "poll_indices d s") (auto simp: poll_interest_def)
  qed
qed

lemma poll_wait_ready:
  assumes ok: "poll_ok d" and law: "poll_law sys"
    and wait: "poll_wait hv spm sys timeout (d, w) = (Inr (), (d', w'))" and more: "poll_n_events d' \<noteq> 0"
  shows "poll_ready d' \<and> poll_ok d' \<and> poll_interest d' = poll_interest d \<and> poll_current d' = 0 \<and>
    map pfd_fd (poll_pfd d') = map pfd_fd (poll_pfd d) \<and>
    (\<forall>i < length (poll_pfd d). pfd_revents (poll_pfd d' ! i) AND
       NOT (pfd_events (poll_pfd d ! i) OR POLLERR OR POLLHUP OR POLLNVAL) = 0)"
proof -
  let ?sys = "\<lambda>m. sys (poll_pfd d) (if hv then Seconds timeout else Milliseconds (sint timeout * 1000)) m"
  from wait more obtain rc rs w1 where n0: "poll_n_events d = 0"
      and call: "signal_safe_call hv spm ?sys w = (Inr (rc, rs), w1)"
      and d': "d' = (let d1 = d\<lparr>poll_pfd := store_revents (poll_pfd d) rs\<rparr>
        in if rc < 0 then d1 else d1\<lparr>poll_n_events := nat rc, poll_current := 0\<rparr>)"
    by (auto simp: poll_wait_def on_snd_def op_defs Let_def split: prod.splits sum.splits if_splits)
  have rc: "\<not> rc < 0" using d' n0 more by (auto simp: Let_def)
  obtain m w0 w2 where "?sys m w0 = ((rc, rs), w2)"
    using signal_safe_call_from_call [OF call] by blast
  with law rc have r: "length rs = length (poll_pfd d)" "rc = int (length (filter (\<lambda>r. r \<noteq> 0) rs))"
      "\<forall>i < length (poll_pfd d). rs ! i AND NOT (pfd_events (poll_pfd d ! i) OR POLLERR OR POLLHUP OR POLLNVAL) = 0"
    unfolding poll_law_def by (metis not_less)+
  note st = store_revents_all [OF r(1)]
  have d'': "d' = d\<lparr>poll_pfd := store_revents (poll_pfd d) rs, poll_n_events := nat rc, poll_current := 0\<rparr>"
    using rc by (simp add: d')
  have upd: "poll_ok d'" "poll_interest d' = poll_interest d"
    unfolding d'' using st by (auto intro!: poll_ok_update [OF ok])
  have "\<forall>p \<in> set (poll_pfd d'). 0 \<le> pfd_fd p"
    using poll_okD(2) [OF upd(1)] by (auto simp: in_set_conv_nth)
  then have "poll_ready d'"
    using st(3) r(2) by (simp add: poll_ready_def d'')
  moreover have "map pfd_fd (poll_pfd d') = map pfd_fd (poll_pfd d)"
    using st by (intro nth_equalityI) (auto simp: d'')
  ultimately show ?thesis using upd st r by (auto simp: d'')
qed

text \<open>The multiplication of the time-out does not overflow.\<close>

lemma poll_timeout_range:
  assumes "timeout \<le> poll_max_timeout"
  shows "in_int_range (sint timeout * 1000) \<and> sint timeout = uint timeout"
proof -
  have "uint timeout \<le> 2147483"
    using assms by (simp add: word_le_def poll_max_timeout_def INT_MAX_def)
  moreover then have "sint timeout = uint timeout"
    using signed_take_bit_int_eq_self [of 31 "uint timeout"] uint_ge_0 [of timeout]
    by (simp add: sint_uint del: uint_ge_0)
  moreover have "0 \<le> uint timeout * 1000" by simp
  ultimately show ?thesis unfolding in_int_range_def INT_MAX_def by linarith
qed

section \<open>Properties\<close>

text \<open>
  C2.  The vector and the map stay consistent under every sequence of registrations, changes and
  removals, in any order, that registers a socket at most once and changes or removes only registered
  ones: no assertion fires, no iterator dangles, and the entries describe exactly the sockets
  registered and the events each was last asked for.  The removal, which moves the last entry of the
  vector into the gap and redirects its index, loses nothing.
\<close>

theorem poll_registrations_consistent:
  assumes "registrations_allowed rs {}"
  shows "\<exists>d. run_registrations (\<lambda>s e. poll_register s (ucast (e :: u16))) (\<lambda>s e. poll_request s (ucast e))
      poll_unregister rs poll_construct = (Inr (), d) \<and> poll_ok d \<and>
    poll_interest d = registered rs Map.empty"
  using poll_table.run_registrations_refine [OF poll_construct_ok(1), of rs] assms
  unfolding poll_construct_ok(2) by simp

theorem poll_registrations_consistent_witness:
  "\<exists>d. run_registrations (\<lambda>s e. poll_register s (ucast (e :: u16))) (\<lambda>s e. poll_request s (ucast e))
      poll_unregister [Register 4 1, Register 9 5, Register 7 0, Change 7 4, Unregister 4] poll_construct = (Inr (), d) \<and>
    poll_interest d = [9 \<mapsto> 5, 7 \<mapsto> 4]"
  using poll_registrations_consistent [of "[Register 4 1, Register 9 5, Register 7 0, Change 7 4, Unregister 4]"]
  by (auto simp: fun_eq_iff)

text \<open>
  C27.  After a \<open>wait\<close> that returned with events, \<open>pop_event\<close> delivers every entry the kernel marked,
  once, in the order of the vector, and then answers false; the registrations are as before.
\<close>

theorem poll_delivers_what_the_kernel_reports:
  assumes ok: "poll_ok d" and law: "poll_law sys"
    and wait: "poll_wait hv spm sys timeout (d, w) = (Inr (), (d', w'))" and more: "poll_n_events d' \<noteq> 0"
    and n: "length (poll_pfd d) \<le> n"
  shows "pop_times poll_pop_event n d' =
      map (\<lambda>p. (pfd_fd p, poll_event_of (pfd_revents p))) (filter poll_pending (poll_pfd d')) \<and>
    map pfd_fd (poll_pfd d') = map pfd_fd (poll_pfd d) \<and> poll_interest d' = poll_interest d"
proof -
  note ready = poll_wait_ready [OF ok law wait more]
  then have und: "poll_undelivered d' =
      map (\<lambda>p. (pfd_fd p, poll_event_of (pfd_revents p))) (filter poll_pending (poll_pfd d'))"
    using more by (simp add: poll_undelivered_def)
  have "length (poll_pfd d') = length (poll_pfd d)" using ready by (metis length_map)
  then have "length (poll_undelivered d') \<le> n"
    unfolding und using n length_filter_le [of poll_pending "poll_pfd d'"] by simp
  with ready have "pop_times poll_pop_event n d' = poll_undelivered d'"
    by (intro poll_source.pop_times_all) auto
  with und ready show ?thesis by simp
qed

definition all_ready :: "unit sys_poll" where
  "all_ready ps to m w = ((int (length (filter (\<lambda>r. r \<noteq> 0) (map pfd_events ps))), map pfd_events ps), w)"

definition two_sockets :: poll_demux where
  "two_sockets = poll_construct\<lparr>poll_pfd := [\<lparr>pfd_fd = 8, pfd_events = 4, pfd_revents = 0\<rparr>,
     \<lparr>pfd_fd = 3, pfd_events = 1, pfd_revents = 0\<rparr>], poll_indices := [8 \<mapsto> 0, 3 \<mapsto> 1]\<rparr>"

lemma two_sockets_ok: "poll_ok two_sockets"
  by (auto simp: poll_ok_def two_sockets_def less_Suc_eq nth_Cons')

theorem poll_delivers_what_the_kernel_reports_witness:
  "pop_times poll_pop_event 2 (fst (snd (poll_wait True (\<lambda>_ w. ((0, {}), w)) all_ready 10
     (two_sockets, \<lparr>errno = 0, os = ()\<rparr>)))) = [(8, poll_event_of 4), (3, poll_event_of 1)]"
proof -
  let ?d = "two_sockets\<lparr>poll_pfd := [\<lparr>pfd_fd = 8, pfd_events = 4, pfd_revents = 4\<rparr>,
     \<lparr>pfd_fd = 3, pfd_events = 1, pfd_revents = 1\<rparr>], poll_n_events := 2\<rparr>"
  let ?w = "\<lparr>errno = 0, os = ()\<rparr>"
  have law: "poll_law all_ready"
    by (auto simp: poll_law_def all_ready_def bit_eq_iff bit_simps)
  have wait: "poll_wait True (\<lambda>_ w. ((0, {}), w)) all_ready 10 (two_sockets, ?w) = (Inr (), (?d, ?w))"
    by (simp add: poll_wait_def op_defs on_snd_def signal_safe_call_def all_ready_def two_sockets_def
        poll_max_timeout_def INT_MAX_def poll_construct_def store_revents_def)
  show ?thesis
    using poll_delivers_what_the_kernel_reports [OF two_sockets_ok law wait, of 2]
    by (simp add: wait) (simp add: two_sockets_def)
qed

text \<open>
  How the bits of \<open>revents\<close> are read: normal data and plain readability make \<open>readable\<close>,
  priority band data and \<open>POLLPRI\<close> make \<open>pridata\<close>, \<open>POLLWRNORM\<close> and \<open>POLLOUT\<close> make \<open>writable\<close>, and
  a report of error conditions alone (\<open>POLLERR\<close>, \<open>POLLHUP\<close>, \<open>POLLNVAL\<close>) is delivered as \<open>no_events\<close>,
  which no demultiplexer's user expects.
\<close>

theorem poll_event_bits:
  "event_bits_of poll_codes (poll_event_of rv) = (bit rv 0 \<or> bit rv 6, bit rv 2 \<or> bit rv 8, bit rv 1 \<or> bit rv 7) \<and>
   poll_event_of (POLLERR OR POLLHUP OR POLLNVAL) = no_events"
proof -
  have b: "bit (scast rv :: u32) n = bit rv n" if "n < 15" for n
    using that by (simp add: bit_signed_iff)
  show ?thesis
    using normalize_events_bits [of poll_codes "scast rv"] normalize_events_none [of poll_codes "scast (56 :: u16)"]
    by (simp add: event_bits_of_def poll_event_of_def POLLRDNORM_def POLLRDBAND_def POLLWRNORM_def b
        POLLERR_def POLLHUP_def POLLNVAL_def poll_codes_def)
qed

text \<open>
  With an admissible time-out and at least one socket, \<open>wait\<close> either returns or throws the
  \<open>system_error\<close> of a call that failed for another reason than a signal; its assertions hold and the
  conversion of the time-out to milliseconds stays within the range of an \<open>int\<close>.
\<close>

theorem poll_wait_outcomes:
  assumes timeout: "timeout \<le> poll_max_timeout" and idle: "poll_n_events d = 0"
    and some: "poll_pfd d \<noteq> []" and law: "sigprocmask_law mask_of spm"
  shows "\<exists>r d' w'. poll_wait hv spm sys timeout (d, w) = (r, (d', w')) \<and>
    (r = Inr () \<or> r = Inl (System_error (errno w') ''poll(2)'') \<and> errno w' \<noteq> EINTR)"
proof -
  let ?sys = "\<lambda>m. sys (poll_pfd d) (if hv then Seconds timeout else Milliseconds (sint timeout * 1000)) m"
  obtain rc rs w2 where call: "signal_safe_call hv spm ?sys w = (Inr (rc, rs), w2)"
    using signal_safe_call_law [OF law refl, of hv ?sys w] by (metis surj_pair)
  show ?thesis
    using timeout idle some poll_timeout_range [OF timeout]
    by (auto simp: poll_wait_def op_defs on_snd_def call Let_def)
qed

theorem poll_wait_outcomes_witness:
  "\<exists>r d' w'. poll_wait False mask_kernel (\<lambda>ps to m w. ((-1, []), w\<lparr>errno := 12\<rparr>)) 60 (two_sockets, \<lparr>errno = 0, os = {}\<rparr>)
     = (r, (d', w')) \<and> (r = Inr () \<or> r = Inl (System_error (errno w') ''poll(2)'') \<and> errno w' \<noteq> EINTR)"
  by (rule poll_wait_outcomes [where mask_of = "\<lambda>m. m"])
    (simp_all add: poll_max_timeout_def INT_MAX_def two_sockets_def poll_construct_def sigprocmask_law_def mask_kernel_def)

lemma poll_pop_overrun:
  "poll_n_events d \<noteq> 0 \<Longrightarrow> \<forall>i \<in> {poll_current d..<length (poll_pfd d)}. 0 \<le> pfd_fd (poll_pfd d ! i) \<and> pfd_revents (poll_pfd d ! i) = 0 \<Longrightarrow>
   fst (poll_pop_event d) = Inl Undefined_behaviour"
proof (induction "length (poll_pfd d) - poll_current d" arbitrary: d rule: less_induct)
  case less
  show ?case
  proof (cases "poll_current d < length (poll_pfd d)")
    case False
    with less.prems show ?thesis by (simp add: poll_pop_event.simps [of d])
  next
    case True
    let ?d = "d\<lparr>poll_current := poll_current d + 1\<rparr>"
    have "0 \<le> pfd_fd (poll_pfd d ! poll_current d)" "pfd_revents (poll_pfd d ! poll_current d) = 0"
      using less.prems(2) True by simp_all
    then have "poll_pop_event d = poll_pop_event ?d"
      using less.prems(1) True by (simp add: poll_pop_event.simps [of d] Let_def not_less)
    moreover have "fst (poll_pop_event ?d) = Inl Undefined_behaviour"
      using less.prems True by (intro less.hyps) auto
    ultimately show ?thesis by simp
  qed
qed

text \<open>
  Removing a socket while events are pending breaks their delivery.  When the last entry of the
  vector is the only one with an undelivered event, and it is removed, or moved into the place of a
  socket that has been looked at already, \<open>_n_events\<close> stays positive, \<open>pop_event\<close> finds no entry
  for it and reads beyond the end of the vector.
\<close>

theorem poll_remove_pending_undefined:
  assumes ok: "poll_ok d" and ready: "poll_ready d"
    and only: "poll_undelivered d = [(pfd_fd (last (poll_pfd d)), ev)]"
    and i: "poll_indices d s = Some i" "i < poll_current d \<or> i = length (poll_pfd d) - 1"
  shows "\<exists>d1. poll_unregister s d = (Inr (), d1) \<and> fst (poll_pop_event d1) = Inl Undefined_behaviour"
proof -
  let ?l = "length (poll_pfd d) - 1"
  have n: "poll_n_events d \<noteq> 0" using only by (auto simp: poll_undelivered_def split: if_splits)
  have i': "i < length (poll_pfd d)" using poll_okD(1) [OF ok] i by auto
  have ne: "poll_pfd d \<noteq> []" using i' by auto
  then have last: "last (poll_pfd d) = poll_pfd d ! ?l" by (rule last_conv_nth)
  have quiet: "pfd_revents (poll_pfd d ! j) = 0" if "poll_current d \<le> j" "j < ?l" for j
  proof (rule ccontr)
    assume pend: "pfd_revents (poll_pfd d ! j) \<noteq> 0"
    have "poll_pfd d ! j = drop (poll_current d) (poll_pfd d) ! (j - poll_current d)"
      using that by simp
    also have "\<dots> \<in> set (drop (poll_current d) (poll_pfd d))"
      using that by (intro nth_mem) simp
    finally have "pfd_fd (poll_pfd d ! j) \<in> fst ` set (poll_undelivered d)"
      using pend n by (force simp: poll_undelivered_def)
    moreover have "j < length (poll_pfd d)" "?l < length (poll_pfd d)" using that by linarith+
    ultimately have "j = ?l" using only last poll_fd_unique [OF ok, of j ?l] by simp
    with that show False by simp
  qed
  show ?thesis
  proof (cases "i = ?l")
    case True
    let ?d = "d\<lparr>poll_indices := (poll_indices d)(s := None), poll_pfd := take i (poll_pfd d)\<rparr>"
    have "fst (poll_pop_event ?d) = Inl Undefined_behaviour"
      using n quiet True poll_okD(2) [OF ok] by (intro poll_pop_overrun) auto
    then show ?thesis using poll_unregister_last [OF ok i(1) True] by blast
  next
    case False
    with i' have l: "i < ?l" by simp
    let ?ps = "take ?l ((poll_pfd d)[i := last (poll_pfd d)])"
    let ?d = "d\<lparr>poll_indices := (poll_indices d)(pfd_fd (last (poll_pfd d)) \<mapsto> i, s := None), poll_pfd := ?ps\<rparr>"
    have "?ps ! j = poll_pfd d ! j" if "poll_current d \<le> j" "j < ?l" for j
      using that i(2) False by auto
    then have "fst (poll_pop_event ?d) = Inl Undefined_behaviour"
      using n quiet poll_okD(2) [OF ok] by (intro poll_pop_overrun) auto
    then show ?thesis using poll_unregister_inner [OF ok i(1) l] by blast
  qed
qed

theorem poll_remove_pending_undefined_witness:
  "\<exists>d1. poll_unregister 8 (two_sockets\<lparr>poll_pfd := [\<lparr>pfd_fd = 8, pfd_events = 4, pfd_revents = 0\<rparr>,
     \<lparr>pfd_fd = 3, pfd_events = 1, pfd_revents = 1\<rparr>], poll_n_events := 1, poll_current := 1\<rparr>) = (Inr (), d1) \<and>
     fst (poll_pop_event d1) = Inl Undefined_behaviour"
proof (rule poll_remove_pending_undefined [where i = 0 and ev = "poll_event_of 1"], goal_cases)
  case 1
  show ?case by (auto simp: poll_ok_def two_sockets_def less_Suc_eq nth_Cons')
qed (auto simp: poll_ready_def poll_undelivered_def two_sockets_def)

end
