(* ===== verification/Epoll_Demux.thy ===== *)
theory Epoll_Demux
  imports Ioxx_Event_Set Ioxx_Signal Ioxx_Socket
begin

text \<open>
  The demultiplexer on \<open>epoll(7)\<close>, \<open>include/ioxx/detail/epoll.hpp\<close>.

  The kernel keeps the sockets that are watched; the object keeps the descriptor of the epoll
  instance and an array of 128 events that \<open>epoll_wait\<close> fills.  The epoll calls are the fields of a
  record.  The counters are natural numbers: \<open>_n_events\<close> is decremented only when it is positive, and
  \<open>_current\<close> counts the deliveries since the last \<open>wait\<close>.
\<close>

unbundle bit_operations_syntax

definition EPOLLERR :: u32 where
  "EPOLLERR = 8"

definition EPOLLHUP :: u32 where
  "EPOLLHUP = 16"

definition EPOLLRDNORM :: u32 where
  "EPOLLRDNORM = 64"

definition EPOLLRDBAND :: u32 where
  "EPOLLRDBAND = 128"

definition EPOLLWRNORM :: u32 where
  "EPOLLWRNORM = 256"

definition EPOLL_CTL_ADD :: int where
  "EPOLL_CTL_ADD = 1"

definition EPOLL_CTL_DEL :: int where
  "EPOLL_CTL_DEL = 2"

definition EPOLL_CTL_MOD :: int where
  "EPOLL_CTL_MOD = 3"

definition epoll_codes :: event_codes where
  "epoll_codes = \<lparr>readable = 1, writable = 4, pridata = 2\<rparr>"

text \<open>The operators of the enumeration, which every demultiplexer declares for its own.\<close>

definition epoll_event_or :: "u32 \<Rightarrow> u32 \<Rightarrow> u32" where
  "epoll_event_or l r = l OR r"

definition epoll_event_and :: "u32 \<Rightarrow> u32 \<Rightarrow> u32" where
  "epoll_event_and l r = l AND r"

definition epoll_event_show :: "u32 \<Rightarrow> string" where
  "epoll_event_show ev =
     (if ev = no_events then ''None'' else '''') @ (if has_event ev (readable epoll_codes) then ''Read'' else '''') @
     (if has_event ev (writable epoll_codes) then ''Write'' else '''') @
     (if has_event ev (pridata epoll_codes) then ''Pridata'' else '''')"

record epoll_event =
  ev_events :: u32
  ev_fd :: int

record epoll_demux =
  epoll_fd :: int
  epoll_events :: "epoll_event list"
  epoll_n_events :: nat
  epoll_current :: nat

text \<open>\<open>epoll_wait\<close> and \<open>epoll_pwait\<close> take the descriptor, the size of the array, the time-out in
  milliseconds and the signal mask, and answer the return code and the events they store.\<close>

record 'k epoll_os =
  sys_epoll_create :: "int \<Rightarrow> ('k, int) syscall"
  sys_epoll_ctl :: "int \<Rightarrow> int \<Rightarrow> int \<Rightarrow> epoll_event \<Rightarrow> ('k, int) syscall"
  sys_epoll_wait :: "int \<Rightarrow> int \<Rightarrow> int \<Rightarrow> sigset option \<Rightarrow> ('k, int \<times> epoll_event list) syscall"

section \<open>Operations\<close>

definition EVENTS_SIZE :: nat where
  "EVENTS_SIZE = 128"

definition epoll_max_timeout :: u32 where
  "epoll_max_timeout = word_of_int (INT_MAX div 1000)"

definition epoll_construct :: "'k epoll_os \<Rightarrow> u32 \<Rightarrow> ('k world, epoll_demux) op" where
  "epoll_construct E size_hint =
     (let size_hint = min size_hint (word_of_int INT_MAX) in
      bind_op (throw_errno_if_minus1 ''create epoll socket'' (sys_epoll_create E (sint size_hint)))
        (\<lambda>fd. ret \<lparr>epoll_fd = fd, epoll_events = replicate EVENTS_SIZE \<lparr>ev_events = 0, ev_fd = 0\<rparr>,
                   epoll_n_events = 0, epoll_current = 0\<rparr>))"

definition epoll_destruct :: "'k sock_os \<Rightarrow> (epoll_demux \<times> 'k world, unit) op" where
  "epoll_destruct P =
     (\<lambda>(d, w). on_snd (bind_op (throw_errno_if_minus1 ''close epoll socket'' (sys_close P (epoll_fd d))) (\<lambda>_. ret ())) (d, w))"

definition epoll_empty :: "epoll_demux \<Rightarrow> bool" where
  "epoll_empty d \<longleftrightarrow> epoll_n_events d = 0"

definition epoll_register :: "'k epoll_os \<Rightarrow> int \<Rightarrow> u32 \<Rightarrow> (epoll_demux \<times> 'k world, unit) op" where
  "epoll_register E s ev =
     then_op (assert_op (0 \<le> s))
       (\<lambda>(d, w). on_snd (bind_op (throw_errno_if_minus1 ''add socket into epoll''
            (sys_epoll_ctl E (epoll_fd d) EPOLL_CTL_ADD s \<lparr>ev_events = ev, ev_fd = s\<rparr>)) (\<lambda>_. ret ())) (d, w))"

text \<open>When the constructor of \<open>socket\<close> throws, its base class, which owns the descriptor, is destroyed.\<close>

definition epoll_socket_construct ::
  "'k sock_os \<Rightarrow> 'k epoll_os \<Rightarrow> int \<Rightarrow> u32 \<Rightarrow> (epoll_demux \<times> 'k world, system_socket) op" where
  "epoll_socket_construct P E s ev =
     bind_op (system_socket_construct s take_ownership)
       (\<lambda>sk. then_op (unwind_op (epoll_register E s ev) (on_snd (system_socket_destruct P sk))) (ret sk))"

definition epoll_unregister :: "'k epoll_os \<Rightarrow> system_socket \<Rightarrow> (epoll_demux \<times> 'k world, unit) op" where
  "epoll_unregister E sk =
     (if get_close_on_destruction sk then ret ()
      else (\<lambda>(d, w). on_snd (bind_op (throw_errno_if_minus1 ''del socket from epoll''
            (sys_epoll_ctl E (epoll_fd d) EPOLL_CTL_DEL (sock sk) \<lparr>ev_events = 0, ev_fd = sock sk\<rparr>)) (\<lambda>_. ret ())) (d, w)))"

definition epoll_socket_destruct ::
  "'k sock_os \<Rightarrow> 'k epoll_os \<Rightarrow> system_socket \<Rightarrow> (epoll_demux \<times> 'k world, unit) op" where
  "epoll_socket_destruct P E sk =
     with_dtor (epoll_unregister E sk) (on_snd (system_socket_destruct P sk))"

definition epoll_request :: "'k epoll_os \<Rightarrow> int \<Rightarrow> u32 \<Rightarrow> (epoll_demux \<times> 'k world, unit) op" where
  "epoll_request E s ev =
     (\<lambda>(d, w). on_snd (bind_op (throw_errno_if_minus1 ''modify socket in epoll''
            (sys_epoll_ctl E (epoll_fd d) EPOLL_CTL_MOD s \<lparr>ev_events = ev, ev_fd = s\<rparr>)) (\<lambda>_. ret ())) (d, w))"

definition epoll_event_of :: "u32 \<Rightarrow> u32" where
  "epoll_event_of ev = normalize_events epoll_codes EPOLLRDNORM EPOLLRDBAND EPOLLWRNORM ev"

definition epoll_pop_event :: "(epoll_demux, (int \<times> u32) option) op" where
  "epoll_pop_event d =
     (if epoll_n_events d = 0 then (Inr None, d)
      else if length (epoll_events d) \<le> epoll_current d then (Inl Undefined_behaviour, d)
      else let e = epoll_events d ! epoll_current d; ev = epoll_event_of (ev_events e) in
        if ev = no_events then (Inl Assertion_failed, d)
        else (Inr (Some (ev_fd e, ev)),
              d\<lparr>epoll_n_events := epoll_n_events d - 1, epoll_current := epoll_current d + 1\<rparr>))"

definition epoll_wait ::
  "bool \<Rightarrow> 'k sigprocmask \<Rightarrow> 'k epoll_os \<Rightarrow> u32 \<Rightarrow> (epoll_demux \<times> 'k world, unit) op" where
  "epoll_wait have_epoll_pwait spm E timeout =
     then_op (assert_op (timeout \<le> epoll_max_timeout))
       (\<lambda>(d, w). then_op (assert_op (epoll_n_events d = 0))
          (then_op (guard_op (in_int_range (sint timeout * 1000)))
            (bind_op (on_snd (signal_safe_call have_epoll_pwait spm
                 (sys_epoll_wait E (epoll_fd d) (int EVENTS_SIZE) (sint timeout * 1000))))
              (\<lambda>(rc, evs) (d, w).
                 let d1 = d\<lparr>epoll_events := evs @ drop (length evs) (epoll_events d)\<rparr> in
                 if rc < 0 then
                   (if errno w = EINTR then (Inr (), (d1, w))
                    else (Inl (System_error (errno w) ''epoll_wait(2)''), (d1, w)))
                 else (Inr (), (d1\<lparr>epoll_n_events := nat rc, epoll_current := 0\<rparr>, w))))) (d, w))"

section \<open>The event bits\<close>

interpretation epoll_bits: event_bits epoll_codes
  by unfold_locales (simp_all add: epoll_codes_def)

section \<open>Delivery of the events\<close>

definition epoll_undelivered :: "epoll_demux \<Rightarrow> (int \<times> u32) list" where
  "epoll_undelivered d =
     map (\<lambda>e. (ev_fd e, epoll_event_of (ev_events e))) (take (epoll_n_events d) (drop (epoll_current d) (epoll_events d)))"

definition epoll_ready :: "epoll_demux \<Rightarrow> bool" where
  "epoll_ready d \<longleftrightarrow> epoll_current d + epoll_n_events d \<le> length (epoll_events d) \<and>
     (\<forall>x \<in> set (epoll_undelivered d). 0 \<le> fst x \<and> snd x \<noteq> no_events)"

lemma epoll_undelivered_step:
  "epoll_n_events d \<noteq> 0 \<Longrightarrow> epoll_current d < length (epoll_events d) \<Longrightarrow>
   epoll_undelivered d =
     (let e = epoll_events d ! epoll_current d in (ev_fd e, epoll_event_of (ev_events e))) #
     epoll_undelivered (d\<lparr>epoll_n_events := epoll_n_events d - 1, epoll_current := epoll_current d + 1\<rparr>)"
proof -
  assume n: "epoll_n_events d \<noteq> 0" and c: "epoll_current d < length (epoll_events d)"
  obtain m where m: "epoll_n_events d = Suc m" using n by (cases "epoll_n_events d") auto
  have "drop (epoll_current d) (epoll_events d) =
      epoll_events d ! epoll_current d # drop (Suc (epoll_current d)) (epoll_events d)"
    using c by (simp add: Cons_nth_drop_Suc)
  then show ?thesis by (simp add: epoll_undelivered_def m Let_def)
qed

interpretation epoll_source: event_source epoll_pop_event epoll_undelivered epoll_ready
proof unfold_locales
  fix d :: epoll_demux and x xs
  assume ready: "epoll_ready d"
  have range: "epoll_current d < length (epoll_events d)" if "epoll_n_events d \<noteq> 0"
    using ready that by (simp add: epoll_ready_def)
  show "\<exists>d'. epoll_pop_event d = (Inr None, d') \<and> epoll_ready d' \<and> epoll_undelivered d' = []"
    if "epoll_undelivered d = []"
  proof -
    have "epoll_n_events d = 0"
    proof (rule ccontr)
      assume n: "epoll_n_events d \<noteq> 0"
      from epoll_undelivered_step [OF n range [OF n]] that show False by simp
    qed
    with ready that show ?thesis by (simp add: epoll_pop_event_def)
  qed
  show "\<exists>d'. epoll_pop_event d = (Inr (Some x), d') \<and> epoll_ready d' \<and> epoll_undelivered d' = xs"
    if und: "epoll_undelivered d = x # xs"
  proof -
    have n: "epoll_n_events d \<noteq> 0"
    proof
      assume "epoll_n_events d = 0"
      then have "epoll_undelivered d = []" by (simp add: epoll_undelivered_def)
      with und show False by simp
    qed
    note step = epoll_undelivered_step [OF n range [OF n]]
    let ?e = "epoll_events d ! epoll_current d"
    let ?d = "d\<lparr>epoll_n_events := epoll_n_events d - 1, epoll_current := epoll_current d + 1\<rparr>"
    have x: "x = (ev_fd ?e, epoll_event_of (ev_events ?e))" and xs: "epoll_undelivered ?d = xs"
      using und unfolding step Let_def by simp_all
    have "snd x \<noteq> no_events" using ready und by (simp add: epoll_ready_def)
    then have "epoll_event_of (ev_events ?e) \<noteq> no_events" by (simp only: x snd_conv not_False_eq_True)
    then have "epoll_pop_event d = (Inr (Some x), ?d)"
      using n range [OF n] by (simp add: epoll_pop_event_def Let_def x)
    moreover have "epoll_ready ?d"
      using ready n und unfolding epoll_ready_def xs by simp
    ultimately show ?thesis using xs by blast
  qed
next
  fix d :: epoll_demux and x
  assume "epoll_ready d" "x \<in> set (epoll_undelivered d)"
  then show "0 \<le> fst x" by (simp add: epoll_ready_def)
qed

section \<open>What the kernel keeps\<close>

text \<open>The documented behaviour of \<open>epoll_ctl(2)\<close> and of \<open>close(2)\<close> on an open descriptor, seen
  through two functions on the kernel's state: the events an epoll instance watches for, per
  descriptor, and the set of open descriptors.  \<open>epoll_ctl\<close> may fail, and then changes nothing;
  closing a descriptor ends its registration.\<close>

record 'k kernel_view =
  watched :: "'k \<Rightarrow> int \<Rightarrow> (int \<rightharpoonup> u32)"
  open_fds :: "'k \<Rightarrow> int set"

definition watch_update :: "int \<Rightarrow> epoll_event \<Rightarrow> u32 option" where
  "watch_update cmd e = (if cmd = EPOLL_CTL_DEL then None else Some (ev_events e))"

definition epoll_ctl_law :: "'k kernel_view \<Rightarrow> 'k epoll_os \<Rightarrow> bool" where
  "epoll_ctl_law V E \<longleftrightarrow> (\<forall>ep cmd s e w rc w'. sys_epoll_ctl E ep cmd s e w = (rc, w') \<longrightarrow>
     open_fds V (os w') = open_fds V (os w) \<and>
     (rc = 0 \<and> watched V (os w') = (watched V (os w))(ep := (watched V (os w) ep)(s := watch_update cmd e)) \<or>
      rc = -1 \<and> errno w' \<noteq> EINTR \<and> watched V (os w') = watched V (os w)))"

definition close_law :: "'k kernel_view \<Rightarrow> 'k sock_os \<Rightarrow> bool" where
  "close_law V P \<longleftrightarrow> (\<forall>s w rc w'. s \<in> open_fds V (os w) \<longrightarrow> sys_close P s w = (rc, w') \<longrightarrow>
     rc = 0 \<and> open_fds V (os w') = open_fds V (os w) - {s} \<and>
     watched V (os w') = (\<lambda>ep. (watched V (os w) ep)(s := None)))"

lemma epoll_ctl_cases:
  assumes law: "epoll_ctl_law V E"
  obtains w' where
      "throw_errno_if_minus1 msg (sys_epoll_ctl E ep cmd s e) w = (Inr 0, w')"
      "open_fds V (os w') = open_fds V (os w)"
      "watched V (os w') = (watched V (os w))(ep := (watched V (os w) ep)(s := watch_update cmd e))"
  | w' where
      "throw_errno_if_minus1 msg (sys_epoll_ctl E ep cmd s e) w = (Inl (System_error (errno w') msg), w')"
      "open_fds V (os w') = open_fds V (os w)" "watched V (os w') = watched V (os w)"
proof (cases "sys_epoll_ctl E ep cmd s e w")
  case (Pair rc w')
  with law have k: "open_fds V (os w') = open_fds V (os w)"
     "rc = 0 \<and> watched V (os w') = (watched V (os w))(ep := (watched V (os w) ep)(s := watch_update cmd e)) \<or>
      rc = -1 \<and> errno w' \<noteq> EINTR \<and> watched V (os w') = watched V (os w)"
    unfolding epoll_ctl_law_def by blast+
  from k(2) show thesis
  proof
    assume "rc = 0 \<and> watched V (os w') = (watched V (os w))(ep := (watched V (os w) ep)(s := watch_update cmd e))"
    with Pair k(1) that(1) show thesis by (simp add: op_simps)
  next
    assume "rc = -1 \<and> errno w' \<noteq> EINTR \<and> watched V (os w') = watched V (os w)"
    with Pair k(1) that(2) show thesis by (simp add: op_simps)
  qed
qed

lemma close_cases:
  assumes law: "close_law V P" and s: "sock sk \<in> open_fds V (os w)" and c: "close_flag sk"
  obtains w' where "system_socket_destruct P sk w = (Inr (), w')"
      "open_fds V (os w') = open_fds V (os w) - {sock sk}"
      "watched V (os w') = (\<lambda>ep. (watched V (os w) ep)(sock sk := None))"
proof (cases "sys_close P (sock sk) w")
  case (Pair rc w')
  with law s have "rc = 0" "open_fds V (os w') = open_fds V (os w) - {sock sk}"
      "watched V (os w') = (\<lambda>ep. (watched V (os w) ep)(sock sk := None))"
    unfolding close_law_def by blast+
  with Pair that c show thesis by (simp add: system_socket_destruct_def op_simps)
qed

section \<open>Properties\<close>

text \<open>
  C31.  Constructing a socket either registers it with the given events and leaves it open, or throws
  and leaves nothing behind: the descriptor, which the object had taken over, is closed, and it is
  not watched by any epoll instance.
\<close>

theorem epoll_socket_construct_outcomes:
  assumes ctl: "epoll_ctl_law V E" and cl: "close_law V P" and s: "0 \<le> s" "s \<in> open_fds V (os w)"
  shows "\<exists>w'. epoll_socket_construct P E s ev (d, w) = (Inr \<lparr>sock = s, close_flag = True\<rparr>, (d, w')) \<and>
      watched V (os w') (epoll_fd d) s = Some ev \<and> open_fds V (os w') = open_fds V (os w) \<or>
    (\<exists>e. epoll_socket_construct P E s ev (d, w) = (Inl (System_error e ''add socket into epoll''), (d, w')) \<and>
      (\<forall>ep. watched V (os w') ep s = None) \<and> open_fds V (os w') = open_fds V (os w) - {s})"
proof -
  let ?sk = "\<lparr>sock = s, close_flag = True\<rparr>"
  let ?ev = "\<lparr>ev_events = ev, ev_fd = s\<rparr>"
  have sk: "system_socket_construct s take_ownership (d, w) = (Inr ?sk, (d, w))"
    using s by (simp add: system_socket_construct_def)
  show ?thesis
  proof (rule epoll_ctl_cases [OF ctl, of "''add socket into epoll''" "epoll_fd d" EPOLL_CTL_ADD s ?ev w], goal_cases)
    case (1 w')
    then have "epoll_socket_construct P E s ev (d, w) = (Inr ?sk, (d, w'))"
      using s sk by (simp add: epoll_socket_construct_def epoll_register_def op_simps)
    with 1 show ?thesis by (auto simp: watch_update_def EPOLL_CTL_ADD_def EPOLL_CTL_DEL_def)
  next
    case (2 w')
    have "sock ?sk \<in> open_fds V (os w')" using s 2 by simp
    from close_cases [OF cl this] obtain w'' where
      "system_socket_destruct P ?sk w' = (Inr (), w'')" "open_fds V (os w'') = open_fds V (os w') - {s}"
      "watched V (os w'') = (\<lambda>ep. (watched V (os w') ep)(s := None))" by auto
    moreover from this have "epoll_socket_construct P E s ev (d, w) =
        (Inl (System_error (errno w') ''add socket into epoll''), (d, w''))"
      using s sk 2 by (simp add: epoll_socket_construct_def epoll_register_def op_simps unwind_op_def)
    ultimately show ?thesis using 2 by auto
  qed
qed

text \<open>A kernel that satisfies the two laws: the state is the set of open descriptors and the table of
  watched ones; watching the descriptor 99 fails.\<close>

type_synonym sim = "int set \<times> (int \<Rightarrow> int \<rightharpoonup> u32)"

definition sim_view :: "sim kernel_view" where
  "sim_view = \<lparr>watched = snd, open_fds = fst\<rparr>"

definition sim_ctl :: "int \<Rightarrow> int \<Rightarrow> int \<Rightarrow> epoll_event \<Rightarrow> (sim, int) syscall" where
  "sim_ctl ep cmd s e w =
     (if s = 99 then (-1, w\<lparr>errno := 28\<rparr>)
      else (0, w\<lparr>os := (fst (os w), (snd (os w))(ep := (snd (os w) ep)(s := watch_update cmd e)))\<rparr>))"

definition sim_close :: "int \<Rightarrow> (sim, int) syscall" where
  "sim_close s w = (0, w\<lparr>os := (fst (os w) - {s}, \<lambda>ep. (snd (os w) ep)(s := None))\<rparr>)"

definition sim_wait :: "(int \<times> u32) list \<Rightarrow> int \<Rightarrow> int \<Rightarrow> int \<Rightarrow> sigset option \<Rightarrow> (sim, int \<times> epoll_event list) syscall" where
  "sim_wait evs ep n to m w =
     (if int (length evs) \<le> n then ((int (length evs), map (\<lambda>(s, ev). \<lparr>ev_events = ev, ev_fd = s\<rparr>) evs), w)
      else ((-1, []), w))"

definition sim_epoll :: "(int \<times> u32) list \<Rightarrow> sim epoll_os" where
  "sim_epoll evs = \<lparr>sys_epoll_create = (\<lambda>n w. (5, w)), sys_epoll_ctl = sim_ctl, sys_epoll_wait = sim_wait evs\<rparr>"

definition sim_sock :: "sim sock_os" where
  "sim_sock = quiet_sock\<lparr>sys_close := sim_close\<rparr>"

definition sim_world :: "int set \<Rightarrow> sim world" where
  "sim_world fds = \<lparr>errno = 0, os = (fds, \<lambda>_. Map.empty)\<rparr>"

definition sim_demux :: epoll_demux where
  "sim_demux = \<lparr>epoll_fd = 5, epoll_events = replicate EVENTS_SIZE \<lparr>ev_events = 0, ev_fd = 0\<rparr>,
     epoll_n_events = 0, epoll_current = 0\<rparr>"

lemma sim_laws: "epoll_ctl_law sim_view (sim_epoll evs)" "close_law sim_view sim_sock"
  by (auto simp: epoll_ctl_law_def close_law_def sim_view_def sim_epoll_def sim_ctl_def sim_sock_def
      sim_close_def errno_codes split: if_splits)

theorem epoll_socket_construct_outcomes_witness:
  "\<exists>w'. epoll_socket_construct sim_sock (sim_epoll []) 7 3 (sim_demux, sim_world {7})
        = (Inr \<lparr>sock = 7, close_flag = True\<rparr>, (sim_demux, w')) \<and>
      watched sim_view (os w') (epoll_fd sim_demux) 7 = Some 3 \<and> open_fds sim_view (os w') = open_fds sim_view (os (sim_world {7})) \<or>
    (\<exists>e. epoll_socket_construct sim_sock (sim_epoll []) 7 3 (sim_demux, sim_world {7})
        = (Inl (System_error e ''add socket into epoll''), (sim_demux, w')) \<and>
      (\<forall>ep. watched sim_view (os w') ep 7 = None) \<and> open_fds sim_view (os w') = open_fds sim_view (os (sim_world {7})) - {7})"
  by (rule epoll_socket_construct_outcomes [OF sim_laws]) (simp_all add: sim_view_def sim_world_def)

text \<open>
  When a registered socket is destroyed, it is no longer watched.  A socket that owns its
  descriptor is closed, which ends its registration; one that does not is removed from the epoll
  instance and stays open, unless the kernel refuses, in which case the destructor throws and nothing
  changes.
\<close>

theorem epoll_socket_destruct_outcomes:
  assumes ctl: "epoll_ctl_law V E" and cl: "close_law V P" and s: "sock sk \<in> open_fds V (os w)"
  shows "\<exists>r w'. epoll_socket_destruct P E sk (d, w) = (r, (d, w')) \<and>
    (if close_flag sk
     then r = Inr () \<and> open_fds V (os w') = open_fds V (os w) - {sock sk} \<and> (\<forall>ep. watched V (os w') ep (sock sk) = None)
     else open_fds V (os w') = open_fds V (os w) \<and>
       (r = Inr () \<and> watched V (os w') (epoll_fd d) = (watched V (os w) (epoll_fd d))(sock sk := None) \<or>
        (\<exists>e. r = Inl (System_error e ''del socket from epoll'') \<and> watched V (os w') = watched V (os w))))"
proof (cases "close_flag sk")
  case True
  from close_cases [OF cl s True] obtain w' where
    "system_socket_destruct P sk w = (Inr (), w')" "open_fds V (os w') = open_fds V (os w) - {sock sk}"
    "watched V (os w') = (\<lambda>ep. (watched V (os w) ep)(sock sk := None))" .
  moreover from this have "epoll_socket_destruct P E sk (d, w) = (Inr (), (d, w'))"
    using True by (simp add: epoll_socket_destruct_def epoll_unregister_def get_close_on_destruction_def op_simps)
  ultimately show ?thesis using True by simp
next
  case False
  have none: "system_socket_destruct P sk u = (Inr (), u)" for u
    using False by (simp add: system_socket_destruct_def op_simps)
  let ?ev = "\<lparr>ev_events = 0, ev_fd = sock sk\<rparr>"
  show ?thesis
  proof (rule epoll_ctl_cases [OF ctl, of "''del socket from epoll''" "epoll_fd d" EPOLL_CTL_DEL "sock sk" ?ev w], goal_cases)
    case (1 w')
    then have "epoll_socket_destruct P E sk (d, w) = (Inr (), (d, w'))"
      using False none by (simp add: epoll_socket_destruct_def epoll_unregister_def get_close_on_destruction_def op_simps)
    with 1 False show ?thesis by (simp add: watch_update_def)
  next
    case (2 w')
    then have "epoll_socket_destruct P E sk (d, w) = (Inl (System_error (errno w') ''del socket from epoll''), (d, w'))"
      using False none
      by (simp add: epoll_socket_destruct_def epoll_unregister_def get_close_on_destruction_def op_simps with_dtor_def)
    with 2 False show ?thesis by simp
  qed
qed

theorem epoll_socket_destruct_outcomes_witness:
  "\<exists>r w'. epoll_socket_destruct sim_sock (sim_epoll []) \<lparr>sock = 7, close_flag = True\<rparr> (sim_demux, sim_world {7, 8})
     = (r, (sim_demux, w')) \<and> r = Inr () \<and> fst (os w') = {8}"
  using epoll_socket_destruct_outcomes [OF sim_laws, of "\<lparr>sock = 7, close_flag = True\<rparr>" "sim_world {7, 8}" "[]" sim_demux]
  by (auto simp: sim_view_def sim_world_def)

text \<open>The documented behaviour of \<open>epoll_wait(2)\<close>: on success it stores as many events as it answers,
  at most as many as the array holds, and each has a bit set.\<close>

definition epoll_wait_law :: "'k epoll_os \<Rightarrow> bool" where
  "epoll_wait_law E \<longleftrightarrow> (\<forall>ep n to m w rc evs w'. sys_epoll_wait E ep n to m w = ((rc, evs), w') \<longrightarrow> 0 \<le> rc \<longrightarrow>
     rc \<le> n \<and> int (length evs) = rc \<and> (\<forall>e \<in> set evs. 0 \<le> ev_fd e \<and> ev_events e \<noteq> 0))"

lemma epoll_wait_effect:
  assumes law: "epoll_wait_law E" and size: "length (epoll_events d) = EVENTS_SIZE"
    and wait: "epoll_wait hv spm E timeout (d, w) = (Inr (), (d', w'))" and more: "epoll_n_events d' \<noteq> 0"
  shows "epoll_current d' = 0 \<and> epoll_n_events d' \<le> EVENTS_SIZE \<and> length (epoll_events d') = EVENTS_SIZE \<and>
    (\<forall>e \<in> set (take (epoll_n_events d') (epoll_events d')). 0 \<le> ev_fd e \<and> ev_events e \<noteq> 0)"
proof -
  let ?sys = "sys_epoll_wait E (epoll_fd d) (int EVENTS_SIZE) (sint timeout * 1000)"
  from wait more obtain rc evs w1 where n0: "epoll_n_events d = 0"
      and call: "signal_safe_call hv spm ?sys w = (Inr (rc, evs), w1)"
      and d': "d' = (let d1 = d\<lparr>epoll_events := evs @ drop (length evs) (epoll_events d)\<rparr>
        in if rc < 0 then d1 else d1\<lparr>epoll_n_events := nat rc, epoll_current := 0\<rparr>)"
    by (auto simp: epoll_wait_def on_snd_def op_defs Let_def split: prod.splits sum.splits if_splits)
  have rc: "\<not> rc < 0" using d' n0 more by (auto simp: Let_def)
  obtain m w0 w2 where "?sys m w0 = ((rc, evs), w2)"
    using signal_safe_call_from_call [OF call] by blast
  with law rc have "rc \<le> int EVENTS_SIZE" "int (length evs) = rc" "\<forall>e \<in> set evs. 0 \<le> ev_fd e \<and> ev_events e \<noteq> 0"
    unfolding epoll_wait_law_def by (metis not_less)+
  then show ?thesis using rc size by (auto simp: d')
qed

text \<open>
  C28.  After a \<open>wait\<close> that returned, \<open>pop_event\<close> delivers the events of the array in order, each
  once, and then answers false, provided that no event reports an error condition alone.
\<close>

theorem epoll_delivers_what_the_kernel_reports:
  assumes law: "epoll_wait_law E" and size: "length (epoll_events d) = EVENTS_SIZE"
    and wait: "epoll_wait hv spm E timeout (d, w) = (Inr (), (d', w'))" and more: "epoll_n_events d' \<noteq> 0"
    and plain: "\<forall>e \<in> set (take (epoll_n_events d') (epoll_events d')). epoll_event_of (ev_events e) \<noteq> no_events"
    and n: "epoll_n_events d' \<le> n"
  shows "pop_times epoll_pop_event n d' =
    map (\<lambda>e. (ev_fd e, epoll_event_of (ev_events e))) (take (epoll_n_events d') (epoll_events d'))"
proof -
  note eff = epoll_wait_effect [OF law size wait more]
  then have und: "epoll_undelivered d' =
      map (\<lambda>e. (ev_fd e, epoll_event_of (ev_events e))) (take (epoll_n_events d') (epoll_events d'))"
    by (simp add: epoll_undelivered_def)
  have "epoll_ready d'" using eff plain by (auto simp: epoll_ready_def und)
  moreover have "length (epoll_undelivered d') \<le> n" unfolding und using n by simp
  ultimately show ?thesis unfolding und [symmetric] by (rule epoll_source.pop_times_all)
qed

theorem epoll_delivers_what_the_kernel_reports_witness:
  "pop_times epoll_pop_event 2 (fst (snd (epoll_wait True (\<lambda>_ w. ((0, {}), w)) (sim_epoll [(7, 65), (4, 4)]) 10
     (sim_demux, sim_world {4, 7})))) = [(7, epoll_event_of 65), (4, epoll_event_of 4)]"
proof -
  let ?d = "sim_demux\<lparr>epoll_events := [\<lparr>ev_events = 65, ev_fd = 7\<rparr>, \<lparr>ev_events = 4, ev_fd = 4\<rparr>] @
     drop 2 (epoll_events sim_demux), epoll_n_events := 2\<rparr>"
  have law: "epoll_wait_law (sim_epoll [(7, 65), (4, 4)])"
    by (auto simp: epoll_wait_law_def sim_epoll_def sim_wait_def split: if_splits)
  have size: "length (epoll_events sim_demux) = EVENTS_SIZE" by (simp add: sim_demux_def)
  have wait: "epoll_wait True (\<lambda>_ w. ((0, {}), w)) (sim_epoll [(7, 65), (4, 4)]) 10 (sim_demux, sim_world {4, 7})
      = (Inr (), (?d, sim_world {4, 7}))"
    by (simp add: epoll_wait_def op_defs on_snd_def signal_safe_call_def sim_epoll_def sim_wait_def
        sim_demux_def epoll_max_timeout_def INT_MAX_def in_int_range_def EVENTS_SIZE_def)
  have take2: "take (epoll_n_events ?d) (epoll_events ?d) = [\<lparr>ev_events = 65, ev_fd = 7\<rparr>, \<lparr>ev_events = 4, ev_fd = 4\<rparr>]"
    by simp
  have "\<forall>e \<in> set (take (epoll_n_events ?d) (epoll_events ?d)). epoll_event_of (ev_events e) \<noteq> no_events"
    unfolding take2
    by (simp add: epoll_event_of_def normalize_events_def epoll_codes_def all_events_def EPOLLRDNORM_def EPOLLRDBAND_def
        EPOLLWRNORM_def event_if_def has_event_def no_events_def)
  from epoll_delivers_what_the_kernel_reports [OF law size wait _ this, of 2] show ?thesis
    by (simp add: wait)
qed

text \<open>
  The kernel reports \<open>EPOLLERR\<close> and \<open>EPOLLHUP\<close> for a watched descriptor whether they were asked
  for or not.  When one of them is all there is to report, \<open>pop_event\<close> drops the bits, is left with
  \<open>no_events\<close> and fails its assertion: a peer that hangs up can abort the program.
\<close>

theorem epoll_hangup_aborts:
  assumes "epoll_n_events d \<noteq> 0" and "epoll_current d < length (epoll_events d)"
    and "ev_events (epoll_events d ! epoll_current d) AND NOT (EPOLLERR OR EPOLLHUP) = 0"
  shows "epoll_pop_event d = (Inl Assertion_failed, d)"
proof -
  let ?ev = "ev_events (epoll_events d ! epoll_current d)"
  have "\<not> bit ?ev n" if "n \<noteq> 3" "n \<noteq> 4" "n < 32" for n
  proof -
    have "\<not> bit (?ev AND NOT (EPOLLERR OR EPOLLHUP)) n"
      unfolding assms(3) by simp
    moreover have "bit EPOLLERR n \<longleftrightarrow> n = 3" "bit EPOLLHUP n \<longleftrightarrow> n = 4"
      using bit_exp_iff [where 'a = "32 word", of 3 n] bit_exp_iff [where 'a = "32 word", of 4 n] that
      by (simp_all add: EPOLLERR_def EPOLLHUP_def)
    ultimately show ?thesis using that by (auto simp: bit_and_iff bit_not_iff bit_or_iff)
  qed
  then have "epoll_event_of ?ev = no_events"
    unfolding epoll_event_of_def EPOLLRDNORM_def EPOLLRDBAND_def EPOLLWRNORM_def
    by (subst normalize_events_none) (simp_all add: epoll_codes_def)
  with assms(1,2) show ?thesis by (simp add: epoll_pop_event_def Let_def not_le)
qed

theorem epoll_hangup_aborts_witness:
  "epoll_pop_event (sim_demux\<lparr>epoll_events := [\<lparr>ev_events = 16, ev_fd = 7\<rparr>], epoll_n_events := 1\<rparr>)
    = (Inl Assertion_failed, sim_demux\<lparr>epoll_events := [\<lparr>ev_events = 16, ev_fd = 7\<rparr>], epoll_n_events := 1\<rparr>)"
  by (rule epoll_hangup_aborts) (simp_all add: sim_demux_def EPOLLERR_def EPOLLHUP_def)

end
