(* ===== verification/Ioxx_Dispatch.thy ===== *)
theory Ioxx_Dispatch
  imports Select_Demux Poll_Demux Epoll_Demux "HOL-Library.AList"
begin

text \<open>
  The socket-event dispatcher of \<open>include/ioxx/dispatch.hpp\<close>: a map from descriptors to handlers on
  top of a demultiplexer.

  The class is a template over the demultiplexer.  Here the demultiplexer's operations are the fields
  of a record; they act on the rest of the program's state, which the demultiplexer is part of.  A
  handler is a value of a type variable, and the argument \<open>call\<close> of \<open>run\<close> says what calling one with
  an event set does to the dispatcher and to the rest of the state: it may register, modify and
  destroy sockets, and it may not return.  A handler is passed to \<open>call\<close> by value, so a handler that
  destroys its own function object while it runs is outside the model.
\<close>

unbundle bit_operations_syntax

type_synonym 'h handler_map = "(int \<times> 'h) list"

record 's demux_ops =
  dm_codes :: event_codes
  dm_socket_construct :: "int \<Rightarrow> u32 \<Rightarrow> ('s, system_socket) op"
  dm_socket_destruct :: "system_socket \<Rightarrow> ('s, unit) op"
  dm_request :: "int \<Rightarrow> u32 \<Rightarrow> ('s, unit) op"
  dm_pop_event :: "('s, (int \<times> u32) option) op"
  dm_wait :: "u32 \<Rightarrow> ('s, unit) op"
  dm_max_timeout :: u32

section \<open>Operations\<close>

text \<open>\<open>_handlers.insert\<close> followed by the assertion that the descriptor was not in the map.\<close>

definition handlers_insert :: "int \<Rightarrow> 'h \<Rightarrow> ('h handler_map, unit) op" where
  "handlers_insert s f hs =
     (if map_of hs s \<noteq> None then (Inl Assertion_failed, hs) else (Inr (), AList.update s f hs))"

text \<open>Through the iterator of a socket: the node for its descriptor.\<close>

definition handlers_erase :: "int \<Rightarrow> ('h handler_map, unit) op" where
  "handlers_erase s hs =
     (if map_of hs s = None then (Inl Undefined_behaviour, hs) else (Inr (), AList.delete s hs))"

definition handlers_assign :: "int \<Rightarrow> 'h \<Rightarrow> ('h handler_map, unit) op" where
  "handlers_assign s f hs =
     (if map_of hs s = None then (Inl Undefined_behaviour, hs) else (Inr (), AList.update s f hs))"

definition dispatch_socket_construct ::
  "'s demux_ops \<Rightarrow> int \<Rightarrow> 'h \<Rightarrow> u32 \<Rightarrow> ('h handler_map \<times> 's, system_socket) op" where
  "dispatch_socket_construct M s f ev =
     bind_op (on_snd (dm_socket_construct M s ev))
       (\<lambda>sk. then_op (assert_op (0 \<le> sock sk))
         (then_op (on_fst (handlers_insert (sock sk) f)) (ret sk)))"

definition dispatch_socket_destruct ::
  "'s demux_ops \<Rightarrow> system_socket \<Rightarrow> ('h handler_map \<times> 's, unit) op" where
  "dispatch_socket_destruct M sk =
     with_dtor (on_fst (handlers_erase (sock sk))) (on_snd (dm_socket_destruct M sk))"

definition dispatch_modify_handler :: "int \<Rightarrow> 'h \<Rightarrow> ('h handler_map \<times> 's, unit) op" where
  "dispatch_modify_handler s f = on_fst (handlers_assign s f)"

definition dispatch_modify ::
  "'s demux_ops \<Rightarrow> int \<Rightarrow> 'h \<Rightarrow> u32 \<Rightarrow> ('h handler_map \<times> 's, unit) op" where
  "dispatch_modify M s f ev =
     then_op (on_snd (dm_request M s ev)) (on_fst (handlers_assign s f))"

definition dispatch_max_timeout :: "'s demux_ops \<Rightarrow> u32" where
  "dispatch_max_timeout M = dm_max_timeout M"

definition dispatch_empty :: "'h handler_map \<times> 's \<Rightarrow> bool" where
  "dispatch_empty st \<longleftrightarrow> fst st = []"

definition dispatch_wait :: "'s demux_ops \<Rightarrow> u32 \<Rightarrow> ('h handler_map \<times> 's, unit) op" where
  "dispatch_wait M timeout = on_snd (dm_wait M timeout)"

partial_function (option) dispatch_run ::
  "('s, (int \<times> u32) option) op \<Rightarrow> ('h \<Rightarrow> u32 \<Rightarrow> ('h handler_map \<times> 's, unit) prog) \<Rightarrow>
   'h handler_map \<times> 's \<Rightarrow> ((fault + unit) \<times> ('h handler_map \<times> 's)) option" where
  "dispatch_run pop call st =
     (case on_snd pop st of
        (Inl e, st1) \<Rightarrow> Some (Inl e, st1)
      | (Inr None, st1) \<Rightarrow> Some (Inr (), st1)
      | (Inr (Some (s, ev)), st1) \<Rightarrow>
          if \<not> (0 \<le> s \<and> ev \<noteq> no_events) then Some (Inl Assertion_failed, st1)
          else (case map_of (fst st1) s of
                  None \<Rightarrow> dispatch_run pop call st1
                | Some f \<Rightarrow>
                    (case call f ev st1 of
                       None \<Rightarrow> None
                     | Some (Inl e, st2) \<Rightarrow> Some (Inl e, st2)
                     | Some (Inr _, st2) \<Rightarrow> dispatch_run pop call st2)))"

lemma dispatch_run_ensures:
  assumes pop: "ensures J E (on_snd pop)" and call: "\<And>f ev. p_ensures J E (call f ev)"
    and failed: "\<And>s. J s \<Longrightarrow> E Assertion_failed s"
  shows "p_ensures J E (dispatch_run pop call)"
proof -
  have "pop = pop \<longrightarrow> call = call \<longrightarrow> J st \<longrightarrow> outcome J E p" if run: "dispatch_run pop call st = Some p" for st p
  proof (rule dispatch_run.raw_induct [where P = "\<lambda>pop' call' st p.
      pop' = pop \<longrightarrow> call' = call \<longrightarrow> J st \<longrightarrow> outcome J E p", OF _ run], intro impI, goal_cases)
    case (1 rec pop' call' st p)
    obtain x st1 where x: "on_snd pop st = (x, st1)" by (cases "on_snd pop st")
    note step = 1(2) [unfolded 1(3,4) x prod.case]
    have pop1: "outcome J E (x, st1)" using ensures_outcome [OF pop 1(5) x] .
    have call1: "outcome J E y" if "call f ev st1 = Some y" "J st1" for f ev y
      using call that unfolding p_ensures_outcome by blast
    have rec: "outcome J E y" if "rec pop call s = Some y" "J s" for s y
      using 1(1) [OF that(1)] that(2) 1(3,4) by blast
    show ?case
    proof (cases x)
      case (Inl e)
      with step pop1 show ?thesis by auto
    next
      case (Inr ev)
      with pop1 have J1: "J st1" by simp
      from step Inr show ?thesis
        by (auto split: option.splits if_splits prod.splits sum.splits simp: J1 failed [OF J1]
            dest!: rec call1 [OF _ J1])
    qed
  qed
  then show ?thesis unfolding p_ensures_outcome by blast
qed

section \<open>The three demultiplexers\<close>

definition select_ops ::
  "'k sock_os \<Rightarrow> bool \<Rightarrow> 'k sigprocmask \<Rightarrow> 'k sys_select \<Rightarrow> (select_demux \<times> 'k world) demux_ops" where
  "select_ops P hv spm sel =
     \<lparr>dm_codes = select_codes, dm_socket_construct = (\<lambda>s ev. on_fst (select_socket_construct s ev)),
      dm_socket_destruct = select_socket_destruct P, dm_request = (\<lambda>s ev. on_fst (select_request s ev)),
      dm_pop_event = on_fst select_pop_event, dm_wait = select_wait hv spm sel,
      dm_max_timeout = select_max_timeout\<rparr>"

definition poll_ops ::
  "'k sock_os \<Rightarrow> bool \<Rightarrow> 'k sigprocmask \<Rightarrow> 'k sys_poll \<Rightarrow> (poll_demux \<times> 'k world) demux_ops" where
  "poll_ops P hv spm sys =
     \<lparr>dm_codes = poll_codes, dm_socket_construct = poll_socket_construct P, dm_socket_destruct = poll_socket_destruct P,
      dm_request = (\<lambda>s ev. on_fst (poll_request s ev)), dm_pop_event = on_fst poll_pop_event,
      dm_wait = poll_wait hv spm sys, dm_max_timeout = poll_max_timeout\<rparr>"

definition epoll_ops ::
  "'k sock_os \<Rightarrow> bool \<Rightarrow> 'k sigprocmask \<Rightarrow> 'k epoll_os \<Rightarrow> (epoll_demux \<times> 'k world) demux_ops" where
  "epoll_ops P hv spm E =
     \<lparr>dm_codes = epoll_codes, dm_socket_construct = epoll_socket_construct P E, dm_socket_destruct = epoll_socket_destruct P E,
      dm_request = epoll_request E, dm_pop_event = on_fst epoll_pop_event,
      dm_wait = epoll_wait hv spm E, dm_max_timeout = epoll_max_timeout\<rparr>"

section \<open>Delivery\<close>


text \<open>Handlers that leave the demultiplexer \<open>d\<close> alone.\<close>

definition beside ::
  "('h \<Rightarrow> u32 \<Rightarrow> ('h handler_map \<times> 'r, unit) prog) \<Rightarrow>
   'h \<Rightarrow> u32 \<Rightarrow> ('h handler_map \<times> ('d \<times> 'r), unit) prog" where
  "beside call f ev = (\<lambda>(hs, d, r). map_option (\<lambda>(res, hs', r'). (res, hs', (d, r'))) (call f ev (hs, r)))"


section \<open>Handlers and registrations agree\<close>

text \<open>The dispatcher's sockets on top of \<open>poll\<close>: what is registered for a descriptor is its handler
  and the events it waits for.\<close>

abbreviation dp_add where
  "dp_add M s fe \<equiv> bind_op (dispatch_socket_construct M s (fst fe) (ucast (snd fe :: u16))) (\<lambda>_. ret ())"

abbreviation dp_change where
  "dp_change M s fe \<equiv> dispatch_modify M s (fst fe) (ucast (snd fe :: u16))"

abbreviation dp_remove where
  "dp_remove M s \<equiv> dispatch_socket_destruct M \<lparr>sock = s, close_flag = True\<rparr>"

definition dp_interest :: "'h handler_map \<times> poll_demux \<times> 'k world \<Rightarrow> int \<rightharpoonup> 'h \<times> u16" where
  "dp_interest st s = (case (map_of (fst st) s, poll_interest (fst (snd st)) s) of
     (Some f, Some e) \<Rightarrow> Some (f, e) | _ \<Rightarrow> None)"

definition dp_ok :: "'h handler_map \<times> poll_demux \<times> 'k world \<Rightarrow> bool" where
  "dp_ok st \<longleftrightarrow> poll_ok (fst (snd st)) \<and> (\<forall>s. map_of (fst st) s = None \<longleftrightarrow> poll_interest (fst (snd st)) s = None)"

lemma dp_interest_None: "dp_ok (hs, d, w) \<Longrightarrow> dp_interest (hs, d, w) s = None \<longleftrightarrow> map_of hs s = None"
  "dp_ok (hs, d, w) \<Longrightarrow> map_of hs s = None \<longleftrightarrow> poll_interest d s = None"
  by (auto simp: dp_ok_def dp_interest_def split: option.splits)

lemma dp_update:
  assumes "dp_ok (hs, d, w)" "poll_ok d'" "poll_interest d' = (poll_interest d)(s := e)"
    and "map_of hs' = (map_of hs)(s := f)" "f = None \<longleftrightarrow> e = None"
  shows "dp_ok (hs', d', w')"
    and "dp_interest (hs', d', w') = (dp_interest (hs, d, w))(s := (case (f, e) of (Some f, Some e) \<Rightarrow> Some (f, e) | _ \<Rightarrow> None))"
proof -
  have "(map_of hs' t = None) = (poll_interest d' t = None)" for t
    using dp_interest_None(2) [OF assms(1), of t] assms(3-5) by simp
  then show "dp_ok (hs', d', w')" using assms(2) by (simp add: dp_ok_def)
  show "dp_interest (hs', d', w') = (dp_interest (hs, d, w))(s := (case (f, e) of (Some f, Some e) \<Rightarrow> Some (f, e) | _ \<Rightarrow> None))"
    using assms(3,4) by (auto simp: fun_eq_iff dp_interest_def)
qed

lemma dp_construct:
  assumes ok: "dp_ok (hs, d, w)" and s: "0 \<le> s" "map_of hs s = None"
  shows "\<exists>hs' d'. dispatch_socket_construct (poll_ops P hv spm sys) s f ev (hs, d, w)
      = (Inr \<lparr>sock = s, close_flag = True\<rparr>, (hs', d', w)) \<and> dp_ok (hs', d', w) \<and>
    dp_interest (hs', d', w) = (dp_interest (hs, d, w))(s \<mapsto> (f, ucast ev))"
proof -
  have pok: "poll_ok d" and "poll_indices d s = None"
    using ok s(2) dp_interest_None(2) [OF ok, of s] by (auto simp: dp_ok_def poll_interest_def)
  from poll_register_ok [OF pok s(1) this(2), of ev] obtain d' where d': "poll_register s ev d = (Inr (), d')" "poll_ok d'"
    "poll_interest d' = (poll_interest d)(s \<mapsto> ucast ev)" by blast
  have "dispatch_socket_construct (poll_ops P hv spm sys) s f ev (hs, d, w)
      = (Inr \<lparr>sock = s, close_flag = True\<rparr>, (AList.update s f hs, d', w))"
    using d'(1) s
    by (simp add: dispatch_socket_construct_def poll_ops_def poll_socket_construct_def system_socket_construct_def
        handlers_insert_def op_simps)
  moreover have "map_of (AList.update s f hs) = (map_of hs)(s := Some f)" by (simp add: update_conv')
  ultimately show ?thesis
    using dp_update [OF ok d'(2,3), of "AList.update s f hs" "Some f" w] by auto
qed

lemma dp_request:
  assumes ok: "dp_ok (hs, d, w)" and s: "dp_interest (hs, d, w) s = Some (f, e)"
  shows "\<exists>d'. dm_request (poll_ops P hv spm sys) s ev (d, w) = (Inr (), (d', w)) \<and> dp_ok (hs, d', w) \<and>
    dp_interest (hs, d', w) = (dp_interest (hs, d, w))(s \<mapsto> (f, ucast ev))"
proof -
  have pok: "poll_ok d" using ok by (simp add: dp_ok_def)
  obtain i where i: "poll_indices d s = Some i" and f: "map_of hs s = Some f"
    using s by (auto simp: dp_interest_def poll_interest_def split: option.splits)
  from poll_request_ok(1) [OF pok i, of ev] poll_request_ok(2,3) [OF pok i, of "ucast ev"] obtain d' where
    d': "poll_request s ev d = (Inr (), d')" "poll_ok d'" "poll_interest d' = (poll_interest d)(s \<mapsto> ucast ev)" by blast
  have "dm_request (poll_ops P hv spm sys) s ev (d, w) = (Inr (), (d', w))"
    using d'(1) by (simp add: poll_ops_def op_simps)
  moreover have "map_of hs = (map_of hs)(s := Some f)" using f by auto
  ultimately show ?thesis
    using dp_update [OF ok d'(2,3), of hs "Some f" w] by auto
qed

lemma dp_modify:
  assumes ok: "dp_ok (hs, d, w)" and s: "map_of hs s \<noteq> None"
  shows "\<exists>hs' d'. dispatch_modify (poll_ops P hv spm sys) s f ev (hs, d, w) = (Inr (), (hs', d', w)) \<and> dp_ok (hs', d', w) \<and>
    dp_interest (hs', d', w) = (dp_interest (hs, d, w))(s \<mapsto> (f, ucast ev))"
proof -
  have pok: "poll_ok d" using ok by (simp add: dp_ok_def)
  have "poll_indices d s \<noteq> None" using s dp_interest_None(2) [OF ok, of s] by (simp add: poll_interest_def)
  then obtain i where i: "poll_indices d s = Some i" by blast
  from poll_request_ok(1) [OF pok i, of ev] poll_request_ok(2,3) [OF pok i, of "ucast ev"] obtain d' where
    d': "poll_request s ev d = (Inr (), d')" "poll_ok d'" "poll_interest d' = (poll_interest d)(s \<mapsto> ucast ev)" by blast
  have "dispatch_modify (poll_ops P hv spm sys) s f ev (hs, d, w) = (Inr (), (AList.update s f hs, d', w))"
    using d'(1) s by (simp add: dispatch_modify_def poll_ops_def handlers_assign_def op_simps)
  moreover have "map_of (AList.update s f hs) = (map_of hs)(s := Some f)" by (simp add: update_conv')
  ultimately show ?thesis
    using dp_update [OF ok d'(2,3), of "AList.update s f hs" "Some f" w] by auto
qed

lemma dp_destruct:
  assumes ok: "dp_ok (hs, d, w)" and s: "map_of hs s \<noteq> None"
    and close: "system_socket_destruct P \<lparr>sock = s, close_flag = c\<rparr> w = (Inr (), w')"
  shows "\<exists>hs' d'. dispatch_socket_destruct (poll_ops P hv spm sys) \<lparr>sock = s, close_flag = c\<rparr> (hs, d, w) = (Inr (), (hs', d', w')) \<and>
    dp_ok (hs', d', w') \<and> dp_interest (hs', d', w') = (dp_interest (hs, d, w))(s := None)"
proof -
  have pok: "poll_ok d" using ok by (simp add: dp_ok_def)
  have "poll_indices d s \<noteq> None" using s dp_interest_None(2) [OF ok, of s] by (simp add: poll_interest_def)
  then obtain i where i: "poll_indices d s = Some i" by blast
  from poll_unregister_ok [OF pok i] obtain d' where
    d': "poll_unregister s d = (Inr (), d')" "poll_ok d'" "poll_interest d' = (poll_interest d)(s := None)" by blast
  have "poll_socket_destruct P \<lparr>sock = s, close_flag = c\<rparr> (d, w) = (Inr (), (d', w'))"
    using d'(1) close by (simp add: poll_socket_destruct_def with_dtor_def on_fst_def on_snd_def)
  then have "dispatch_socket_destruct (poll_ops P hv spm sys) \<lparr>sock = s, close_flag = c\<rparr> (hs, d, w) = (Inr (), (AList.delete s hs, d', w'))"
    using s by (simp add: dispatch_socket_destruct_def poll_ops_def handlers_erase_def with_dtor_def on_fst_def on_snd_def)
  moreover have "map_of (AList.delete s hs) = (map_of hs)(s := None)" by (simp add: delete_conv')
  ultimately show ?thesis
    using dp_update [OF ok d'(2,3), of "AList.delete s hs" None w'] by auto
qed

text \<open>Descriptors come from outside the dispatcher: \<open>new s\<close> is the world after the program has obtained
  the descriptor \<open>s\<close> from \<open>socket(2)\<close> or \<open>accept(2)\<close>, which opens it and, for a new descriptor, leaves
  it without a registration in the kernel.\<close>

definition new_fd_law :: "'k kernel_view \<Rightarrow> (int \<Rightarrow> 'k world \<Rightarrow> 'k world) \<Rightarrow> bool" where
  "new_fd_law V new \<longleftrightarrow> (\<forall>s w. open_fds V (os (new s w)) = insert s (open_fds V (os w)) \<and>
     watched V (os (new s w)) = watched V (os w))"

abbreviation with_new_fd where
  "with_new_fd new s m \<equiv> (\<lambda>st. m (fst st, fst (snd st), new s (snd (snd st))))"

text \<open>The sockets that have handlers are open.\<close>

definition handled_open :: "'k kernel_view \<Rightarrow> 'h handler_map \<times> 'd \<times> 'k world \<Rightarrow> bool" where
  "handled_open V st \<longleftrightarrow> (\<forall>s. map_of (fst st) s \<noteq> None \<longrightarrow> s \<in> open_fds V (os (snd (snd st))))"

lemma handled_open_update:
  assumes "handled_open V (hs, d, w)" and "map_of hs' = (map_of hs)(s := f)"
    and "open_fds V (os w) - {s} \<subseteq> open_fds V (os w')" and "f \<noteq> None \<Longrightarrow> s \<in> open_fds V (os w')"
  shows "handled_open V (hs', d', w')"
  unfolding handled_open_def
proof (intro allI impI)
  fix t
  assume "map_of (fst (hs', d', w')) t \<noteq> None"
  then show "t \<in> open_fds V (os (snd (snd (hs', d', w'))))"
    using assms by (cases "t = s") (auto simp: handled_open_def)
qed

lemma dp_interest_handlers:
  assumes "dp_ok (hs, d, w)"
  shows "map_of hs s \<noteq> None \<longleftrightarrow> dp_interest (hs, d, w) s \<noteq> None"
  using dp_interest_None [OF assms, of s] by simp

lemma dp_table:
  fixes P :: "'k sock_os"
  assumes close: "close_law V P" and fds: "new_fd_law V new"
  shows "socket_table (\<lambda>s fe. with_new_fd new s (dp_add (poll_ops P hv spm sys) s fe)) (dp_change (poll_ops P hv spm sys))
    (dp_remove (poll_ops P hv spm sys)) dp_interest (\<lambda>st. dp_ok st \<and> handled_open V st)"
proof
  have id: "ucast (ucast e :: u32) = e" for e :: u16 by (simp add: ucast_up_ucast_id is_up)
  fix st :: "'h handler_map \<times> poll_demux \<times> 'k world" and s and fe :: "'h \<times> u16"
  obtain hs d w f e where st: "st = (hs, d, w)" "fe = (f, e)" by (metis surj_pair)
  assume inv: "dp_ok st \<and> handled_open V st"
  then have ok: "dp_ok (hs, d, w)" by (simp add: st)
  note none = dp_interest_None [OF ok, of s]
  have open_if: "handled_open V st'"
    if "dp_interest st' = (dp_interest (hs, d, w))(s := x)" "dp_ok st'"
      "open_fds V (os w) - {s} \<subseteq> open_fds V (os (snd (snd st')))" "x \<noteq> None \<Longrightarrow> s \<in> open_fds V (os (snd (snd st')))"
    for st' :: "'h handler_map \<times> poll_demux \<times> 'k world" and x
  proof -
    obtain hs' d' w' where st': "st' = (hs', d', w')" by (metis surj_pair)
    have "map_of hs' t \<noteq> None \<Longrightarrow> t \<in> open_fds V (os w')" for t
      using that inv dp_interest_handlers [OF that(2) [unfolded st'], of t] dp_interest_handlers [OF ok, of t]
      by (cases "t = s") (auto simp: st st' handled_open_def)
    then show ?thesis by (simp add: handled_open_def st')
  qed
  show "\<exists>st'. with_new_fd new s (dp_add (poll_ops P hv spm sys) s fe) st = (Inr (), st') \<and> (dp_ok st' \<and> handled_open V st') \<and>
      dp_interest st' = (dp_interest st)(s \<mapsto> fe)"
    if s: "0 \<le> s" "dp_interest st s = None"
  proof -
    have ok1: "dp_ok (hs, d, new s w)" "dp_interest (hs, d, new s w) = dp_interest (hs, d, w)" "map_of hs s = None"
      using ok s(2) none by (simp_all add: st dp_ok_def dp_interest_def fun_eq_iff)
    from dp_construct [OF ok1(1) s(1) ok1(3), of P hv spm sys f "ucast e"] obtain hs' d' where
      run: "dispatch_socket_construct (poll_ops P hv spm sys) s f (ucast e) (hs, d, new s w)
        = (Inr \<lparr>sock = s, close_flag = True\<rparr>, (hs', d', new s w))" and
      st': "dp_ok (hs', d', new s w)" "dp_interest (hs', d', new s w) = (dp_interest (hs, d, w))(s \<mapsto> fe)"
      by (auto simp: ok1(2) st id)
    have "handled_open V (hs', d', new s w)"
      using fds by (intro open_if [OF st'(2,1)]) (auto simp: new_fd_law_def)
    with run st' show ?thesis by (auto simp: st op_simps)
  qed
  show "\<exists>st'. dp_change (poll_ops P hv spm sys) s fe st = (Inr (), st') \<and> (dp_ok st' \<and> handled_open V st') \<and>
      dp_interest st' = (dp_interest st)(s \<mapsto> fe)"
    if s: "dp_interest st s \<noteq> None"
  proof -
    have h: "map_of hs s \<noteq> None" using s none by (simp add: st)
    from dp_modify [OF ok h, of P hv spm sys f "ucast e"] obtain hs' d' where
      run: "dispatch_modify (poll_ops P hv spm sys) s f (ucast e) (hs, d, w) = (Inr (), (hs', d', w))" and
      st': "dp_ok (hs', d', w)" "dp_interest (hs', d', w) = (dp_interest (hs, d, w))(s \<mapsto> fe)"
      by (auto simp: st id)
    have "handled_open V (hs', d', w)"
      using inv h by (intro open_if [OF st'(2,1)]) (auto simp: handled_open_def st)
    with run st' show ?thesis by (auto simp: st)
  qed
  show "\<exists>st'. dp_remove (poll_ops P hv spm sys) s st = (Inr (), st') \<and> (dp_ok st' \<and> handled_open V st') \<and>
      dp_interest st' = (dp_interest st)(s := None)"
    if s: "dp_interest st s \<noteq> None"
  proof -
    have h: "map_of hs s \<noteq> None" using s none by (simp add: st)
    then have "s \<in> open_fds V (os w)" using inv by (auto simp: handled_open_def st)
    then obtain w' where c: "system_socket_destruct P \<lparr>sock = s, close_flag = True\<rparr> w = (Inr (), w')"
      and w': "open_fds V (os w') = open_fds V (os w) - {s}"
      using close_cases [OF close, of "\<lparr>sock = s, close_flag = True\<rparr>" w] by auto
    from dp_destruct [OF ok h c, of hv spm sys] obtain hs' d' where
      run: "dp_remove (poll_ops P hv spm sys) s (hs, d, w) = (Inr (), (hs', d', w'))" and
      st': "dp_ok (hs', d', w')" "dp_interest (hs', d', w') = (dp_interest (hs, d, w))(s := None)" by auto
    have "handled_open V (hs', d', w')"
      using w' by (intro open_if [OF st'(2,1)]) auto
    with run st' show ?thesis by (auto simp: st)
  qed
qed

section \<open>Properties\<close>


text \<open>A handler that logs its call and cancels the handler of descriptor 5.\<close>

definition cancel5 :: "string \<Rightarrow> u32 \<Rightarrow> (string handler_map \<times> string list, unit) prog" where
  "cancel5 f ev = (\<lambda>(hs, log). Some (Inr (), (AList.delete 5 hs, log @ [f])))"


text \<open>
  C6.  The dispatcher on \<open>poll\<close> keeps handlers and registrations together.  Take any sequence of
  socket constructions, modifications and destructions a program may make (it registers a descriptor
  it has just obtained and that has no handler yet, and modifies and destroys living sockets only),
  on a kernel where \<open>close(2)\<close> of an open descriptor closes it: every operation returns, the handler
  map has exactly one handler for each living socket, the last one given, the demultiplexer waits for
  the events last requested, the descriptors of the living sockets are open, and the dispatcher is
  empty exactly when no socket is left.
\<close>

theorem dispatch_poll_handlers_consistent:
  assumes "close_law V P" and "new_fd_law V new" and "registrations_allowed rs {}"
  shows "\<exists>hs d w'. run_registrations (\<lambda>s fe. with_new_fd new s (dp_add (poll_ops P hv spm sys) s fe))
        (dp_change (poll_ops P hv spm sys)) (dp_remove (poll_ops P hv spm sys)) rs
        ([], (poll_construct, w)) = (Inr (), (hs, (d, w'))) \<and>
      (\<forall>s. map_of hs s = map_option fst (registered rs Map.empty s)) \<and>
      (\<forall>s. poll_interest d s = map_option snd (registered rs Map.empty s)) \<and>
      (\<forall>s. registered rs Map.empty s \<noteq> None \<longrightarrow> s \<in> open_fds V (os w')) \<and>
      (dispatch_empty (hs, (d, w')) \<longleftrightarrow> registered rs Map.empty = Map.empty)"
proof -
  note table = dp_table [OF assms(1,2), of hv spm sys]
  have ok: "dp_ok ([], (poll_construct, w)) \<and> handled_open V ([], (poll_construct, w))"
    and none: "dp_interest ([], (poll_construct, w)) = Map.empty"
    using poll_construct_ok by (auto simp: dp_ok_def dp_interest_def handled_open_def)
  from socket_table.run_registrations_refine [OF table ok, of rs] assms(3) obtain hs d w' where
    run: "run_registrations (\<lambda>s fe. with_new_fd new s (dp_add (poll_ops P hv spm sys) s fe)) (dp_change (poll_ops P hv spm sys))
        (dp_remove (poll_ops P hv spm sys)) rs ([], (poll_construct, w)) = (Inr (), (hs, (d, w')))"
    and ok': "dp_ok (hs, (d, w'))" and ho: "handled_open V (hs, (d, w'))"
    and i: "dp_interest (hs, (d, w')) = registered rs Map.empty"
    unfolding none by (auto simp: prod_eq_iff)
  have h: "map_of hs s = map_option fst (registered rs Map.empty s)"
      "poll_interest d s = map_option snd (registered rs Map.empty s)" for s
    using dp_interest_None [OF ok', of s] by (auto simp: dp_interest_def simp flip: i split: option.splits)
  have o: "\<forall>s. registered rs Map.empty s \<noteq> None \<longrightarrow> s \<in> open_fds V (os w')"
    using ho h(1) by (simp add: handled_open_def)
  have "map_of hs = Map.empty \<longleftrightarrow> registered rs Map.empty = Map.empty"
    using h(1) by (simp add: fun_eq_iff)
  then have "hs = [] \<longleftrightarrow> registered rs Map.empty = Map.empty" by simp
  with run h o show ?thesis by (auto simp: dispatch_empty_def)
qed

text \<open>In the simulated kernel, a program obtains a descriptor by opening it.\<close>

definition sim_new :: "int \<Rightarrow> sim world \<Rightarrow> sim world" where
  "sim_new s w = w\<lparr>os := (insert s (fst (os w)), snd (os w))\<rparr>"

lemma sim_new_law: "new_fd_law sim_view sim_new"
  by (simp add: new_fd_law_def sim_view_def sim_new_def)

theorem dispatch_poll_handlers_consistent_witness:
  "\<exists>hs d w'. run_registrations
        (\<lambda>s fe. with_new_fd sim_new s (dp_add (poll_ops sim_sock True (\<lambda>_ w. ((0, {}), w)) (\<lambda>ps to m w. ((0, []), w))) s fe))
        (dp_change (poll_ops sim_sock True (\<lambda>_ w. ((0, {}), w)) (\<lambda>ps to m w. ((0, []), w))))
        (dp_remove (poll_ops sim_sock True (\<lambda>_ w. ((0, {}), w)) (\<lambda>ps to m w. ((0, []), w))))
        [Register 4 (''a'', 1), Register 6 (''b'', 4), Change 4 (''c'', 5), Unregister 6, Register 6 (''d'', 1)]
        ([], (poll_construct, sim_world {})) = (Inr (), (hs, (d, w'))) \<and>
      map_of hs 4 = Some ''c'' \<and> poll_interest d 4 = Some 5 \<and> map_of hs 6 = Some ''d'' \<and> {4, 6} \<subseteq> fst (os w')"
  using dispatch_poll_handlers_consistent [OF sim_laws(2) sim_new_law,
      of "[Register 4 (''a'', 1), Register 6 (''b'', 4), Change 4 (''c'', 5), Unregister 6, Register 6 (''d'', 1)]"
      True "\<lambda>_ w. ((0, {}), w)" "\<lambda>ps to m w. ((0, []), w)" "sim_world {}"]
  by (auto simp: sim_view_def)

text \<open>
  C39.  On \<open>poll\<close>, which passes a report of error conditions alone on as \<open>no_events\<close>, the dispatcher
  fails its assertion as soon as such a report is next: a peer that hangs up, or a descriptor that is
  not open, aborts the program whatever the handlers are.
\<close>

theorem dispatch_poll_hangup_aborts:
  assumes "poll_n_events d \<noteq> 0" and "poll_current d < length (poll_pfd d)"
    and "0 \<le> pfd_fd (poll_pfd d ! poll_current d)" and "pfd_revents (poll_pfd d ! poll_current d) \<noteq> 0"
    and "pfd_revents (poll_pfd d ! poll_current d) AND NOT (POLLERR OR POLLHUP OR POLLNVAL) = 0"
  shows "\<exists>d'. dispatch_run (on_fst poll_pop_event) call (hs, (d, r)) = Some (Inl Assertion_failed, (hs, (d', r)))"
proof -
  let ?rv = "pfd_revents (poll_pfd d ! poll_current d)"
  have "\<not> bit ?rv n" if "n \<noteq> 3" "n \<noteq> 4" "n \<noteq> 5" "n < 15" for n
  proof -
    have "\<not> bit (?rv AND NOT (POLLERR OR POLLHUP OR POLLNVAL)) n"
      unfolding assms(5) by simp
    moreover have "bit POLLERR n \<longleftrightarrow> n = 3" "bit POLLHUP n \<longleftrightarrow> n = 4" "bit POLLNVAL n \<longleftrightarrow> n = 5"
      using bit_exp_iff [where 'a = "16 word", of 3 n] bit_exp_iff [where 'a = "16 word", of 4 n]
        bit_exp_iff [where 'a = "16 word", of 5 n] that
      by (simp_all add: POLLERR_def POLLHUP_def POLLNVAL_def)
    ultimately show ?thesis using that by (auto simp: bit_and_iff bit_not_iff bit_or_iff)
  qed
  then have "poll_event_of ?rv = no_events"
    unfolding poll_event_of_def POLLRDNORM_def POLLRDBAND_def POLLWRNORM_def
    by (subst normalize_events_none) (simp_all add: poll_codes_def bit_signed_iff)
  then have "poll_pop_event d = (Inr (Some (pfd_fd (poll_pfd d ! poll_current d), no_events)),
      d\<lparr>poll_current := poll_current d + 1, poll_n_events := poll_n_events d - 1\<rparr>)"
    using assms(1-4) by (simp add: poll_pop_event.simps [of d] Let_def)
  then show ?thesis
    by (subst dispatch_run.simps) (simp add: on_snd_def on_fst_def)
qed

theorem dispatch_poll_hangup_aborts_witness:
  "\<exists>d'. dispatch_run (on_fst poll_pop_event) (beside cancel5) ([(7, ''h'')],
     (poll_construct\<lparr>poll_pfd := [\<lparr>pfd_fd = 7, pfd_events = 1, pfd_revents = 16\<rparr>], poll_n_events := 1\<rparr>, [])) =
     Some (Inl Assertion_failed, ([(7, ''h'')], (d', [])))"
  by (rule dispatch_poll_hangup_aborts) (simp_all add: poll_construct_def POLLERR_def POLLHUP_def POLLNVAL_def)

end
