(* ===== verification/Ioxx_Time.thy ===== *)
theory Ioxx_Time
  imports Ioxx_Error
begin

text \<open>
  The class \<open>time_of_day\<close> of \<open>include/ioxx/time.hpp\<close>: the clock that the schedule and the resolver
  hold references to.  \<open>gettimeofday\<close> is an argument; it answers its return code and the time it
  stores.
\<close>

record timeval =
  tv_sec :: int
  tv_usec :: int

type_synonym 'k sys_gettimeofday = "('k, int \<times> timeval) syscall"

definition current_time_t :: "timeval \<Rightarrow> int" where
  "current_time_t now = tv_sec now"

definition current_timeval :: "timeval \<Rightarrow> timeval" where
  "current_timeval now = now"

definition time_update :: "'k sys_gettimeofday \<Rightarrow> (timeval \<times> 'k world, unit) op" where
  "time_update gtod =
     bind_op (on_snd (throw_errno_if (\<lambda>r _. -1 = fst r) ''gettimeofday(2)'' gtod))
       (\<lambda>(_, tv). on_fst (modify_op (\<lambda>_. tv)))"

text \<open>The constructor calls \<open>update\<close> on uninitialised storage.\<close>

definition time_construct :: "'k sys_gettimeofday \<Rightarrow> ('k world, timeval) op" where
  "time_construct gtod w =
     (case time_update gtod (\<lparr>tv_sec = 0, tv_usec = 0\<rparr>, w) of
        (Inl e, (_, w')) \<Rightarrow> (Inl e, w')
      | (Inr _, (now, w')) \<Rightarrow> (Inr now, w'))"

lemma time_update_success [op_simps]:
  "gtod w = ((0, tv), w') \<Longrightarrow> time_update gtod (now, w) = (Inr (), (tv, w'))"
  by (simp add: time_update_def op_simps)

end
