(* ===== verification/Ioxx_Dns_Answer.thy ===== *)
theory Ioxx_Dns_Answer
  imports Ioxx_Prelude Ioxx_Multimap
begin

text \<open>
  How the resolver of \<open>include/ioxx/detail/adns.hpp\<close> decodes an answer for the application: the
  functions \<open>handleA\<close>, \<open>handleMX\<close> and \<open>handlePTR\<close>.

  An \<open>adns_answer\<close> belongs to the adns library.  Its record holds the fields the code reads; the
  members of the union \<open>rrs\<close> are three lists, and the count \<open>nrrs\<close> is a field of its own, so that
  reading beyond an array is an outcome.  The value of each function is what it passes to the
  application's handler: \<^const>\<open>None\<close> for a null pointer.
\<close>

datatype rrtype = adns_r_a | adns_r_mx | adns_r_ptr

datatype status = adns_s_ok | adns_s_nxdomain | adns_s_nodata | adns_s_error nat

text \<open>An IPv4 address, as its four bytes.\<close>

type_synonym in_addr = "u8 \<times> u8 \<times> u8 \<times> u8"

record rr_hostaddr =
  ha_host :: string
  ha_naddrs :: int
  ha_addrs :: "in_addr list"

record adns_answer =
  an_type :: rrtype
  an_status :: status
  an_nrrs :: int
  an_inaddr :: "in_addr list"
  an_inthostaddr :: "(int \<times> rr_hostaddr) list"
  an_str :: "string list"

section \<open>Definitions\<close>

text \<open>\<open>inet_ntoa\<close> of the C library.\<close>

fun decimal :: "nat \<Rightarrow> string" where
  "decimal n = (if n < 10 then [char_of (48 + n)] else decimal (n div 10) @ [char_of (48 + n mod 10)])"

declare decimal.simps [simp del]

fun inet_ntoa :: "in_addr \<Rightarrow> string" where
  "inet_ntoa (a, b, c, d) =
     decimal (unat a) @ ''.'' @ decimal (unat b) @ ''.'' @ decimal (unat c) @ ''.'' @ decimal (unat d)"

text \<open>The elements the loop \<open>for (int i(0); i != n; ++i)\<close> reads from an array.\<close>

definition read_array :: "int \<Rightarrow> 'a list \<Rightarrow> fault + 'a list" where
  "read_array n xs = (if n \<le> int (length xs) then Inr (take (nat n) xs) else Inl Undefined_behaviour)"

text \<open>The three cases of the \<open>switch\<close> on the status, over what is done when there is data.\<close>

definition by_status :: "adns_answer \<Rightarrow> 'a \<Rightarrow> (fault + 'a) \<Rightarrow> fault + 'a option" where
  "by_status a nothing data =
     (case an_status a of
        adns_s_ok \<Rightarrow> (case data of Inl e \<Rightarrow> Inl e | Inr x \<Rightarrow> Inr (Some x))
      | adns_s_nxdomain \<Rightarrow> (if an_nrrs a = 0 then Inr (Some nothing) else Inl Assertion_failed)
      | adns_s_nodata \<Rightarrow> (if an_nrrs a = 0 then Inr (Some nothing) else Inl Assertion_failed)
      | adns_s_error _ \<Rightarrow> (if an_nrrs a = 0 then Inr None else Inl Assertion_failed))"

definition handleA :: "adns_answer \<Rightarrow> fault + string list option" where
  "handleA a =
     (if an_type a \<noteq> adns_r_a then Inl Assertion_failed
      else by_status a []
        (if \<not> 0 < an_nrrs a then Inl Assertion_failed
         else map_sum id (map inet_ntoa) (read_array (an_nrrs a) (an_inaddr a))))"

definition hostaddrs :: "rr_hostaddr \<Rightarrow> fault + string list" where
  "hostaddrs addr =
     (if 0 < ha_naddrs addr then map_sum id (map inet_ntoa) (read_array (ha_naddrs addr) (ha_addrs addr)) else Inr [])"

text \<open>The loop over the sorted entries, which builds the list of names with their addresses.\<close>

fun mx_names :: "(int \<times> rr_hostaddr) list \<Rightarrow> fault + (string \<times> string list) list" where
  "mx_names [] = Inr []"
| "mx_names ((_, addr) # xs) =
     (case hostaddrs addr of
        Inl e \<Rightarrow> Inl e
      | Inr ha \<Rightarrow> (case mx_names xs of Inl e \<Rightarrow> Inl e | Inr mxs \<Rightarrow> Inr ((ha_host addr, ha) # mxs)))"

definition handleMX :: "adns_answer \<Rightarrow> fault + (string \<times> string list) list option" where
  "handleMX a =
     (if an_type a \<noteq> adns_r_mx then Inl Assertion_failed
      else by_status a []
        (if \<not> 0 < an_nrrs a then Inl Assertion_failed
         else (case read_array (an_nrrs a) (an_inthostaddr a) of
                 Inl e \<Rightarrow> Inl e
               | Inr rrs \<Rightarrow> mx_names (mm_of_list rrs))))"

definition handlePTR :: "adns_answer \<Rightarrow> fault + string option" where
  "handlePTR a =
     (if an_type a \<noteq> adns_r_ptr then Inl Assertion_failed
      else by_status a ''''
        (if an_nrrs a \<noteq> 1 then Inl Assertion_failed
         else (case an_str a of [] \<Rightarrow> Inl Undefined_behaviour | str # _ \<Rightarrow> Inr str)))"

section \<open>What a well-formed answer decodes to\<close>

text \<open>What the adns library guarantees of an answer: the count is the length of the array of its type,
  and is positive exactly for a successful query.\<close>

definition answer_wf :: "adns_answer \<Rightarrow> bool" where
  "answer_wf a \<longleftrightarrow>
     (if an_status a = adns_s_ok then 0 < an_nrrs a else an_nrrs a = 0) \<and>
     (case an_type a of
        adns_r_a \<Rightarrow> an_nrrs a = int (length (an_inaddr a))
      | adns_r_mx \<Rightarrow> an_nrrs a = int (length (an_inthostaddr a)) \<and>
          (\<forall>x \<in> set (an_inthostaddr a). ha_naddrs (snd x) \<le> int (length (ha_addrs (snd x))))
      | adns_r_ptr \<Rightarrow> an_nrrs a = int (length (an_str a)) \<and> an_nrrs a \<le> 1)"

lemma read_array_all: "n = int (length xs) \<Longrightarrow> read_array n xs = Inr xs"
  by (simp add: read_array_def)

definition addresses :: "rr_hostaddr \<Rightarrow> string list" where
  "addresses addr = map inet_ntoa (take (nat (ha_naddrs addr)) (ha_addrs addr))"

lemma hostaddrs_wf: "ha_naddrs addr \<le> int (length (ha_addrs addr)) \<Longrightarrow> hostaddrs addr = Inr (addresses addr)"
  by (auto simp: hostaddrs_def addresses_def read_array_def)

lemma mx_names_wf:
  "\<forall>x \<in> set xs. ha_naddrs (snd x) \<le> int (length (ha_addrs (snd x))) \<Longrightarrow>
   mx_names xs = Inr (map (\<lambda>(_, addr). (ha_host addr, addresses addr)) xs)"
  by (induction xs rule: mx_names.induct) (simp_all add: hostaddrs_wf)

section \<open>Properties\<close>

text \<open>
  C33.  The mail exchangers of a successful answer reach the application in the order of their
  preference, those of equal preference in the order of the answer, each with its host name and the
  printed form of its addresses; an answer that says that the name or the data does not exist is an
  empty list, and every other failure is a null pointer.  No assertion fails and no array is read
  beyond its end.
\<close>

theorem handleMX_sorted:
  assumes "answer_wf a" and "an_type a = adns_r_mx"
  shows "handleMX a =
    (case an_status a of
       adns_s_ok \<Rightarrow> Inr (Some (map (\<lambda>(_, addr). (ha_host addr, addresses addr)) (sort_key fst (an_inthostaddr a))))
     | adns_s_nxdomain \<Rightarrow> Inr (Some [])
     | adns_s_nodata \<Rightarrow> Inr (Some [])
     | adns_s_error _ \<Rightarrow> Inr None)"
  using assms
  by (auto simp: answer_wf_def handleMX_def by_status_def read_array_all mm_of_list_sorts mx_names_wf
      split: status.split if_splits)

definition example_mx :: adns_answer where
  "example_mx = \<lparr>an_type = adns_r_mx, an_status = adns_s_ok, an_nrrs = 2, an_inaddr = [],
     an_inthostaddr = [(20, \<lparr>ha_host = ''b'', ha_naddrs = -1, ha_addrs = []\<rparr>),
       (10, \<lparr>ha_host = ''a'', ha_naddrs = 1, ha_addrs = [(127, 0, 0, 1)]\<rparr>)], an_str = []\<rparr>"

theorem handleMX_sorted_witness:
  "handleMX example_mx = Inr (Some [(''a'', [''127.0.0.1'']), (''b'', [])])"
proof -
  have "answer_wf example_mx" "an_type example_mx = adns_r_mx"
    by (simp_all add: answer_wf_def example_mx_def)
  from handleMX_sorted [OF this] show ?thesis
    by (simp add: example_mx_def addresses_def decimal.simps char_of_def bit_Suc_0_iff)
qed

text \<open>
  Address and name queries: the addresses of a successful answer are passed on in order and
  printed, the name of a reverse query is passed on as it is; "does not exist" is an empty list or
  name and every other failure a null pointer.
\<close>

theorem handleA_PTR_spec:
  assumes "answer_wf a"
  shows "(an_type a = adns_r_a \<longrightarrow> handleA a =
      (case an_status a of adns_s_ok \<Rightarrow> Inr (Some (map inet_ntoa (an_inaddr a))) | adns_s_error _ \<Rightarrow> Inr None | _ \<Rightarrow> Inr (Some []))) \<and>
    (an_type a = adns_r_ptr \<longrightarrow> handlePTR a =
      (case an_status a of adns_s_ok \<Rightarrow> Inr (Some (hd (an_str a))) | adns_s_error _ \<Rightarrow> Inr None | _ \<Rightarrow> Inr (Some '''')))"
  using assms
  by (auto simp: answer_wf_def handleA_def handlePTR_def by_status_def read_array_all neq_Nil_conv
      split: status.split if_splits list.split)

theorem handleA_PTR_spec_witness:
  "handlePTR \<lparr>an_type = adns_r_ptr, an_status = adns_s_ok, an_nrrs = 1, an_inaddr = [], an_inthostaddr = [], an_str = [''host'']\<rparr>
     = Inr (Some ''host'')"
  using handleA_PTR_spec [of "\<lparr>an_type = adns_r_ptr, an_status = adns_s_ok, an_nrrs = 1, an_inaddr = [], an_inthostaddr = [], an_str = [''host'']\<rparr>"]
  by (simp add: answer_wf_def)

end
