(* ===== verification/Ioxx_Adns.thy ===== *)
theory Ioxx_Adns
  imports Ioxx_Dispatch Ioxx_Schedule Ioxx_Time Ioxx_Dns_Answer
begin

text \<open>
  The asynchronous resolver of \<open>include/ioxx/detail/adns.hpp\<close>, on top of the GNU adns library, the
  schedule and the dispatcher.

  The adns library is not part of the repository: its functions are the fields of a record, and its
  state, which the code only points to, is part of the world.  Its functions answer an error code.
  \<open>adns_queries\<close> stands for the iteration of \<open>adns_forallqueries_begin\<close> and \<open>adns_forallqueries_next\<close>:
  the identifiers of the outstanding queries.  The state of a program that uses the resolver is a
  record of the schedule, the dispatcher, the resolver and the clock they share; an application
  extends it.

  The callback in the map of queries is \<open>boost::bind(handleA, _1, h)\<close> and its like: the kind of the
  query and the application's handler, \<^const>\<open>None\<close> for an empty one.  The argument \<open>call\<close> says what
  calling a handler with a decoded answer does to the program; it may submit further queries.
\<close>

unbundle bit_operations_syntax

datatype queryflags = adns_qf_none | adns_qf_cname_forbid

text \<open>The operators on the flags for \<open>adns_init\<close>, which cast to \<open>int\<close> and back.  The values of the flags
  that the code uses are the library's.\<close>

definition initflags_or :: "int \<Rightarrow> int \<Rightarrow> int" where
  "initflags_or l r = l OR r"

definition initflags_and :: "int \<Rightarrow> int \<Rightarrow> int" where
  "initflags_and l r = l AND r"

record 'k adns_lib =
  adns_if_noautosys :: int
  adns_if_nosigpipe :: int
  adns_if_debug :: int
  adns_if_checkc_freq :: int
  adns_init :: "int \<Rightarrow> ('k, int \<times> bool) syscall"
  adns_finish :: "('k, unit) syscall"
  adns_submit :: "string \<Rightarrow> rrtype \<Rightarrow> queryflags \<Rightarrow> ('k, int \<times> int) syscall"
  adns_submit_reverse :: "address \<Rightarrow> rrtype \<Rightarrow> queryflags \<Rightarrow> ('k, int \<times> int) syscall"
  adns_check :: "('k, int \<times> int \<times> adns_answer option) syscall"
  adns_beforepoll :: "pollfd list \<Rightarrow> int \<Rightarrow> int \<Rightarrow> timeval \<Rightarrow> ('k, int \<times> pollfd list \<times> int \<times> int) syscall"
  adns_processreadable :: "int \<Rightarrow> timeval \<Rightarrow> ('k, int) syscall"
  adns_processwriteable :: "int \<Rightarrow> timeval \<Rightarrow> ('k, int) syscall"
  adns_processexceptional :: "int \<Rightarrow> timeval \<Rightarrow> ('k, int) syscall"
  adns_processtimeouts :: "timeval \<Rightarrow> ('k, unit) syscall"
  adns_queries :: "'k world \<Rightarrow> int list"

datatype 'u callback = Callback_A "'u option" | Callback_MX "'u option" | Callback_PTR "'u option"

text \<open>What an application's handler is called with.\<close>

datatype dns_result =
    Addresses "string list option" | Exchangers "(string \<times> string list) list option" | Name "string option"

record 'u adns =
  adns_timeout :: task_id
  queries :: "(int \<times> 'u callback) list"
  registered_sockets :: "int list"
  pfds :: "pollfd list"

record ('f, 'h, 'd, 'u, 'k) core_state =
  core_now :: timeval
  core_schedule :: "'f schedule"
  core_dispatch :: "'h handler_map \<times> ('d \<times> 'k world)"
  core_dns :: "'u adns"

section \<open>Operations on a part of the state\<close>

definition on_schedule :: "('f schedule, 'a) op \<Rightarrow> (('f, 'h, 'd, 'u, 'k, 'm) core_state_scheme, 'a) op" where
  "on_schedule m st = (case m (core_schedule st) of (r, s) \<Rightarrow> (r, st\<lparr>core_schedule := s\<rparr>))"

definition on_dispatch :: "('h handler_map \<times> ('d \<times> 'k world), 'a) op \<Rightarrow> (('f, 'h, 'd, 'u, 'k, 'm) core_state_scheme, 'a) op" where
  "on_dispatch m st = (case m (core_dispatch st) of (r, s) \<Rightarrow> (r, st\<lparr>core_dispatch := s\<rparr>))"

definition on_world :: "('k world, 'a) op \<Rightarrow> (('f, 'h, 'd, 'u, 'k, 'm) core_state_scheme, 'a) op" where
  "on_world m = on_dispatch (on_snd (on_snd m))"

definition on_dns :: "('u adns, 'a) op \<Rightarrow> (('f, 'h, 'd, 'u, 'k, 'm) core_state_scheme, 'a) op" where
  "on_dns m st = (case m (core_dns st) of (r, s) \<Rightarrow> (r, st\<lparr>core_dns := s\<rparr>))"

abbreviation the_world :: "('f, 'h, 'd, 'u, 'k, 'm) core_state_scheme \<Rightarrow> 'k world" where
  "the_world st \<equiv> snd (snd (core_dispatch st))"

definition lib_call :: "('k, 'r) syscall \<Rightarrow> ('k world, 'r) op" where
  "lib_call f w = (case f w of (r, w') \<Rightarrow> (Inr r, w'))"

definition throw_rc_if_not_zero :: "int \<Rightarrow> string \<Rightarrow> ('s, unit) op" where
  "throw_rc_if_not_zero rc ctx = (if rc = 0 then ret () else raise_op (System_error rc ctx))"

section \<open>Queries\<close>

definition adns_check_consistency :: "'k adns_lib \<Rightarrow> (('f, 'h, 'd, 'u, 'k, 'm) core_state_scheme, unit) op" where
  "adns_check_consistency L st =
     assert_op (\<forall>qid \<in> set (takeWhile (\<lambda>q. q \<noteq> 0) (adns_queries L (the_world st))).
        map_of (queries (core_dns st)) qid \<noteq> None) st"

definition register_callback :: "int \<Rightarrow> 'u callback \<Rightarrow> ('u adns, unit) op" where
  "register_callback qid f = modify_op (\<lambda>a. a\<lparr>queries := AList.update qid f (queries a)\<rparr>)"

definition adns_submit_query ::
  "'k adns_lib \<Rightarrow> string \<Rightarrow> rrtype \<Rightarrow> queryflags \<Rightarrow> 'u callback \<Rightarrow> (('f, 'h, 'd, 'u, 'k, 'm) core_state_scheme, unit) op" where
  "adns_submit_query L owner rrt flags f =
     bind_op (on_world (lib_call (adns_submit L owner rrt flags)))
       (\<lambda>(rc, qid). then_op (throw_rc_if_not_zero rc ''adns_submit()'')
         (then_op (on_dns (register_callback qid f)) (adns_check_consistency L)))"

definition query_a :: "'k adns_lib \<Rightarrow> string \<Rightarrow> 'u option \<Rightarrow> (('f, 'h, 'd, 'u, 'k, 'm) core_state_scheme, unit) op" where
  "query_a L owner h =
     then_op (assert_op (h \<noteq> None)) (adns_submit_query L owner adns_r_a adns_qf_none (Callback_A h))"

definition query_a_no_cname :: "'k adns_lib \<Rightarrow> string \<Rightarrow> 'u option \<Rightarrow> (('f, 'h, 'd, 'u, 'k, 'm) core_state_scheme, unit) op" where
  "query_a_no_cname L owner h =
     then_op (assert_op (h \<noteq> None)) (adns_submit_query L owner adns_r_a adns_qf_cname_forbid (Callback_A h))"

definition query_mx :: "'k adns_lib \<Rightarrow> string \<Rightarrow> 'u option \<Rightarrow> (('f, 'h, 'd, 'u, 'k, 'm) core_state_scheme, unit) op" where
  "query_mx L owner h =
     then_op (assert_op (h \<noteq> None)) (adns_submit_query L owner adns_r_mx adns_qf_none (Callback_MX h))"

definition query_ptr :: "'k adns_lib \<Rightarrow> string \<Rightarrow> 'u option \<Rightarrow> (('f, 'h, 'd, 'u, 'k, 'm) core_state_scheme, unit) op" where
  "query_ptr L owner h =
     then_op (assert_op (h \<noteq> None)) (adns_submit_query L owner adns_r_ptr adns_qf_none (Callback_PTR h))"

definition query_ptr_address :: "'k adns_lib \<Rightarrow> address \<Rightarrow> 'u option \<Rightarrow> (('f, 'h, 'd, 'u, 'k, 'm) core_state_scheme, unit) op" where
  "query_ptr_address L addr h =
     bind_op (on_world (lib_call (adns_submit_reverse L addr adns_r_ptr adns_qf_none)))
       (\<lambda>(rc, qid). then_op (throw_rc_if_not_zero rc ''adns_submit_reverse()'')
         (then_op (on_dns (register_callback qid (Callback_PTR h))) (adns_check_consistency L)))"

definition adns_empty :: "'u adns \<Rightarrow> bool" where
  "adns_empty a \<longleftrightarrow> queries a = []"

section \<open>Answers\<close>

type_synonym ('s, 'u) dns_call = "'u \<Rightarrow> dns_result \<Rightarrow> ('s, unit) prog"

text \<open>Calling a \<open>boost::function\<close>; an empty one throws.\<close>

definition call_handler :: "('s, 'u) dns_call \<Rightarrow> 'u option \<Rightarrow> fault + dns_result \<Rightarrow> ('s, unit) prog" where
  "call_handler call h arg =
     (case arg of
        Inl e \<Rightarrow> lift_op (raise_op e)
      | Inr x \<Rightarrow> (case h of
          None \<Rightarrow> lift_op (raise_op (Runtime_error ''call to empty boost::function''))
        | Some u \<Rightarrow> call u x))"

fun call_callback :: "('s, 'u) dns_call \<Rightarrow> 'u callback \<Rightarrow> adns_answer \<Rightarrow> ('s, unit) prog" where
  "call_callback call (Callback_A h) a = call_handler call h (map_sum id Addresses (handleA a))"
| "call_callback call (Callback_MX h) a = call_handler call h (map_sum id Exchangers (handleMX a))"
| "call_callback call (Callback_PTR h) a = call_handler call h (map_sum id Name (handlePTR a))"

text \<open>\<open>_registered_sockets.clear()\<close> and the erasure of a range: each \<open>shared_ptr\<close> is the only owner of
  its socket, which does not own its descriptor.\<close>

fun destroy_sockets ::
  "('d \<times> 'k world) demux_ops \<Rightarrow> int list \<Rightarrow> (('f, 'h, 'd, 'u, 'k, 'm) core_state_scheme, unit) op" where
  "destroy_sockets M [] = ret ()"
| "destroy_sockets M (s # ss) =
     then_op (on_dns (modify_op (\<lambda>a. a\<lparr>registered_sockets := remove1 s (registered_sockets a)\<rparr>)))
       (then_op (on_dispatch (dispatch_socket_destruct M \<lparr>sock = s, close_flag = False\<rparr>)) (destroy_sockets M ss))"

definition clear_sockets :: "('d \<times> 'k world) demux_ops \<Rightarrow> (('f, 'h, 'd, 'u, 'k, 'm) core_state_scheme, unit) op" where
  "clear_sockets M st = destroy_sockets M (registered_sockets (core_dns st)) st"

partial_function (option) deliver_responses ::
  "('d \<times> 'k world) demux_ops \<Rightarrow> 'k adns_lib \<Rightarrow> (('f, 'h, 'd, 'u, 'k, 'm) core_state_scheme, 'u) dns_call \<Rightarrow>
   ('f, 'h, 'd, 'u, 'k, 'm) core_state_scheme \<Rightarrow> ((fault + unit) \<times> ('f, 'h, 'd, 'u, 'k, 'm) core_state_scheme) option" where
  "deliver_responses M L call st =
     (case on_world (lib_call (adns_check L)) st of
        (Inl e, st1) \<Rightarrow> Some (Inl e, st1)
      | (Inr (rc, qid, a), st1) \<Rightarrow>
          if rc = EINTR then deliver_responses M L call st1
          else if rc = ESRCH then
            Some (then_op (assert_op (queries (core_dns st1) = [])) (clear_sockets M) st1)
          else if rc = EAGAIN then
            Some (then_op (assert_op (queries (core_dns st1) \<noteq> [])) (adns_check_consistency L) st1)
          else if rc \<noteq> 0 then Some (Inl (System_error rc ''adns_check()''), st1)
          else (case a of
                  None \<Rightarrow> Some (Inl Assertion_failed, st1)
                | Some ans \<Rightarrow>
                    (case map_of (queries (core_dns st1)) qid of
                       None \<Rightarrow> Some (Inl Assertion_failed, st1)
                     | Some f \<Rightarrow>
                         (case call_callback call f ans
                              (st1\<lparr>core_dns := (core_dns st1)\<lparr>queries := AList.delete qid (queries (core_dns st1))\<rparr>\<rparr>) of
                            None \<Rightarrow> None
                          | Some (Inl e, st2) \<Rightarrow> Some (Inl e, st2)
                          | Some (Inr _, st2) \<Rightarrow> deliver_responses M L call st2))))"

definition process_fd ::
  "('d \<times> 'k world) demux_ops \<Rightarrow> 'k adns_lib \<Rightarrow> (('f, 'h, 'd, 'u, 'k, 'm) core_state_scheme, 'u) dns_call \<Rightarrow>
   int \<Rightarrow> u32 \<Rightarrow> (('f, 'h, 'd, 'u, 'k, 'm) core_state_scheme, unit) prog" where
  "process_fd M L call fd ev =
     (let step = (\<lambda>b f ctx. if has_event ev b
           then (\<lambda>st. bind_op (on_world (lib_call (f fd (core_now st)))) (\<lambda>rc. throw_rc_if_not_zero rc ctx) st)
           else ret ())
      in then_prog (lift_op (step (readable (dm_codes M)) (adns_processreadable L) ''adns_processreadable''))
        (then_prog (lift_op (step (writable (dm_codes M)) (adns_processwriteable L) ''adns_processwriteable''))
          (then_prog (lift_op (step (pridata (dm_codes M)) (adns_processexceptional L) ''adns_processexceptional''))
            (deliver_responses M L call))))"

definition process_timeout ::
  "('d \<times> 'k world) demux_ops \<Rightarrow> 'k adns_lib \<Rightarrow> (('f, 'h, 'd, 'u, 'k, 'm) core_state_scheme, 'u) dns_call \<Rightarrow>
   (('f, 'h, 'd, 'u, 'k, 'm) core_state_scheme, unit) prog" where
  "process_timeout M L call =
     then_prog (lift_op (\<lambda>st. on_world (lib_call (adns_processtimeouts L (core_now st))) st))
       (deliver_responses M L call)"

section \<open>Preparing for the next wait\<close>

text \<open>The delay in whole seconds: \<open>timeout / 1000\<close>, one more when there is a remainder.\<close>

definition adns_delay :: "int \<Rightarrow> u32" where
  "adns_delay timeout =
     (let to = word_of_int (timeout div 1000) in if timeout mod 1000 \<noteq> 0 then to + 1 else to)"

definition arm_timeout :: "'f \<Rightarrow> u32 \<Rightarrow> (('f, 'h, 'd, 'u, 'k, 'm) core_state_scheme, unit) op" where
  "arm_timeout task to st =
     bind_op (on_schedule (timeout_in (tv_sec (core_now st)) to task (adns_timeout (core_dns st))))
       (\<lambda>(_, tid). on_dns (modify_op (\<lambda>a. a\<lparr>adns_timeout := tid\<rparr>))) st"

definition disarm_timeout :: "(('f, 'h, 'd, 'u, 'k, 'm) core_state_scheme, unit) op" where
  "disarm_timeout st =
     bind_op (on_schedule (timeout_cancel (adns_timeout (core_dns st))))
       (\<lambda>(_, tid). on_dns (modify_op (\<lambda>a. a\<lparr>adns_timeout := tid\<rparr>))) st"

text \<open>\<open>_pfds.resize(n)\<close>.\<close>

definition resize_pfds :: "nat \<Rightarrow> pollfd list \<Rightarrow> pollfd list" where
  "resize_pfds n ps = take n ps @ replicate (n - length ps) \<lparr>pfd_fd = 0, pfd_events = 0, pfd_revents = 0\<rparr>"

text \<open>The loop around \<open>adns_beforepoll\<close>; the first argument after the parameters is \<open>nfds\<close>, the result
  is its last value.  \<open>task\<close> is \<open>boost::bind(&adns::process_timeout, this)\<close>.\<close>

partial_function (option) adns_prepare ::
  "('d \<times> 'k world) demux_ops \<Rightarrow> 'k adns_lib \<Rightarrow> (('f, 'h, 'd, 'u, 'k, 'm) core_state_scheme, 'u) dns_call \<Rightarrow> 'f \<Rightarrow> int \<Rightarrow>
   ('f, 'h, 'd, 'u, 'k, 'm) core_state_scheme \<Rightarrow> ((fault + int) \<times> ('f, 'h, 'd, 'u, 'k, 'm) core_state_scheme) option" where
  "adns_prepare M L call task nfds st =
     (case on_world (lib_call (adns_beforepoll L (pfds (core_dns st)) nfds (-1) (core_now st))) st of
        (Inl e, st1) \<Rightarrow> Some (Inl e, st1)
      | (Inr (rc, ps, nfds1, timeout), st0) \<Rightarrow>
          let st1 = st0\<lparr>core_dns := (core_dns st0)\<lparr>pfds := ps\<rparr>\<rparr> in
          if rc = ERANGE then
            (if \<not> 0 < nfds1 then Some (Inl Assertion_failed, st1)
             else adns_prepare M L call task nfds1
                    (st1\<lparr>core_dns := (core_dns st1)\<lparr>pfds := resize_pfds (nat nfds1) ps\<rparr>\<rparr>))
          else if rc \<noteq> 0 then Some (Inl (System_error rc ''adns_beforepoll()''), st1)
          else if \<not> 0 \<le> timeout then Some (Inl Assertion_failed, st1)
          else if timeout = 0 then
            (case process_timeout M L call st1 of
               None \<Rightarrow> None
             | Some (Inl e, st2) \<Rightarrow> Some (Inl e, st2)
             | Some (Inr _, st2) \<Rightarrow> adns_prepare M L call task nfds1 st2)
          else Some (then_op (arm_timeout task (adns_delay timeout)) (ret nfds1) st1))"

text \<open>The event set a \<open>pollfd\<close> of the adns library asks for.\<close>

definition pfd_request :: "event_codes \<Rightarrow> pollfd \<Rightarrow> u32" where
  "pfd_request c p =
     event_or (event_or (event_if (pfd_events p AND 1 \<noteq> 0) (readable c)) (event_if (pfd_events p AND 4 \<noteq> 0) (writable c)))
       (event_if (pfd_events p AND 2 \<noteq> 0) (pridata c))"

text \<open>\<open>fd_handler fd\<close> is \<open>boost::bind(&adns::process_fd, this, fd, _1)\<close>.  The set of registered sockets
  is ordered by descriptor.\<close>

definition register_fd ::
  "('d \<times> 'k world) demux_ops \<Rightarrow> (int \<Rightarrow> 'h) \<Rightarrow> pollfd \<Rightarrow> (('f, 'h, 'd, 'u, 'k, 'm) core_state_scheme, unit) op" where
  "register_fd M fd_handler p =
     then_op (assert_op (0 \<le> pfd_fd p))
       (then_op (assert_op (pfd_events p \<noteq> 0))
         (then_op (assert_op (pfd_request (dm_codes M) p \<noteq> no_events))
           (then_op (on_dispatch (dispatch_socket_construct M (pfd_fd p) (fd_handler (pfd_fd p)) (pfd_request (dm_codes M) p)))
             (\<lambda>st. then_op (on_dns (modify_op (\<lambda>a. a\<lparr>registered_sockets :=
                         (if pfd_fd p \<in> set (registered_sockets a) then registered_sockets a
                          else insort (pfd_fd p) (registered_sockets a))\<rparr>)))
                     (assert_op (pfd_fd p \<notin> set (registered_sockets (core_dns st)))) st))))"

text \<open>The loop that merges the requested descriptors with the registered ones.\<close>

fun adns_merge ::
  "('d \<times> 'k world) demux_ops \<Rightarrow> (int \<Rightarrow> 'h) \<Rightarrow> pollfd list \<Rightarrow> int list \<Rightarrow> (('f, 'h, 'd, 'u, 'k, 'm) core_state_scheme, unit) op" where
  "adns_merge M fdh [] reg = destroy_sockets M reg"
| "adns_merge M fdh (p # ps) [] = then_op (register_fd M fdh p) (adns_merge M fdh ps [])"
| "adns_merge M fdh (p # ps) (s # ss) =
     (if pfd_fd p < s then then_op (register_fd M fdh p) (adns_merge M fdh ps (s # ss))
      else if pfd_fd p = s then
        then_op (on_dispatch (on_snd (dm_request M s (pfd_request (dm_codes M) p)))) (adns_merge M fdh ps ss)
      else then_op (destroy_sockets M [s]) (adns_merge M fdh (p # ps) ss))"

definition adns_reregister ::
  "('d \<times> 'k world) demux_ops \<Rightarrow> (int \<Rightarrow> 'h) \<Rightarrow> int \<Rightarrow> (('f, 'h, 'd, 'u, 'k, 'm) core_state_scheme, unit) op" where
  "adns_reregister M fdh nfds st =
     then_op (assert_op (0 \<le> nfds))
       (then_op (guard_op (nat nfds \<le> length (pfds (core_dns st)) \<and> pfds (core_dns st) \<noteq> []))
         (then_op (on_dns (modify_op (\<lambda>a. a\<lparr>pfds := sort_key pfd_fd (take (nat nfds) (pfds a)) @ drop (nat nfds) (pfds a)\<rparr>)))
           (\<lambda>st. adns_merge M fdh (take (nat nfds) (pfds (core_dns st))) (registered_sockets (core_dns st)) st))) st"

definition adns_run ::
  "('d \<times> 'k world) demux_ops \<Rightarrow> 'k adns_lib \<Rightarrow> (('f, 'h, 'd, 'u, 'k, 'm) core_state_scheme, 'u) dns_call \<Rightarrow> 'f \<Rightarrow> (int \<Rightarrow> 'h) \<Rightarrow>
   (('f, 'h, 'd, 'u, 'k, 'm) core_state_scheme, unit) prog" where
  "adns_run M L call task fdh =
     then_prog (lift_op (then_op (adns_check_consistency L) disarm_timeout))
       (\<lambda>st. if queries (core_dns st) = [] then lift_op (clear_sockets M) st
             else bind_prog (adns_prepare M L call task (int (length (pfds (core_dns st)))))
                    (\<lambda>nfds. lift_op (adns_reregister M fdh nfds)) st)"

section \<open>Life time\<close>

definition ADNS_POLLFDS_RECOMMENDED :: nat where
  "ADNS_POLLFDS_RECOMMENDED = 2"

definition adns_flags :: "'k adns_lib \<Rightarrow> int" where
  "adns_flags L =
     (let flags = initflags_or (adns_if_noautosys L) (adns_if_nosigpipe L)
      in initflags_or flags (initflags_or (adns_if_debug L) (adns_if_checkc_freq L)))"

definition adns_construct :: "'k adns_lib \<Rightarrow> ('k world, 'u adns) op" where
  "adns_construct L =
     bind_op (lib_call (adns_init L (adns_flags L)))
       (\<lambda>(rc, state). then_op (throw_rc_if_not_zero rc ''cannot initialize adns'')
         (then_op (assert_op state)
           (ret \<lparr>adns_timeout = timeout_new, queries = [], registered_sockets = [],
                 pfds = replicate ADNS_POLLFDS_RECOMMENDED \<lparr>pfd_fd = 0, pfd_events = 0, pfd_revents = 0\<rparr>\<rparr>)))"

definition adns_destruct :: "('d \<times> 'k world) demux_ops \<Rightarrow> 'k adns_lib \<Rightarrow> (('f, 'h, 'd, 'u, 'k, 'm) core_state_scheme, unit) op" where
  "adns_destruct M L =
     with_dtor (then_op (clear_sockets M) (on_world (lib_call (adns_finish L)))) disarm_timeout"

section \<open>Queries and callbacks agree\<close>

fun callback_type :: "'u callback \<Rightarrow> rrtype" where
  "callback_type (Callback_A h) = adns_r_a"
| "callback_type (Callback_MX h) = adns_r_mx"
| "callback_type (Callback_PTR h) = adns_r_ptr"

text \<open>\<open>Q\<close> reads the outstanding queries and their types off the library's state.  The resolver is
  consistent when it has exactly one callback, of the right kind, for each of them; it is what
  \<open>check_consistency\<close> checks, and more.\<close>

definition dns_ok :: "('k \<Rightarrow> int \<rightharpoonup> rrtype) \<Rightarrow> ('f, 'h, 'd, 'u, 'k, 'm) core_state_scheme \<Rightarrow> bool" where
  "dns_ok Q st \<longleftrightarrow> Q (os (the_world st)) = map_option callback_type \<circ> map_of (queries (core_dns st))"

text \<open>The documented behaviour of the library: an identifier is not 0, \<open>adns_submit\<close> issues a fresh
  one, \<open>adns_check\<close> answers an outstanding query with a well-formed answer of its type and forgets it,
  fails with \<open>EAGAIN\<close> when no answer is there yet and with \<open>ESRCH\<close> when no query is outstanding.\<close>

definition adns_check_law :: "('k \<Rightarrow> int \<rightharpoonup> rrtype) \<Rightarrow> 'k adns_lib \<Rightarrow> bool" where
  "adns_check_law Q L \<longleftrightarrow>
     (\<forall>w. set (adns_queries L w) = dom (Q (os w)) \<and> 0 \<notin> dom (Q (os w))) \<and>
     (\<forall>w rc qid a w'. adns_check L w = ((rc, qid, a), w') \<longrightarrow>
        (if rc = 0 then \<exists>ans. a = Some ans \<and> Q (os w) qid = Some (an_type ans) \<and> answer_wf ans \<and>
             Q (os w') = (Q (os w))(qid := None)
         else Q (os w') = Q (os w) \<and> (rc = ESRCH \<longleftrightarrow> Q (os w) = Map.empty)))"

definition adns_submit_law :: "('k \<Rightarrow> int \<rightharpoonup> rrtype) \<Rightarrow> 'k adns_lib \<Rightarrow> bool" where
  "adns_submit_law Q L \<longleftrightarrow>
     (\<forall>w. set (adns_queries L w) = dom (Q (os w)) \<and> 0 \<notin> dom (Q (os w))) \<and>
     (\<forall>owner rrt flags w rc qid w'. adns_submit L owner rrt flags w = ((rc, qid), w') \<longrightarrow>
        (if rc = 0 then Q (os w) qid = None \<and> Q (os w') = (Q (os w))(qid \<mapsto> rrt) else Q (os w') = Q (os w))) \<and>
     (\<forall>addr rrt flags w rc qid w'. adns_submit_reverse L addr rrt flags w = ((rc, qid), w') \<longrightarrow>
        (if rc = 0 then Q (os w) qid = None \<and> Q (os w') = (Q (os w))(qid \<mapsto> rrt) else Q (os w') = Q (os w)))"

lemma on_world_apply:
  "on_world m st = (let (r, w') = m (the_world st) in
     (r, st\<lparr>core_dispatch := (fst (core_dispatch st), (fst (snd (core_dispatch st)), w'))\<rparr>))"
  by (simp add: on_world_def on_dispatch_def on_snd_def split: prod.split)

lemma dns_ok_keys: "dns_ok Q st \<Longrightarrow> Q (os (the_world st)) qid \<noteq> None \<longleftrightarrow> map_of (queries (core_dns st)) qid \<noteq> None"
  by (auto simp: dns_ok_def)

lemma dns_ok_empty: "dns_ok Q st \<Longrightarrow> Q (os (the_world st)) = Map.empty \<longleftrightarrow> queries (core_dns st) = []"
  using map_of_eq_empty_iff [of "queries (core_dns st)"] by (auto simp: dns_ok_def fun_eq_iff)

lemma adns_check_consistency_ok:
  assumes "dns_ok Q st" and "\<forall>w. set (adns_queries L w) = dom (Q (os w))"
  shows "adns_check_consistency L st = (Inr (), st)"
proof -
  have "map_of (queries (core_dns st)) qid \<noteq> None" if "qid \<in> set (takeWhile (\<lambda>q. q \<noteq> 0) (adns_queries L (the_world st)))" for qid
    using that assms dns_ok_keys [OF assms(1), of qid] by (auto dest!: set_takeWhileD)
  then show ?thesis unfolding adns_check_consistency_def assert_op_def by simp
qed

lemma call_handler_ensures:
  assumes "\<And>u x. p_ensures J E (call u x)" and "\<And>e st. J st \<Longrightarrow> is_exception e \<Longrightarrow> E e st"
  shows "p_ensures J E (call_handler call h (Inr x))"
  using assms by (cases h) (auto simp: call_handler_def intro!: ensures_intros)

text \<open>The handler inside a callback, and what it is called with.\<close>

fun callback_handler :: "'u callback \<Rightarrow> 'u option" where
  "callback_handler (Callback_A h) = h"
| "callback_handler (Callback_MX h) = h"
| "callback_handler (Callback_PTR h) = h"

fun decode_answer :: "'u callback \<Rightarrow> adns_answer \<Rightarrow> fault + dns_result" where
  "decode_answer (Callback_A h) a = map_sum id Addresses (handleA a)"
| "decode_answer (Callback_MX h) a = map_sum id Exchangers (handleMX a)"
| "decode_answer (Callback_PTR h) a = map_sum id Name (handlePTR a)"

lemma call_callback_decode: "call_callback call f a = call_handler call (callback_handler f) (decode_answer f a)"
  by (cases f) simp_all

text \<open>A well-formed answer of the right type reaches the handler.\<close>

lemma handle_ok:
  "answer_wf a \<Longrightarrow> an_type a = adns_r_a \<Longrightarrow> \<exists>x. handleA a = Inr x"
  "answer_wf a \<Longrightarrow> an_type a = adns_r_mx \<Longrightarrow> \<exists>x. handleMX a = Inr x"
  "answer_wf a \<Longrightarrow> an_type a = adns_r_ptr \<Longrightarrow> \<exists>x. handlePTR a = Inr x"
  by (auto simp: answer_wf_def handleA_def handleMX_def handlePTR_def by_status_def read_array_all mx_names_wf
      mm_of_list_sorts split: status.split if_splits list.split)

lemma call_callback_ensures:
  assumes a: "answer_wf a" "an_type a = callback_type f"
    and call: "\<And>u x. p_ensures J E (call u x)" and thrown: "\<And>e st. J st \<Longrightarrow> is_exception e \<Longrightarrow> E e st"
  shows "p_ensures J E (call_callback call f a)"
proof -
  have "\<exists>h x. call_callback call f a = call_handler call h (Inr x)"
    using handle_ok [OF a(1)] a(2) by (cases f) fastforce+
  then show ?thesis using call_handler_ensures [of J E call, OF call thrown] by metis
qed

text \<open>Delivery keeps the resolver consistent, and whatever else \<open>I\<close> the library's check, the handlers and
  the removal of sockets keep.\<close>

lemma deliver_responses_ensures:
  fixes I :: "('f, 'h, 'd, 'u, 'k, 'm) core_state_scheme \<Rightarrow> bool" and Q :: "'k \<Rightarrow> int \<rightharpoonup> rrtype"
  defines "J \<equiv> \<lambda>st. I st \<and> dns_ok Q st"
  assumes law: "adns_check_law Q L"
    and world: "\<And>st rc qid a w'. I st \<Longrightarrow> adns_check L (the_world st) = ((rc, qid, a), w') \<Longrightarrow>
      I (st\<lparr>core_dispatch := (fst (core_dispatch st), (fst (snd (core_dispatch st)), w'))\<rparr>)"
    and erase: "\<And>st qs. I st \<Longrightarrow> I (st\<lparr>core_dns := (core_dns st)\<lparr>queries := qs\<rparr>\<rparr>)"
    and clear: "ensures J E (clear_sockets M)"
    and call: "\<And>u x. p_ensures J E (call u x)"
    and thrown: "\<And>e st. J st \<Longrightarrow> is_exception e \<Longrightarrow> E e st"
  shows "p_ensures J E (deliver_responses M L call)"
proof -
  have "M = M \<longrightarrow> L = L \<longrightarrow> call = call \<longrightarrow> J st \<longrightarrow> outcome J E p" if run: "deliver_responses M L call st = Some p" for st p
  proof (rule deliver_responses.raw_induct [where P = "\<lambda>M' L' call' st p.
      M' = M \<longrightarrow> L' = L \<longrightarrow> call' = call \<longrightarrow> J st \<longrightarrow> outcome J E p", OF _ run], intro impI, goal_cases)
    case (1 rec M' L' call' st p)
    have ok: "I st" "dns_ok Q st" using 1(6) by (simp_all add: J_def)
    have rec: "outcome J E y" if "rec M L call s = Some y" "J s" for s y
      using 1(1) [OF that(1)] that(2) 1(3-5) by blast
    obtain rc qid a w' where chk: "adns_check L (the_world st) = ((rc, qid, a), w')" by (metis surj_pair)
    let ?st1 = "st\<lparr>core_dispatch := (fst (core_dispatch st), (fst (snd (core_dispatch st)), w'))\<rparr>"
    have w: "on_world (lib_call (adns_check L)) st = (Inr (rc, qid, a), ?st1)"
      by (simp add: on_world_apply lib_call_def chk)
    note step = 1(2) [unfolded 1(3-5) w prod.case sum.case]
    have I1: "I ?st1" using world [OF ok(1) chk] .
    have lib: "if rc = 0 then \<exists>ans. a = Some ans \<and> Q (os (the_world st)) qid = Some (an_type ans) \<and> answer_wf ans \<and>
           Q (os w') = (Q (os (the_world st)))(qid := None)
       else Q (os w') = Q (os (the_world st)) \<and> (rc = ESRCH \<longleftrightarrow> Q (os (the_world st)) = Map.empty)"
      using law chk unfolding adns_check_law_def by blast
    show ?case
    proof (cases "rc = 0")
      case False
      then have J1: "J ?st1" using ok lib I1 by (simp add: dns_ok_def J_def)
      then have cons: "adns_check_consistency L ?st1 = (Inr (), ?st1)"
        using adns_check_consistency_ok [of Q ?st1 L] law by (simp add: adns_check_law_def J_def)
      have "rc = ESRCH \<longleftrightarrow> queries (core_dns ?st1) = []"
        using dns_ok_empty [of Q ?st1] J1 lib False by (simp add: J_def)
      then show ?thesis
        using step rec ensures_outcome [OF clear J1] J1 False thrown [OF J1, of "System_error rc ''adns_check()''"]
        by (auto simp: cons op_defs errno_codes split: if_splits)
    next
      case True
      with lib obtain ans where ans: "a = Some ans" "Q (os (the_world st)) qid = Some (an_type ans)" "answer_wf ans"
        "Q (os w') = (Q (os (the_world st)))(qid := None)" by auto
      then obtain f where f: "map_of (queries (core_dns st)) qid = Some f" "an_type ans = callback_type f"
        using ok by (auto simp: dns_ok_def)
      let ?st2 = "?st1\<lparr>core_dns := (core_dns ?st1)\<lparr>queries := AList.delete qid (queries (core_dns ?st1))\<rparr>\<rparr>"
      have J2: "J ?st2" using ok ans(4) erase [OF I1] by (auto simp: J_def dns_ok_def delete_conv' fun_eq_iff)
      have cb: "outcome J E y" if "call_callback call f ans ?st2 = Some y" for y
        using call_callback_ensures [of ans f J E call, OF ans(3) f(2) call thrown] that J2 unfolding p_ensures_outcome by blast
      from step have "(case call_callback call f ans ?st2 of
          None \<Rightarrow> None | Some (Inl e, st2) \<Rightarrow> Some (Inl e, st2) | Some (Inr _, st2) \<Rightarrow> rec M L call st2) = Some p"
        using True ans(1) f(1) by (simp add: errno_codes)
      moreover have "outcome J E y" if "call_callback call f ans ?st2 = Some y" for y
        using cb that .
      ultimately show ?thesis
        by (cases "call_callback call f ans ?st2") (auto split: sum.splits prod.splits dest: rec)
    qed
  qed
  then show ?thesis unfolding p_ensures_outcome by blast
qed

section \<open>Properties\<close>

text \<open>
  Delivering the answers keeps queries and callbacks together.  If the application's handlers
  keep the resolver consistent (by submitting queries through it, for instance), then however many
  answers there are and whatever the handlers submit, the callback of each answer is found and is of
  its kind, no assertion of the resolver fails, and the resolver is consistent when the delivery
  returns.
\<close>

theorem deliver_responses_consistent:
  fixes st :: "('f, 'h, 'd, 'u, 'k, 'm) core_state_scheme"
  assumes law: "adns_check_law Q L" and ok: "dns_ok Q st"
    and clear: "\<And>st :: ('f, 'h, 'd, 'u, 'k, 'm) core_state_scheme. dns_ok Q st \<Longrightarrow>
      fst (clear_sockets M st) \<noteq> Inl Assertion_failed \<and> dns_ok Q (snd (clear_sockets M st))"
    and call: "\<And>u x st r st'. dns_ok Q st \<Longrightarrow> call u x st = Some (r, st') \<Longrightarrow>
      r \<noteq> Inl Assertion_failed \<and> (r = Inr () \<longrightarrow> dns_ok Q st')"
    and run: "deliver_responses M L call st = Some (r, st')"
  shows "r \<noteq> Inl Assertion_failed \<and> (r = Inr () \<longrightarrow> dns_ok Q st')"
proof -
  have "p_ensures (\<lambda>st. True \<and> dns_ok Q st) (\<lambda>e _. e \<noteq> Assertion_failed) (deliver_responses M L call)"
  proof (rule deliver_responses_ensures [OF law])
    show "ensures (\<lambda>st :: ('f, 'h, 'd, 'u, 'k, 'm) core_state_scheme. True \<and> dns_ok Q st) (\<lambda>e _. e \<noteq> Assertion_failed) (clear_sockets M)"
    proof (rule ensuresI, goal_cases)
      case (1 s e t)
      with clear [of s] show ?case by auto
    next
      case (2 s a t)
      with clear [of s] show ?case by auto
    qed
    show "p_ensures (\<lambda>st. True \<and> dns_ok Q st) (\<lambda>e _. e \<noteq> Assertion_failed) (call u x)" for u x
      using call by (intro p_ensuresI) fastforce+
  qed auto
  then have "outcome (\<lambda>st. True \<and> dns_ok Q st) (\<lambda>e _. e \<noteq> Assertion_failed) (r, st')"
    using ok run unfolding p_ensures_outcome by blast
  then show ?thesis by (cases r) auto
qed

text \<open>A library for the examples.  Its state is the number of outstanding queries, all reverse queries,
  with the identifiers from 1 on; an answer is always there.\<close>

definition host_answer :: adns_answer where
  "host_answer = \<lparr>an_type = adns_r_ptr, an_status = adns_s_ok, an_nrrs = 1, an_inaddr = [], an_inthostaddr = [], an_str = [''host'']\<rparr>"

definition count_view :: "nat \<Rightarrow> int \<rightharpoonup> rrtype" where
  "count_view n q = (if 1 \<le> q \<and> q \<le> int n then Some adns_r_ptr else None)"

definition count_check :: "(nat, int \<times> int \<times> adns_answer option) syscall" where
  "count_check w = (if os w = 0 then ((ESRCH, 0, None), w)
     else ((0, int (os w), Some host_answer), w\<lparr>os := os w - 1\<rparr>))"

definition count_submit :: "string \<Rightarrow> rrtype \<Rightarrow> queryflags \<Rightarrow> (nat, int \<times> int) syscall" where
  "count_submit owner rrt flags w =
     (if rrt = adns_r_ptr then ((0, int (os w) + 1), w\<lparr>os := os w + 1\<rparr>) else ((38, 0), w))"

definition count_adns :: "nat adns_lib" where
  "count_adns = \<lparr>adns_if_noautosys = 16, adns_if_nosigpipe = 64, adns_if_debug = 8, adns_if_checkc_freq = 768,
     adns_init = (\<lambda>flags w. ((0, True), w\<lparr>os := 0\<rparr>)), adns_finish = (\<lambda>w. ((), w)), adns_submit = count_submit,
     adns_submit_reverse = (\<lambda>a. count_submit []), adns_check = count_check,
     adns_beforepoll = (\<lambda>ps n to now w. ((0, ps, 0, if os w = 0 then to else 0), w)), adns_processreadable = (\<lambda>fd now w. (0, w)),
     adns_processwriteable = (\<lambda>fd now w. (0, w)), adns_processexceptional = (\<lambda>fd now w. (0, w)),
     adns_processtimeouts = (\<lambda>now w. ((), w)), adns_queries = (\<lambda>w. map int [1..<Suc (os w)])\<rparr>"

lemma count_laws: "adns_check_law count_view count_adns" "adns_submit_law count_view count_adns"
proof -
  have dom: "set (adns_queries count_adns w) = dom (count_view (os w))" "0 \<notin> dom (count_view (os w))" for w
  proof -
    have "q \<in> set (adns_queries count_adns w) \<longleftrightarrow> 1 \<le> q \<and> q \<le> int (os w)" for q
      by (auto simp: count_adns_def image_iff intro!: exI [of _ "nat q"])
    then show "set (adns_queries count_adns w) = dom (count_view (os w))"
      by (intro set_eqI) (simp add: count_view_def domIff)
    show "0 \<notin> dom (count_view (os w))" by (simp add: count_view_def domIff)
  qed
  have empty: "count_view n = Map.empty \<longleftrightarrow> n = 0" for n
  proof
    assume "count_view n = Map.empty"
    then have "count_view n 1 = None" by simp
    then show "n = 0" by (simp add: count_view_def split: if_splits)
  qed (auto simp: count_view_def)
  have wf: "answer_wf host_answer" by (simp add: answer_wf_def host_answer_def)
  have pop: "count_view (n - Suc 0) = (count_view n)(int n := None)" "count_view n (int n) = Some adns_r_ptr" if "0 < n" for n
    using that by (auto simp: count_view_def fun_eq_iff)
  show "adns_check_law count_view count_adns"
    unfolding adns_check_law_def using dom wf
    by (auto simp: count_adns_def count_check_def empty errno_codes pop host_answer_def split: if_splits)
  show "adns_submit_law count_view count_adns"
    unfolding adns_submit_law_def using dom
    by (auto simp: count_adns_def count_submit_def count_view_def fun_eq_iff split: if_splits)
qed

definition quiet_demux :: "(unit \<times> 'k world) demux_ops" where
  "quiet_demux = \<lparr>dm_codes = poll_codes, dm_socket_construct = (\<lambda>s ev. ret \<lparr>sock = s, close_flag = True\<rparr>),
     dm_socket_destruct = (\<lambda>sk. ret ()), dm_request = (\<lambda>s ev. ret ()), dm_pop_event = ret None,
     dm_wait = (\<lambda>t. ret ()), dm_max_timeout = 60\<rparr>"

lemma quiet_destroy:
  "fst (destroy_sockets quiet_demux ss st) \<noteq> Inl Assertion_failed \<and>
   queries (core_dns (snd (destroy_sockets quiet_demux ss st))) = queries (core_dns st) \<and>
   the_world (snd (destroy_sockets quiet_demux ss st)) = the_world st"
proof (induction ss arbitrary: st)
  case Nil
  then show ?case by (simp add: ret_def)
next
  case (Cons s ss)
  let ?st = "st\<lparr>core_dns := (core_dns st)\<lparr>registered_sockets := remove1 s (registered_sockets (core_dns st))\<rparr>\<rparr>"
  let ?sk = "\<lparr>sock = s, close_flag = False\<rparr>"
  have step: "destroy_sockets quiet_demux (s # ss) st =
      then_op (on_dispatch (dispatch_socket_destruct quiet_demux ?sk)) (destroy_sockets quiet_demux ss) ?st"
    by (simp add: then_op_def bind_op_def on_dns_def modify_op_def)
  have d: "dispatch_socket_destruct quiet_demux ?sk (hs, x) =
      (if map_of hs s = None then (Inl Undefined_behaviour, (hs, x)) else (Inr (), (AList.delete s hs, x)))" for hs x
    by (simp add: dispatch_socket_destruct_def with_dtor_def on_fst_def on_snd_def handlers_erase_def quiet_demux_def ret_def)
  obtain hs x where hs: "core_dispatch ?st = (hs, x)" by (cases "core_dispatch ?st")
  show ?case
    unfolding step using Cons.IH [of "?st\<lparr>core_dispatch := (AList.delete s hs, x)\<rparr>"] hs
    by (auto simp: then_op_def bind_op_def on_dispatch_def d)
qed

definition one_query :: "(string, string, unit, string, nat) core_state" where
  "one_query = \<lparr>core_now = \<lparr>tv_sec = 40, tv_usec = 0\<rparr>, core_schedule = schedule_init,
     core_dispatch = ([], ((), \<lparr>errno = 0, os = 1\<rparr>)),
     core_dns = \<lparr>adns_timeout = timeout_new, queries = [(1, Callback_PTR (Some ''h''))], registered_sockets = [], pfds = []\<rparr>\<rparr>"

definition no_query :: "(string, string, unit, string, nat) core_state" where
  "no_query = one_query\<lparr>core_dispatch := ([], ((), \<lparr>errno = 0, os = 0\<rparr>)),
     core_dns := (core_dns one_query)\<lparr>queries := []\<rparr>\<rparr>"

lemma one_query_delivered:
  "deliver_responses quiet_demux count_adns (\<lambda>u x st. Some (Inr (), st)) one_query = Some (Inr (), no_query)"
proof -
  have fin: "deliver_responses quiet_demux count_adns (\<lambda>u x st. Some (Inr (), st)) no_query = Some (Inr (), no_query)"
    by (subst deliver_responses.simps)
      (simp add: on_world_apply lib_call_def count_adns_def count_check_def no_query_def one_query_def errno_codes
        op_defs clear_sockets_def)
  show ?thesis
    by (subst deliver_responses.simps, simp add: on_world_apply lib_call_def count_adns_def count_check_def one_query_def errno_codes
        host_answer_def call_handler_def handlePTR_def by_status_def fin [unfolded no_query_def one_query_def count_adns_def, simplified])
      (simp add: no_query_def one_query_def)
qed

theorem deliver_responses_consistent_witness:
  "\<exists>st'. deliver_responses quiet_demux count_adns (\<lambda>u x st. Some (Inr (), st)) one_query = Some (Inr (), st') \<and>
     dns_ok count_view st'"
proof -
  have ok: "dns_ok count_view one_query"
    by (auto simp: dns_ok_def one_query_def count_view_def fun_eq_iff)
  have "(Inr () :: fault + unit) \<noteq> Inl Assertion_failed \<and> (Inr () = (Inr () :: fault + unit) \<longrightarrow> dns_ok count_view no_query)"
    by (rule deliver_responses_consistent [OF count_laws(1) ok _ _ one_query_delivered])
      (use quiet_destroy in \<open>auto simp: clear_sockets_def dns_ok_def\<close>)
  with one_query_delivered show ?thesis by simp
qed

text \<open>What \<open>submit\<close> and the second \<open>query_ptr\<close> share: a call of the library, and the registration of the
  callback under the identifier it answers.\<close>

abbreviation submission where
  "submission L sub ctx f \<equiv> bind_op (on_world (lib_call sub))
     (\<lambda>(rc, qid). then_op (throw_rc_if_not_zero rc ctx) (then_op (on_dns (register_callback qid f)) (adns_check_consistency L)))"

abbreviation with_world :: "'k world \<Rightarrow> ('f, 'h, 'd, 'u, 'k, 'm) core_state_scheme \<Rightarrow> ('f, 'h, 'd, 'u, 'k, 'm) core_state_scheme" where
  "with_world w' st \<equiv> st\<lparr>core_dispatch := (fst (core_dispatch st), (fst (snd (core_dispatch st)), w'))\<rparr>"

lemma submission_ok:
  assumes keys: "\<forall>w. set (adns_queries L w) = dom (Q (os w))" and ok: "dns_ok Q st"
    and sub: "sub (the_world st) = ((rc, qid), w')"
    and lib: "if rc = 0 then Q (os (the_world st)) qid = None \<and> Q (os w') = (Q (os (the_world st)))(qid \<mapsto> callback_type f)
      else Q (os w') = Q (os (the_world st))"
  shows "\<exists>r qs. submission L sub ctx f st = (r, (with_world w' st)\<lparr>core_dns := (core_dns st)\<lparr>queries := qs\<rparr>\<rparr>) \<and>
    dns_ok Q ((with_world w' st)\<lparr>core_dns := (core_dns st)\<lparr>queries := qs\<rparr>\<rparr>) \<and>
    (r = Inr () \<and> map_of (queries (core_dns st)) qid = None \<and> map_of qs = (map_of (queries (core_dns st)))(qid \<mapsto> f) \<or>
     r = Inl (System_error rc ctx) \<and> qs = queries (core_dns st))"
proof -
  let ?st1 = "with_world w' st"
  have w: "on_world (lib_call sub) st = (Inr (rc, qid), ?st1)"
    by (simp add: on_world_apply lib_call_def sub)
  show ?thesis
  proof (cases "rc = 0")
    case True
    let ?qs = "AList.update qid f (queries (core_dns st))"
    let ?st2 = "?st1\<lparr>core_dns := (core_dns st)\<lparr>queries := ?qs\<rparr>\<rparr>"
    have new: "map_of (queries (core_dns st)) qid = None"
      using lib True dns_ok_keys [OF ok, of qid] by auto
    have ok2: "dns_ok Q ?st2" using ok lib True by (auto simp: dns_ok_def update_conv' fun_eq_iff)
    then have "adns_check_consistency L ?st2 = (Inr (), ?st2)"
      by (rule adns_check_consistency_ok) (rule keys)
    then have "submission L sub ctx f st = (Inr (), ?st2)"
      using True by (simp add: bind_op_def w throw_rc_if_not_zero_def then_op_def ret_def on_dns_def register_callback_def modify_op_def)
    with ok2 new show ?thesis by (intro exI [of _ "Inr ()"] exI [of _ ?qs]) (simp add: update_conv')
  next
    case False
    then have run: "submission L sub ctx f st = (Inl (System_error rc ctx), ?st1)"
      by (simp add: bind_op_def w throw_rc_if_not_zero_def then_op_def raise_op_def)
    have eq: "?st1\<lparr>core_dns := (core_dns st)\<lparr>queries := queries (core_dns st)\<rparr>\<rparr> = ?st1" by simp
    have "dns_ok Q ?st1" using ok lib False by (simp add: dns_ok_def)
    with run show ?thesis
      by (intro exI [of _ "Inl (System_error rc ctx)"] exI [of _ "queries (core_dns st)"]) (simp add: eq)
  qed
qed

text \<open>Every query with a handler is such a submission; the query for the name of an address does not
  check its handler.\<close>

definition submit_effect :: "('k \<Rightarrow> int \<rightharpoonup> rrtype) \<Rightarrow> ('k, int \<times> int) syscall \<Rightarrow> rrtype \<Rightarrow> bool" where
  "submit_effect Q sub rrt \<longleftrightarrow> (\<forall>w rc qid w'. sub w = ((rc, qid), w') \<longrightarrow>
     (if rc = 0 then Q (os w) qid = None \<and> Q (os w') = (Q (os w))(qid \<mapsto> rrt) else Q (os w') = Q (os w)))"

lemma submit_effects:
  assumes "adns_submit_law Q L"
  shows "submit_effect Q (adns_submit L owner rrt flags) rrt" and "submit_effect Q (adns_submit_reverse L addr rrt flags) rrt"
  using assms unfolding adns_submit_law_def submit_effect_def by blast+

lemma query_submission:
  assumes law: "adns_submit_law Q L"
    and m: "m \<in> {query_a L owner (Some h), query_a_no_cname L owner (Some h), query_mx L owner (Some h), query_ptr L owner (Some h),
      query_ptr_address L addr g}"
  shows "\<exists>sub ctx f. m = submission L sub ctx f \<and> submit_effect Q sub (callback_type f) \<and>
    ((\<exists>owner rrt flags. sub = adns_submit L owner rrt flags) \<or> (\<exists>addr rrt flags. sub = adns_submit_reverse L addr rrt flags))"
proof -
  have some: "then_op (assert_op (Some h \<noteq> None)) k = k" for k :: "('s, unit) op"
    by (rule ext) (simp add: then_op_def bind_op_def assert_op_def)
  have "(\<exists>rrt flags f. m = adns_submit_query L owner rrt flags f \<and> callback_type f = rrt) \<or>
      (\<exists>ctx f. m = submission L (adns_submit_reverse L addr adns_r_ptr adns_qf_none) ctx f \<and> callback_type f = adns_r_ptr)"
    using m unfolding query_a_def query_a_no_cname_def query_mx_def query_ptr_def query_ptr_address_def some by fastforce
  then show ?thesis
    unfolding adns_submit_query_def using submit_effects [OF law] by fastforce
qed

text \<open>
  C32.  A query with a handler either is accepted, and then the resolver has one more callback, under
  an identifier that was not in use, or throws the library's error and leaves the callbacks as they
  were; in both cases the resolver is consistent afterwards, and its assertions hold.
\<close>

theorem query_keeps_consistent:
  assumes law: "adns_submit_law Q L" and ok: "dns_ok Q st"
    and m: "m \<in> {query_a L owner (Some h), query_a_no_cname L owner (Some h), query_mx L owner (Some h), query_ptr L owner (Some h),
      query_ptr_address L addr g}"
  shows "\<exists>r st'. m st = (r, st') \<and> dns_ok Q st' \<and>
    (r = Inr () \<and> (\<exists>qid f. map_of (queries (core_dns st)) qid = None \<and>
        map_of (queries (core_dns st')) = (map_of (queries (core_dns st)))(qid \<mapsto> f)) \<or>
     (\<exists>rc ctx. r = Inl (System_error rc ctx)) \<and> queries (core_dns st') = queries (core_dns st))"
proof -
  from query_submission [OF law m] obtain sub ctx f where m: "m = submission L sub ctx f" and
    sub: "submit_effect Q sub (callback_type f)" by blast
  obtain rc qid w' where call: "sub (the_world st) = ((rc, qid), w')" by (metis surj_pair)
  with sub have "if rc = 0 then Q (os (the_world st)) qid = None \<and> Q (os w') = (Q (os (the_world st)))(qid \<mapsto> callback_type f)
      else Q (os w') = Q (os (the_world st))"
    unfolding submit_effect_def by blast
  note lib = this
  have keys: "\<forall>w. set (adns_queries L w) = dom (Q (os w))" using law by (simp add: adns_submit_law_def)
  show ?thesis
    using submission_ok [where sub = sub and L = L and ctx = ctx and f = f and Q = Q, OF keys ok call lib]
    unfolding m by fastforce
qed

theorem query_keeps_consistent_witness:
  "\<exists>r st'. query_ptr count_adns ''1.0.0.127.in-addr.arpa'' (Some ''h'') one_query = (r, st') \<and> dns_ok count_view st'"
proof -
  have ok: "dns_ok count_view one_query"
    by (auto simp: dns_ok_def one_query_def count_view_def fun_eq_iff)
  show ?thesis
    using query_keeps_consistent [OF count_laws(2) ok, of "query_ptr count_adns ''1.0.0.127.in-addr.arpa'' (Some ''h'')"
        "''1.0.0.127.in-addr.arpa''" "''h''" address_default None] by auto
qed

text \<open>
  The timer that stands for a time-out of the library is armed for the least whole number of
  seconds that is not shorter.
\<close>

theorem adns_delay_rounds_up:
  assumes "0 < timeout" and "timeout \<le> INT_MAX"
  shows "timeout \<le> 1000 * uint (adns_delay timeout) \<and> 1000 * (uint (adns_delay timeout) - 1) < timeout"
proof -
  have "timeout div 1000 \<le> 2147483" using assms by (simp add: INT_MAX_def)
  moreover have "0 \<le> timeout div 1000" using assms by simp
  ultimately have q: "uint (word_of_int (timeout div 1000) :: u32) = timeout div 1000"
    by (simp add: uint_word_of_int_eq take_bit_int_eq_self)
  have q1: "uint (word_of_int (timeout div 1000) + 1 :: u32) = timeout div 1000 + 1"
    using \<open>timeout div 1000 \<le> 2147483\<close> \<open>0 \<le> timeout div 1000\<close>
    by (simp add: uint_word_ariths q)
  have d: "uint (adns_delay timeout) = timeout div 1000 + (if timeout mod 1000 = 0 then 0 else 1)"
    by (simp add: adns_delay_def Let_def q q1)
  have "timeout \<le> 1000 * (x + (if y = 0 then 0 else 1)) \<and> 1000 * (x + (if y = 0 then 0 else 1) - 1) < timeout"
    if "1000 * x + y = timeout" "0 \<le> y" "y < 1000" for x y
    using that by auto
  from this [of "timeout div 1000" "timeout mod 1000"] show ?thesis unfolding d by simp
qed

theorem adns_delay_rounds_up_witness:
  "2001 \<le> 1000 * uint (adns_delay 2001) \<and> 1000 * (uint (adns_delay 2001) - 1) < 2001"
  by (rule adns_delay_rounds_up) (simp_all add: INT_MAX_def)

text \<open>The documented behaviour of \<open>adns_beforepoll\<close>: it lowers the time-out it is given, -1 standing for
  none, to the next event it waits for, and so leaves it alone when no query is outstanding.\<close>

definition adns_idle_law :: "('k \<Rightarrow> int \<rightharpoonup> rrtype) \<Rightarrow> 'k adns_lib \<Rightarrow> bool" where
  "adns_idle_law Q L \<longleftrightarrow> (\<forall>ps n to now w. Q (os w) = Map.empty \<longrightarrow>
     (\<exists>ps' n' w'. adns_beforepoll L ps n to now w = ((0, ps', n', to), w')))"

text \<open>
  C38.  When the library asks for a time-out to be processed at once and that answers the last
  outstanding query, \<open>run\<close> calls \<open>adns_beforepoll\<close> again although there is nothing to wait for: it
  gets its own time-out of -1 back and fails the assertion that the time-out is not negative.
\<close>

theorem adns_prepare_aborts_after_last_answer:
  assumes idle: "adns_idle_law Q L"
    and poll: "on_world (lib_call (adns_beforepoll L (pfds (core_dns st)) nfds (-1) (core_now st))) st = (Inr (0, ps, n1, 0), st0)"
    and answered: "process_timeout M L call (st0\<lparr>core_dns := (core_dns st0)\<lparr>pfds := ps\<rparr>\<rparr>) = Some (Inr (), st2)"
      "Q (os (the_world st2)) = Map.empty"
  shows "\<exists>st3. adns_prepare M L call task nfds st = Some (Inl Assertion_failed, st3)"
proof -
  obtain ps' n' w' where
    again: "adns_beforepoll L (pfds (core_dns st2)) n1 (-1) (core_now st2) (the_world st2) = ((0, ps', n', -1), w')"
    using idle answered(2) unfolding adns_idle_law_def by blast
  have "adns_prepare M L call task nfds st = adns_prepare M L call task n1 st2"
    by (subst adns_prepare.simps) (simp add: poll answered(1) ERANGE_def Let_def)
  moreover have "\<exists>st3. adns_prepare M L call task n1 st2 = Some (Inl Assertion_failed, st3)"
    by (subst adns_prepare.simps) (simp add: on_world_apply lib_call_def again ERANGE_def Let_def)
  ultimately show ?thesis by simp
qed

theorem adns_prepare_aborts_after_last_answer_witness:
  "\<exists>st3. adns_prepare quiet_demux count_adns (\<lambda>u x st. Some (Inr (), st)) ''task'' 0 one_query = Some (Inl Assertion_failed, st3)"
proof -
  have idle: "adns_idle_law count_view count_adns"
  proof -
    have "n = 0" if "count_view n = Map.empty" for n
    proof -
      from that have "count_view n 1 = None" by simp
      then show ?thesis by (simp add: count_view_def split: if_splits)
    qed
    then show ?thesis by (auto simp: adns_idle_law_def count_adns_def)
  qed
  have poll: "on_world (lib_call (adns_beforepoll count_adns (pfds (core_dns one_query)) 0 (-1) (core_now one_query))) one_query
      = (Inr (0, [], 0, 0), one_query)"
    by (simp add: on_world_apply lib_call_def count_adns_def one_query_def)
  have answered: "process_timeout quiet_demux count_adns (\<lambda>u x st. Some (Inr (), st))
      (one_query\<lparr>core_dns := (core_dns one_query)\<lparr>pfds := []\<rparr>\<rparr>) = Some (Inr (), no_query)"
  proof -
    have "one_query\<lparr>core_dns := (core_dns one_query)\<lparr>pfds := []\<rparr>\<rparr> = one_query" by (simp add: one_query_def)
    moreover have "on_world (lib_call (adns_processtimeouts count_adns (core_now one_query))) one_query = (Inr (), one_query)"
      by (simp add: on_world_apply lib_call_def count_adns_def one_query_def)
    ultimately show ?thesis
      using one_query_delivered by (simp add: process_timeout_def op_simps)
  qed
  have "count_view (os (the_world no_query)) = Map.empty"
    by (auto simp: no_query_def count_view_def)
  from adns_prepare_aborts_after_last_answer [OF idle poll answered this] show ?thesis .
qed

end
