(* ===== verification/Ioxx_Core.thy ===== *)
theory Ioxx_Core
  imports Ioxx_Adns
begin

text \<open>
  The class \<open>core\<close> of \<open>include/ioxx/core.hpp\<close>: clock, dispatcher, schedule and resolver in one object,
  and the two operations of an application's main loop, \<open>run\<close> and \<open>wait\<close>.

  The components act on their part of the core's state, but the handlers, tasks and callbacks they
  call act on all of it.  The views below run the dispatcher's and the schedule's loops on their own
  part beside the rest of the state, and put the parts together again around every callback.
\<close>

section \<open>The components on the whole state\<close>

definition with_handlers :: "'h handler_map \<Rightarrow> ('f, 'h, 'd, 'u, 'k, 'm) core_state_scheme \<Rightarrow> ('f, 'h, 'd, 'u, 'k, 'm) core_state_scheme" where
  "with_handlers hs st = st\<lparr>core_dispatch := (hs, snd (core_dispatch st))\<rparr>"

definition with_schedule :: "'f schedule \<Rightarrow> ('f, 'h, 'd, 'u, 'k, 'm) core_state_scheme \<Rightarrow> ('f, 'h, 'd, 'u, 'k, 'm) core_state_scheme" where
  "with_schedule s st = st\<lparr>core_schedule := s\<rparr>"

definition core_dispatch_run ::
  "('d \<times> 'k world) demux_ops \<Rightarrow> ('h \<Rightarrow> u32 \<Rightarrow> (('f, 'h, 'd, 'u, 'k, 'm) core_state_scheme, unit) prog) \<Rightarrow>
   (('f, 'h, 'd, 'u, 'k, 'm) core_state_scheme, unit) prog" where
  "core_dispatch_run M call st =
     map_option (\<lambda>(r, hs, st'). (r, with_handlers hs st'))
       (dispatch_run (on_dispatch (on_snd (dm_pop_event M)))
          (\<lambda>f ev (hs, st). map_option (\<lambda>(r, st'). (r, fst (core_dispatch st'), st')) (call f ev (with_handlers hs st)))
          (fst (core_dispatch st), st))"

definition core_schedule_run ::
  "('f \<Rightarrow> (('f, 'h, 'd, 'u, 'k, 'm) core_state_scheme, unit) prog) \<Rightarrow>
   (('f, 'h, 'd, 'u, 'k, 'm) core_state_scheme, u32) prog" where
  "core_schedule_run call st =
     map_option (\<lambda>(r, s, st'). (r, with_schedule s st'))
       (schedule_run (\<lambda>st. current_time_t (core_now st))
          (\<lambda>f (s, st). map_option (\<lambda>(r, st'). (r, core_schedule st', st')) (call f (with_schedule s st)))
          (core_schedule st, st))"

section \<open>Operations\<close>

text \<open>The constructor initialises the base classes in their order; the demultiplexer is built by \<open>dnew\<close>
  and destroyed by \<open>ddel\<close>.  The world becomes a part of the state that is returned.\<close>

definition core_construct ::
  "'k sys_gettimeofday \<Rightarrow> ('k world, 'd) op \<Rightarrow> ('d \<Rightarrow> ('k world, unit) op) \<Rightarrow> 'k adns_lib \<Rightarrow>
   ('k world, ('f, 'h, 'd, 'u, 'k) core_state) op" where
  "core_construct gtod dnew ddel L w0 =
     bind_op (time_construct gtod)
       (\<lambda>now. bind_op dnew
         (\<lambda>d. bind_op (unwind_op (adns_construct L) (ddel d))
           (\<lambda>dns w. (Inr \<lparr>core_now = now, core_schedule = schedule_init, core_dispatch = ([], (d, w)), core_dns = dns\<rparr>, w)))) w0"

definition core_empty :: "('f, 'h, 'd, 'u, 'k, 'm) core_state_scheme \<Rightarrow> bool" where
  "core_empty st \<longleftrightarrow> schedule_empty (core_schedule st) \<and> dispatch_empty (core_dispatch st) \<and> adns_empty (core_dns st)"

definition core_run ::
  "('d \<times> 'k world) demux_ops \<Rightarrow> 'k adns_lib \<Rightarrow> ('h \<Rightarrow> u32 \<Rightarrow> (('f, 'h, 'd, 'u, 'k, 'm) core_state_scheme, unit) prog) \<Rightarrow>
   ('f \<Rightarrow> (('f, 'h, 'd, 'u, 'k, 'm) core_state_scheme, unit) prog) \<Rightarrow> (('f, 'h, 'd, 'u, 'k, 'm) core_state_scheme, 'u) dns_call \<Rightarrow>
   'f \<Rightarrow> (int \<Rightarrow> 'h) \<Rightarrow> (('f, 'h, 'd, 'u, 'k, 'm) core_state_scheme, u32) prog" where
  "core_run M L h_call t_call u_call task fdh =
     then_prog (core_dispatch_run M h_call)
       (bind_prog (core_schedule_run t_call)
         (\<lambda>_. then_prog (adns_run M L u_call task fdh)
           (bind_prog (core_schedule_run t_call)
             (\<lambda>timeout st.
                if schedule_empty (core_schedule st) then
                  (if dispatch_empty (core_dispatch st)
                   then lift_op (then_op (assert_op (timeout = 0)) (ret timeout)) st
                   else lift_op (ret (dispatch_max_timeout M)) st)
                else lift_op (ret timeout) st))))"

definition core_wait ::
  "('d \<times> 'k world) demux_ops \<Rightarrow> 'k sys_gettimeofday \<Rightarrow> u32 \<Rightarrow> (('f, 'h, 'd, 'u, 'k, 'm) core_state_scheme, unit) op" where
  "core_wait M gtod timeout =
     then_op (on_dispatch (dispatch_wait M timeout))
       (\<lambda>st. case time_update gtod (core_now st, the_world st) of
          (r, now, w) \<Rightarrow> (r, st\<lparr>core_now := now, core_dispatch := (fst (core_dispatch st), (fst (snd (core_dispatch st)), w))\<rparr>))"

text \<open>The nested classes \<open>core::socket\<close> and \<open>core::timeout\<close> construct the classes of the dispatcher and the
  schedule they are derived from.\<close>

definition core_socket_construct ::
  "('d \<times> 'k world) demux_ops \<Rightarrow> int \<Rightarrow> 'h \<Rightarrow> u32 \<Rightarrow> (('f, 'h, 'd, 'u, 'k, 'm) core_state_scheme, system_socket) op" where
  "core_socket_construct M s f ev = on_dispatch (dispatch_socket_construct M s f ev)"

definition core_timeout_new :: task_id where
  "core_timeout_new = timeout_new"

definition core_timeout_new_at :: "int \<Rightarrow> 'f \<Rightarrow> (('f, 'h, 'd, 'u, 'k, 'm) core_state_scheme, task_id) op" where
  "core_timeout_new_at ts f = on_schedule (timeout_new_at ts f)"

definition core_timeout_new_in :: "u32 \<Rightarrow> 'f \<Rightarrow> (('f, 'h, 'd, 'u, 'k, 'm) core_state_scheme, task_id) op" where
  "core_timeout_new_in to f st = on_schedule (timeout_new_in (current_time_t (core_now st)) to f) st"

section \<open>What \<open>run\<close> returns\<close>

lemma core_schedule_run_post:
  assumes "core_schedule_run call st = Some (Inr t, st')"
  shows "case queue (core_schedule st') of
      [] \<Rightarrow> t = 0
    | x # _ \<Rightarrow> current_time_t (core_now st') < fst x \<and> t = word_of_int (fst x - current_time_t (core_now st'))"
proof -
  let ?now = "\<lambda>st :: ('a, 'b, 'c, 'd, 'e, 'f) core_state_scheme. current_time_t (core_now st)"
  let ?call = "\<lambda>f (s, st). map_option (\<lambda>(r, st'). (r, core_schedule st', st')) (call f (with_schedule s st))"
  from assms obtain s r where run: "schedule_run ?now ?call (core_schedule st, st) = Some (Inr t, (s, r))"
    and st': "st' = with_schedule s r"
    by (auto simp: core_schedule_run_def)
  have "True \<and> (\<forall>d. Inr t = (Inr d :: fault + u32) \<longrightarrow> run_post ?now d (s, r))"
    by (rule schedule_run_rule [where I = "\<lambda>_. True", OF run]) simp_all
  then have "run_post ?now t (s, r)" by blast
  then show ?thesis by (auto simp: st' with_schedule_def run_post_def split: list.splits)
qed

lemma core_run_inv:
  assumes "core_run M L h_call t_call u_call task fdh st = Some (r, st')"
  shows "(\<exists>e. r = Inl e) \<or> (\<exists>st1 t. core_schedule_run t_call st1 = Some (Inr t, st') \<and>
    r = (if schedule_empty (core_schedule st') \<and> \<not> dispatch_empty (core_dispatch st') then Inr (dispatch_max_timeout M) else Inr t))"
proof (cases r)
  case (Inr d)
  with assms obtain st1 t st2 where 1: "core_schedule_run t_call st1 = Some (Inr t, st2)" and
    2: "(if schedule_empty (core_schedule st2) then
          (if dispatch_empty (core_dispatch st2)
           then lift_op (then_op (assert_op (t = 0)) (ret t)) st2
           else lift_op (ret (dispatch_max_timeout M)) st2)
        else lift_op (ret t) st2) = Some (Inr d, st')"
    unfolding core_run_def by (auto elim!: then_prog_InrE bind_prog_InrE)
  then have "st2 = st'" by (auto simp: op_defs split: if_splits prod.splits sum.splits)
  with 1 2 Inr show ?thesis by (auto simp: op_defs split: if_splits prod.splits sum.splits)
qed simp

section \<open>Properties\<close>

text \<open>
  C12.  What \<open>run\<close> tells the main loop.  When it returns, every task whose time has come has been
  executed, and the value is the time until the next task when there is one; otherwise it is the
  longest wait the demultiplexer can do when there are sockets, and 0 when there are none, so that
  the assertion in \<open>run\<close> holds.
\<close>

theorem core_run_result:
  assumes "core_run M L h_call t_call u_call task fdh st = Some (Inr t, st')"
  shows "case queue (core_schedule st') of
      [] \<Rightarrow> t = (if dispatch_empty (core_dispatch st') then 0 else dm_max_timeout M)
    | x # _ \<Rightarrow> current_time_t (core_now st') < fst x \<and> t = word_of_int (fst x - current_time_t (core_now st'))"
proof -
  from core_run_inv [OF assms] obtain st1 t1 where
    run: "core_schedule_run t_call st1 = Some (Inr t1, st')"
    and t: "t = (if schedule_empty (core_schedule st') \<and> \<not> dispatch_empty (core_dispatch st') then dispatch_max_timeout M else t1)"
    by (auto split: if_splits)
  from core_schedule_run_post [OF run] t show ?thesis
    by (auto simp: schedule_empty_def dispatch_max_timeout_def split: list.splits if_splits)
qed

text \<open>An idle program at time 40: no events, nothing to do before time \<open>ts\<close>.\<close>

definition idle_core :: "int \<Rightarrow> (string, string, poll_demux, string, unit) core_state" where
  "idle_core ts = \<lparr>core_now = \<lparr>tv_sec = 40, tv_usec = 0\<rparr>, core_schedule = snd (schedule_at ts ''tick'' schedule_init),
     core_dispatch = ([], (poll_construct, \<lparr>errno = 0, os = ()\<rparr>)),
     core_dns = \<lparr>adns_timeout = timeout_new, queries = [], registered_sockets = [], pfds = []\<rparr>\<rparr>"

definition quiet_adns :: "'k adns_lib" where
  "quiet_adns = \<lparr>adns_if_noautosys = 16, adns_if_nosigpipe = 64, adns_if_debug = 8, adns_if_checkc_freq = 768,
     adns_init = (\<lambda>flags w. ((0, True), w)), adns_finish = (\<lambda>w. ((), w)), adns_submit = (\<lambda>n t f w. ((1, 0), w)),
     adns_submit_reverse = (\<lambda>n t f w. ((1, 0), w)), adns_check = (\<lambda>w. ((ESRCH, 0, None), w)),
     adns_beforepoll = (\<lambda>ps n to now w. ((0, ps, 0, to), w)), adns_processreadable = (\<lambda>fd now w. (0, w)),
     adns_processwriteable = (\<lambda>fd now w. (0, w)), adns_processexceptional = (\<lambda>fd now w. (0, w)),
     adns_processtimeouts = (\<lambda>now w. ((), w)), adns_queries = (\<lambda>w. [])\<rparr>"

definition quiet_poll :: "(poll_demux \<times> unit world) demux_ops" where
  "quiet_poll = poll_ops quiet_sock True (\<lambda>_ w. ((0, {}), w)) (\<lambda>ps to m w. ((0, []), w))"

lemma idle_core_run:
  assumes "40 < ts" "ts \<le> 4294967295"
  shows "core_run quiet_poll quiet_adns (\<lambda>f ev st. None) (\<lambda>f st. None) (\<lambda>u x st. None) ''task'' (\<lambda>fd. ''fd'') (idle_core ts)
    = Some (Inr (word_of_int (ts - 40)), idle_core ts)"
proof -
  have d: "core_dispatch_run quiet_poll (\<lambda>f ev st. None) (idle_core ts) = Some (Inr (), idle_core ts)"
    by (simp add: core_dispatch_run_def dispatch_run.simps quiet_poll_def poll_ops_def on_dispatch_def on_snd_def on_fst_def
        poll_pop_event.simps idle_core_def poll_construct_def with_handlers_def)
  have s: "core_schedule_run (\<lambda>f st. None) (idle_core ts) = Some (Inr (word_of_int (ts - 40)), idle_core ts)"
    using assms
    by (simp add: core_schedule_run_def schedule_run.simps idle_core_def schedule_at_def schedule_init_def
        with_schedule_def in_time_range_def current_time_t_def)
  have a: "adns_run quiet_poll quiet_adns (\<lambda>u x st. None) ''task'' (\<lambda>fd. ''fd'') (idle_core ts) = Some (Inr (), idle_core ts)"
    by (simp add: adns_run_def then_prog_def bind_prog_def lift_op_def then_op_def bind_op_def adns_check_consistency_def
        assert_op_def quiet_adns_def disarm_timeout_def on_schedule_def timeout_cancel_def timeout_new_def on_dns_def
        modify_op_def clear_sockets_def ret_def idle_core_def)
  show ?thesis
    by (simp add: core_run_def then_prog_def bind_prog_def lift_op_def d s a ret_def)
      (simp add: idle_core_def schedule_empty_def schedule_at_def schedule_init_def)
qed

theorem core_run_result_witness:
  "\<exists>t. core_run quiet_poll quiet_adns (\<lambda>f ev st. None) (\<lambda>f st. None) (\<lambda>u x st. None) ''task'' (\<lambda>fd. ''fd'') (idle_core 100)
      = Some (Inr t, idle_core 100) \<and> t = 60"
  using core_run_result [OF idle_core_run [of 100]] idle_core_run [of 100]
  by (simp add: idle_core_def schedule_at_def schedule_init_def current_time_t_def)

text \<open>
  C37.  The main loop \<open>wait(run())\<close> can abort: nothing bounds the time \<open>run\<close> returns by what \<open>wait\<close>
  accepts.  On \<open>poll\<close> and \<open>epoll\<close>, when the next task is more than 2147483 seconds (about 25 days)
  and less than 2 ^ 32 seconds away, the value that \<open>run\<close> has returned fails the assertion of \<open>wait\<close>.
\<close>

theorem core_wait_rejects_run:
  fixes st' :: "('f, 'h, 'd, 'u, 'k, 'm) core_state_scheme"
  assumes run: "core_run M L h_call t_call u_call task fdh st = Some (Inr t, st')"
    and later: "queue (core_schedule st') = x # xs"
    and far: "2147483 < fst x - current_time_t (core_now st')" "fst x - current_time_t (core_now st') < 4294967296"
    and demux: "\<And>d. \<not> d \<le> poll_max_timeout \<Longrightarrow> dm_wait M d = (\<lambda>s. (Inl Assertion_failed, s))"
  shows "core_wait M gtod t st' = (Inl Assertion_failed, st')"
proof -
  from core_run_inv [OF run] later obtain st1 where
    "core_schedule_run t_call st1 = Some (Inr t, st')" by (auto simp: schedule_empty_def split: if_splits)
  from core_schedule_run_post [OF this] later have t: "t = word_of_int (fst x - current_time_t (core_now st'))" by simp
  have "uint t = fst x - current_time_t (core_now st')"
    unfolding t using far by (simp add: uint_word_of_int_eq take_bit_int_eq_self del: of_int_diff)
  then have "\<not> t \<le> poll_max_timeout"
    using far by (simp add: word_le_def poll_max_timeout_def INT_MAX_def)
  from demux [OF this] show ?thesis
    by (simp add: core_wait_def then_op_def bind_op_def on_dispatch_def dispatch_wait_def on_snd_def)
qed

lemma poll_wait_rejects: "\<not> d \<le> poll_max_timeout \<Longrightarrow> dm_wait (poll_ops P hv spm sys) d = (\<lambda>s. (Inl Assertion_failed, s))"
  by (rule ext) (simp add: poll_ops_def poll_wait_def op_defs)

lemma epoll_wait_rejects: "\<not> d \<le> poll_max_timeout \<Longrightarrow> dm_wait (epoll_ops P hv spm E) d = (\<lambda>s. (Inl Assertion_failed, s))"
  by (rule ext) (simp add: epoll_ops_def epoll_wait_def op_defs epoll_max_timeout_def poll_max_timeout_def)

theorem core_wait_rejects_run_witness:
  "core_wait quiet_poll (\<lambda>w. ((0, \<lparr>tv_sec = 0, tv_usec = 0\<rparr>), w)) (word_of_int (2592040 - 40)) (idle_core 2592040)
    = (Inl Assertion_failed, idle_core 2592040)"
proof -
  have q: "queue (core_schedule (idle_core 2592040)) = [(2592040, 0, ''tick'')]" "current_time_t (core_now (idle_core 2592040)) = 40"
    by (simp_all add: idle_core_def schedule_at_def schedule_init_def current_time_t_def)
  show ?thesis
    by (rule core_wait_rejects_run [OF idle_core_run q(1)])
      (simp_all add: q quiet_poll_def poll_wait_rejects)
qed

end
