(* ===== verification/Ioxx_Adns_Sockets.thy ===== *)
theory Ioxx_Adns_Sockets
  imports Ioxx_Adns
begin

text \<open>
  The resolver's sockets: what the loop at the end of \<open>adns::run\<close>
  (\<open>include/ioxx/detail/adns.hpp\<close>), which merges the sorted list of descriptors the adns library asks
  for with the sorted set of registered sockets, leaves in a dispatcher on \<open>poll\<close>.
\<close>

unbundle bit_operations_syntax

section \<open>The steps of the loop\<close>

abbreviation sock_view :: "('f, 'h, poll_demux, 'u, 'k, 'm) core_state_scheme \<Rightarrow> int \<rightharpoonup> 'h \<times> u16" where
  "sock_view st \<equiv> dp_interest (core_dispatch st)"

abbreviation req_of :: "pollfd \<Rightarrow> u16" where
  "req_of p \<equiv> ucast (pfd_request poll_codes p)"

lemma pfd_request_none: "pfd_events p = 0 \<Longrightarrow> pfd_request c p = no_events"
  by (simp add: pfd_request_def event_or_def event_if_def no_events_def)

lemma sock_view_None:
  "dp_ok (core_dispatch st) \<Longrightarrow> sock_view st s = None \<longleftrightarrow> map_of (fst (core_dispatch st)) s = None"
  by (cases "core_dispatch st") (auto simp: dp_interest_None)

lemma register_fd_ok:
  assumes ok: "dp_ok (core_dispatch st)" and p: "0 \<le> pfd_fd p" "pfd_request poll_codes p \<noteq> no_events"
    and new: "sock_view st (pfd_fd p) = None" "pfd_fd p \<notin> set (registered_sockets (core_dns st))"
  shows "\<exists>st'. register_fd (poll_ops P hv spm sys) fdh p st = (Inr (), st') \<and> dp_ok (core_dispatch st') \<and>
    sock_view st' = (sock_view st)(pfd_fd p \<mapsto> (fdh (pfd_fd p), req_of p)) \<and>
    registered_sockets (core_dns st') = insort (pfd_fd p) (registered_sockets (core_dns st))"
proof -
  obtain hs d w where c: "core_dispatch st = (hs, d, w)" by (cases "core_dispatch st")
  have "map_of hs (pfd_fd p) = None" using new(1) sock_view_None [OF ok] by (simp add: c)
  from dp_construct [OF ok [unfolded c] p(1) this, of P hv spm sys "fdh (pfd_fd p)" "pfd_request poll_codes p"] obtain hs' d' where
    "dispatch_socket_construct (poll_ops P hv spm sys) (pfd_fd p) (fdh (pfd_fd p)) (pfd_request poll_codes p) (hs, d, w)
      = (Inr \<lparr>sock = pfd_fd p, close_flag = True\<rparr>, (hs', d', w))" "dp_ok (hs', d', w)"
    "dp_interest (hs', d', w) = (dp_interest (hs, d, w))(pfd_fd p \<mapsto> (fdh (pfd_fd p), req_of p))" by blast
  moreover have "dm_codes (poll_ops P hv spm sys) = poll_codes" by (simp add: poll_ops_def)
  moreover have "pfd_events p \<noteq> 0" using p(2) pfd_request_none by blast
  ultimately show ?thesis
    using p new(2)
    by (simp add: register_fd_def then_op_def bind_op_def assert_op_def on_dispatch_def on_dns_def modify_op_def c)
qed

lemma destroy_one_ok:
  assumes ok: "dp_ok (core_dispatch st)" and s: "sock_view st s \<noteq> None"
  shows "\<exists>st'. destroy_sockets (poll_ops P hv spm sys) (s # ss) st = destroy_sockets (poll_ops P hv spm sys) ss st' \<and>
    destroy_sockets (poll_ops P hv spm sys) [s] st = (Inr (), st') \<and>
    dp_ok (core_dispatch st') \<and> sock_view st' = (sock_view st)(s := None) \<and>
    registered_sockets (core_dns st') = remove1 s (registered_sockets (core_dns st))"
proof -
  obtain hs d w where c: "core_dispatch st = (hs, d, w)" by (cases "core_dispatch st")
  have h: "map_of hs s \<noteq> None"
  proof
    assume "map_of hs s = None"
    then have "sock_view st s = None" using sock_view_None [OF ok, of s] by (simp add: c)
    with s show False by simp
  qed
  have "system_socket_destruct P \<lparr>sock = s, close_flag = False\<rparr> w = (Inr (), w)"
    by (simp add: system_socket_destruct_def ret_def)
  from dp_destruct [OF ok [unfolded c] h this, of hv spm sys] obtain hs' d' where
    "dispatch_socket_destruct (poll_ops P hv spm sys) \<lparr>sock = s, close_flag = False\<rparr> (hs, d, w) = (Inr (), (hs', d', w))"
    "dp_ok (hs', d', w)" "dp_interest (hs', d', w) = (dp_interest (hs, d, w))(s := None)" by blast
  then show ?thesis
    by (simp add: then_op_def bind_op_def ret_def on_dispatch_def on_dns_def modify_op_def c)
qed

lemma request_one_ok:
  assumes ok: "dp_ok (core_dispatch st)" and s: "sock_view st s = Some (f, e)"
  shows "\<exists>st'. on_dispatch (on_snd (dm_request (poll_ops P hv spm sys) s ev)) st = (Inr (), st') \<and>
    dp_ok (core_dispatch st') \<and> sock_view st' = (sock_view st)(s \<mapsto> (f, ucast ev)) \<and> core_dns st' = core_dns st"
proof -
  obtain hs d w where c: "core_dispatch st = (hs, d, w)" by (cases "core_dispatch st")
  from dp_request [OF ok [unfolded c] s [unfolded c], of P hv spm sys ev] obtain d' where
    "dm_request (poll_ops P hv spm sys) s ev (d, w) = (Inr (), (d', w))" "dp_ok (hs, d', w)"
    "dp_interest (hs, d', w) = (dp_interest (hs, d, w))(s \<mapsto> (f, ucast ev))" by blast
  then show ?thesis by (simp add: on_dispatch_def on_snd_def c)
qed

section \<open>The loop\<close>

text \<open>What should be registered afterwards: the requested descriptors, those that were registered with
  the handler they had, and everything that does not belong to the resolver as it was.\<close>

definition merged :: "(int \<Rightarrow> 'h) \<Rightarrow> pollfd list \<Rightarrow> int list \<Rightarrow> (int \<rightharpoonup> 'h \<times> u16) \<Rightarrow> (int \<rightharpoonup> 'h \<times> u16)" where
  "merged fdh ps reg i s =
     (case map_of (map (\<lambda>p. (pfd_fd p, req_of p)) ps) s of
        Some e \<Rightarrow> Some (if s \<in> set reg then fst (the (i s)) else fdh s, e)
      | None \<Rightarrow> if s \<in> set reg then None else i s)"

definition merge_pre :: "pollfd list \<Rightarrow> int list \<Rightarrow> ('f, 'h, poll_demux, 'u, 'k, 'm) core_state_scheme \<Rightarrow> bool" where
  "merge_pre ps reg st \<longleftrightarrow> dp_ok (core_dispatch st) \<and>
     sorted_wrt (<) (map pfd_fd ps) \<and> sorted_wrt (<) reg \<and> sorted_wrt (<) (registered_sockets (core_dns st)) \<and>
     set reg \<subseteq> set (registered_sockets (core_dns st)) \<and> (\<forall>s \<in> set reg. sock_view st s \<noteq> None) \<and>
     (\<forall>p \<in> set ps. 0 \<le> pfd_fd p \<and> pfd_request poll_codes p \<noteq> no_events \<and>
        (pfd_fd p \<notin> set reg \<longrightarrow> sock_view st (pfd_fd p) = None \<and> pfd_fd p \<notin> set (registered_sockets (core_dns st))))"

definition merge_post :: "(int \<Rightarrow> 'h) \<Rightarrow> pollfd list \<Rightarrow> int list \<Rightarrow> ('f, 'h, poll_demux, 'u, 'k, 'm) core_state_scheme \<Rightarrow>
    ('f, 'h, poll_demux, 'u, 'k, 'm) core_state_scheme \<Rightarrow> bool" where
  "merge_post fdh ps reg st st' \<longleftrightarrow> dp_ok (core_dispatch st') \<and>
     sock_view st' = merged fdh ps reg (sock_view st) \<and> sorted_wrt (<) (registered_sockets (core_dns st')) \<and>
     set (registered_sockets (core_dns st')) = set (registered_sockets (core_dns st)) - set reg \<union> pfd_fd ` set ps"

lemma strict_insort: "sorted_wrt (<) xs \<Longrightarrow> x \<notin> set xs \<Longrightarrow> sorted_wrt (<) (insort x xs)" for x :: int
  by (simp add: strict_sorted_iff sorted_insort distinct_insort)

lemma strict_remove1: "sorted_wrt (<) xs \<Longrightarrow> sorted_wrt (<) (remove1 x xs)" for x :: int
  by (simp add: strict_sorted_iff sorted_remove1)

lemma set_remove1_strict: "sorted_wrt (<) xs \<Longrightarrow> set (remove1 x xs) = set xs - {x}" for x :: int
  by (simp add: strict_sorted_iff)

lemma map_of_fd_None: "map_of (map (\<lambda>p. (pfd_fd p, g p)) ps) s = None \<longleftrightarrow> s \<notin> pfd_fd ` set ps"
  by (auto simp: map_of_eq_None_iff image_image)

lemma destroy_all_ok:
  "merge_pre [] reg st \<Longrightarrow>
   \<exists>st'. destroy_sockets (poll_ops P hv spm sys) reg st = (Inr (), st') \<and> merge_post fdh [] reg st st'"
proof (induction reg arbitrary: st)
  case Nil
  then show ?case by (auto simp: ret_def merge_pre_def merge_post_def merged_def)
next
  case (Cons s reg)
  have pre: "dp_ok (core_dispatch st)" "sock_view st s \<noteq> None"
    using Cons.prems by (auto simp: merge_pre_def)
  from destroy_one_ok [OF pre, of P hv spm sys reg] obtain st1 where
    run: "destroy_sockets (poll_ops P hv spm sys) (s # reg) st = destroy_sockets (poll_ops P hv spm sys) reg st1" and
    st1: "dp_ok (core_dispatch st1)" "sock_view st1 = (sock_view st)(s := None)"
      "registered_sockets (core_dns st1) = remove1 s (registered_sockets (core_dns st))" by blast
  have "merge_pre [] reg st1"
    using Cons.prems st1 by (auto simp: merge_pre_def strict_remove1 set_remove1_strict)
  from Cons.IH [OF this] obtain st' where
    "destroy_sockets (poll_ops P hv spm sys) reg st1 = (Inr (), st')" "merge_post fdh [] reg st1 st'" by blast
  moreover from this(2) have "merge_post fdh [] (s # reg) st st'"
    using Cons.prems st1 by (auto simp: merge_post_def merge_pre_def merged_def fun_eq_iff set_remove1_strict)
  ultimately show ?case unfolding run by blast
qed

lemma adns_merge_ok:
  "merge_pre ps reg st \<Longrightarrow>
   \<exists>st'. adns_merge (poll_ops P hv spm sys) fdh ps reg st = (Inr (), st') \<and> merge_post fdh ps reg st st'"
proof (induction "poll_ops P hv spm sys" fdh ps reg arbitrary: st rule: adns_merge.induct)
  case (1 fdh reg)
  from destroy_all_ok [OF 1] show ?case by simp
next
  case (2 fdh p ps)
  have pre: "dp_ok (core_dispatch st)" "0 \<le> pfd_fd p" "pfd_request poll_codes p \<noteq> no_events"
    "sock_view st (pfd_fd p) = None" "pfd_fd p \<notin> set (registered_sockets (core_dns st))"
    using 2(2) by (auto simp: merge_pre_def)
  from register_fd_ok [OF pre, of P hv spm sys fdh] obtain st1 where
    run: "register_fd (poll_ops P hv spm sys) fdh p st = (Inr (), st1)" and
    st1: "dp_ok (core_dispatch st1)" "sock_view st1 = (sock_view st)(pfd_fd p \<mapsto> (fdh (pfd_fd p), req_of p))"
      "registered_sockets (core_dns st1) = insort (pfd_fd p) (registered_sockets (core_dns st))" by blast
  have "merge_pre ps [] st1"
    using 2(2) st1 by (auto simp: merge_pre_def strict_insort set_insort_key)
  from 2(1) [OF this] obtain st' where
    "adns_merge (poll_ops P hv spm sys) fdh ps [] st1 = (Inr (), st')" "merge_post fdh ps [] st1 st'" by blast
  moreover have "map_of (map (\<lambda>p. (pfd_fd p, req_of p)) ps) (pfd_fd p) = None"
    unfolding map_of_fd_None using 2(2) by (auto simp: merge_pre_def)
  moreover from this calculation(2) have "merge_post fdh (p # ps) [] st st'"
    using 2(2) st1 by (auto simp: merge_post_def merge_pre_def merged_def fun_eq_iff set_insort_key split: option.splits)
  ultimately show ?case using run by (auto simp: then_op_def bind_op_def)
next
  case (3 fdh p ps s reg)
  note pre = 3(4)
  have ok: "dp_ok (core_dispatch st)" and view: "sock_view st s \<noteq> None" using pre by (auto simp: merge_pre_def)
  have fresh: "map_of (map (\<lambda>p. (pfd_fd p, req_of p)) ps) (pfd_fd p) = None"
    unfolding map_of_fd_None using pre by (auto simp: merge_pre_def)
  consider (new) "pfd_fd p < s" | (same) "pfd_fd p = s" | (gone) "s < pfd_fd p" by linarith
  then show ?case
  proof cases
    case new
    then have "pfd_fd p \<notin> set (s # reg)" using pre by (auto simp: merge_pre_def)
    with pre have p: "0 \<le> pfd_fd p" "pfd_request poll_codes p \<noteq> no_events"
      "sock_view st (pfd_fd p) = None" "pfd_fd p \<notin> set (registered_sockets (core_dns st))"
      by (auto simp: merge_pre_def)
    from register_fd_ok [OF ok p, of P hv spm sys fdh] obtain st1 where
      run: "register_fd (poll_ops P hv spm sys) fdh p st = (Inr (), st1)" and
      st1: "dp_ok (core_dispatch st1)" "sock_view st1 = (sock_view st)(pfd_fd p \<mapsto> (fdh (pfd_fd p), req_of p))"
        "registered_sockets (core_dns st1) = insort (pfd_fd p) (registered_sockets (core_dns st))" by blast
    have "merge_pre ps (s # reg) st1"
      using pre st1 p by (auto simp: merge_pre_def strict_insort set_insort_key)
    from 3(1) [OF new this] obtain st' where
      "adns_merge (poll_ops P hv spm sys) fdh ps (s # reg) st1 = (Inr (), st')" "merge_post fdh ps (s # reg) st1 st'" by blast
    moreover from this(2) have "merge_post fdh (p # ps) (s # reg) st st'"
      using pre st1 fresh p
      by (auto simp: merge_post_def merge_pre_def merged_def fun_eq_iff set_insort_key split: option.splits)
    ultimately show ?thesis using run new by (auto simp: then_op_def bind_op_def)
  next
    case same
    obtain f e where "sock_view st s = Some (f, e)" using view by auto
    from request_one_ok [OF ok this, of P hv spm sys "pfd_request poll_codes p"] obtain st1 where
      run: "on_dispatch (on_snd (dm_request (poll_ops P hv spm sys) s (pfd_request poll_codes p))) st = (Inr (), st1)" and
      st1: "dp_ok (core_dispatch st1)" "sock_view st1 = (sock_view st)(s \<mapsto> (f, req_of p))" "core_dns st1 = core_dns st" by blast
    have "merge_pre ps reg st1"
      using pre st1 same by (auto simp: merge_pre_def)
    from 3(2) [OF _ same this] same obtain st' where
      "adns_merge (poll_ops P hv spm sys) fdh ps reg st1 = (Inr (), st')" "merge_post fdh ps reg st1 st'" by auto
    moreover from this(2) have "merge_post fdh (p # ps) (s # reg) st st'"
      using pre st1 fresh same \<open>sock_view st s = Some (f, e)\<close>
      by (auto simp: merge_post_def merge_pre_def merged_def fun_eq_iff split: option.splits)
    ultimately show ?thesis using run same by (auto simp: then_op_def bind_op_def poll_ops_def)
  next
    case gone
    from destroy_one_ok [OF ok view, of P hv spm sys "[]"] obtain st1 where
      run: "destroy_sockets (poll_ops P hv spm sys) [s] st = (Inr (), st1)" and
      st1: "dp_ok (core_dispatch st1)" "sock_view st1 = (sock_view st)(s := None)"
        "registered_sockets (core_dns st1) = remove1 s (registered_sockets (core_dns st))" by blast
    have "merge_pre (p # ps) reg st1"
      using pre st1 gone by (auto simp: merge_pre_def strict_remove1 set_remove1_strict)
    from 3(3) [OF _ _ this] gone obtain st' where
      "adns_merge (poll_ops P hv spm sys) fdh (p # ps) reg st1 = (Inr (), st')" "merge_post fdh (p # ps) reg st1 st'" by auto
    moreover have "map_of (map (\<lambda>p. (pfd_fd p, req_of p)) ps) s = None"
      unfolding map_of_fd_None using pre gone by (fastforce simp: merge_pre_def)
    moreover from this calculation(2) have "merge_post fdh (p # ps) (s # reg) st st'"
      using pre st1 gone
      by (auto simp: merge_post_def merge_pre_def merged_def fun_eq_iff set_remove1_strict split: option.splits)
    ultimately show ?thesis using run gone by (auto simp: then_op_def bind_op_def)
  qed
qed

section \<open>Properties\<close>

lemma sort_pfds_fds: "distinct (map pfd_fd ps) \<Longrightarrow> sorted_wrt (<) (map pfd_fd (sort_key pfd_fd ps))"
  using distinct_sort [of pfd_fd ps]
  by (auto simp: strict_sorted_iff distinct_map)

text \<open>
  C13.  The loop at the end of \<open>run\<close> makes the dispatcher follow the library.  Afterwards the resolver
  has a socket for exactly the descriptors that \<open>adns_beforepoll\<close> asked for, in order, each waiting
  for the events the library wants; descriptors it no longer wants are unregistered, and the sockets
  of the application are as they were.
\<close>

theorem adns_reregister_follows_library:
  assumes ok: "dp_ok (core_dispatch st)" and n: "0 \<le> nfds" "nat nfds \<le> length (pfds (core_dns st))" "pfds (core_dns st) \<noteq> []"
    and ps: "distinct (map pfd_fd (take (nat nfds) (pfds (core_dns st))))"
      "\<forall>p \<in> set (take (nat nfds) (pfds (core_dns st))). 0 \<le> pfd_fd p \<and> pfd_request poll_codes p \<noteq> no_events \<and>
         (pfd_fd p \<in> set (registered_sockets (core_dns st)) \<or> sock_view st (pfd_fd p) = None)"
    and reg: "sorted_wrt (<) (registered_sockets (core_dns st))"
      "\<forall>s \<in> set (registered_sockets (core_dns st)). sock_view st s \<noteq> None"
  shows "\<exists>st'. adns_reregister (poll_ops P hv spm sys) fdh nfds st = (Inr (), st') \<and>
    registered_sockets (core_dns st') = sort (map pfd_fd (take (nat nfds) (pfds (core_dns st)))) \<and>
    (\<forall>p \<in> set (take (nat nfds) (pfds (core_dns st))). \<exists>f. sock_view st' (pfd_fd p) = Some (f, req_of p)) \<and>
    (\<forall>s. s \<notin> pfd_fd ` set (take (nat nfds) (pfds (core_dns st))) \<longrightarrow>
       sock_view st' s = (if s \<in> set (registered_sockets (core_dns st)) then None else sock_view st s))"
proof -
  let ?ps = "take (nat nfds) (pfds (core_dns st))"
  let ?st = "st\<lparr>core_dns := (core_dns st)\<lparr>pfds := sort_key pfd_fd ?ps @ drop (nat nfds) (pfds (core_dns st))\<rparr>\<rparr>"
  have run: "adns_reregister (poll_ops P hv spm sys) fdh nfds st =
      adns_merge (poll_ops P hv spm sys) fdh (sort_key pfd_fd ?ps) (registered_sockets (core_dns st)) ?st"
    using n by (simp add: adns_reregister_def then_op_def bind_op_def assert_op_def guard_op_def on_dns_def modify_op_def)
  have "merge_pre (sort_key pfd_fd ?ps) (registered_sockets (core_dns st)) ?st"
    using ok ps reg sort_pfds_fds [OF ps(1)] by (auto simp: merge_pre_def)
  from adns_merge_ok [OF this, of P hv spm sys fdh] obtain st' where
    st': "adns_merge (poll_ops P hv spm sys) fdh (sort_key pfd_fd ?ps) (registered_sockets (core_dns st)) ?st = (Inr (), st')"
      "merge_post fdh (sort_key pfd_fd ?ps) (registered_sockets (core_dns st)) ?st st'" by blast
  have "registered_sockets (core_dns st') = sort (map pfd_fd ?ps)"
  proof (rule sorted_distinct_set_unique)
    show "sorted (registered_sockets (core_dns st'))" "distinct (registered_sockets (core_dns st'))"
      using st'(2) by (simp_all add: merge_post_def strict_sorted_iff)
    show "set (registered_sockets (core_dns st')) = set (sort (map pfd_fd ?ps))"
      using st'(2) by (auto simp: merge_post_def)
  qed (use ps(1) in simp_all)
  moreover have "\<exists>f. sock_view st' (pfd_fd p) = Some (f, req_of p)" if "p \<in> set ?ps" for p
  proof -
    have "map_of (map (\<lambda>p. (pfd_fd p, req_of p)) (sort_key pfd_fd ?ps)) (pfd_fd p) = Some (req_of p)"
      using that sort_pfds_fds [OF ps(1)] by (intro map_of_is_SomeI) (auto simp: comp_def strict_sorted_iff)
    then show ?thesis using st'(2) by (simp add: merge_post_def merged_def)
  qed
  moreover have "sock_view st' s = (if s \<in> set (registered_sockets (core_dns st)) then None else sock_view st s)"
    if "s \<notin> pfd_fd ` set ?ps" for s
  proof -
    have "map_of (map (\<lambda>p. (pfd_fd p, req_of p)) (sort_key pfd_fd ?ps)) s = None"
      using that by (simp only: map_of_fd_None set_sort not_False_eq_True)
    then show ?thesis using st'(2) by (simp add: merge_post_def merged_def)
  qed
  ultimately show ?thesis using st'(1) unfolding run by blast
qed

definition resolver_core :: "(string, string, poll_demux, string, unit) core_state" where
  "resolver_core = \<lparr>core_now = \<lparr>tv_sec = 40, tv_usec = 0\<rparr>, core_schedule = schedule_init,
     core_dispatch = ([(8, ''app''), (3, ''dns'')], (two_sockets, \<lparr>errno = 0, os = ()\<rparr>)),
     core_dns = \<lparr>adns_timeout = timeout_new, queries = [], registered_sockets = [3],
       pfds = [\<lparr>pfd_fd = 9, pfd_events = 1, pfd_revents = 0\<rparr>, \<lparr>pfd_fd = 5, pfd_events = 4, pfd_revents = 0\<rparr>]\<rparr>\<rparr>"

theorem adns_reregister_follows_library_witness:
  "\<exists>st'. adns_reregister (poll_ops quiet_sock True (\<lambda>_ w. ((0, {}), w)) (\<lambda>ps to m w. ((0, []), w))) (\<lambda>fd. ''dns'') 2 resolver_core
      = (Inr (), st') \<and> registered_sockets (core_dns st') = [5, 9] \<and> sock_view st' 3 = None \<and> sock_view st' 8 = Some (''app'', 4)"
proof -
  have ok: "dp_ok (core_dispatch resolver_core)"
    using two_sockets_ok by (auto simp: dp_ok_def resolver_core_def two_sockets_def poll_interest_def poll_construct_def)
  have view: "sock_view resolver_core 9 = None" "sock_view resolver_core 5 = None" "sock_view resolver_core 3 = Some (''dns'', 1)"
    "sock_view resolver_core 8 = Some (''app'', 4)"
    by (simp_all add: dp_interest_def resolver_core_def two_sockets_def poll_interest_def poll_construct_def)
  have req: "pfd_request poll_codes \<lparr>pfd_fd = 9, pfd_events = 1, pfd_revents = 0\<rparr> \<noteq> no_events"
    "pfd_request poll_codes \<lparr>pfd_fd = 5, pfd_events = 4, pfd_revents = 0\<rparr> \<noteq> no_events"
    by (simp_all add: pfd_request_def event_or_def event_if_def poll_codes_def no_events_def)
  have c: "pfds (core_dns resolver_core) = [\<lparr>pfd_fd = 9, pfd_events = 1, pfd_revents = 0\<rparr>, \<lparr>pfd_fd = 5, pfd_events = 4, pfd_revents = 0\<rparr>]"
    "registered_sockets (core_dns resolver_core) = [3]"
    by (simp_all add: resolver_core_def)
  show ?thesis
    using adns_reregister_follows_library [OF ok, of 2 quiet_sock True "\<lambda>_ w. ((0, {}), w)" "\<lambda>ps to m w. ((0, []), w)" "\<lambda>fd. ''dns''"]
      view req by (auto simp: c)
qed

end
