(* ===== verification/Ioxx_Adns_Delivery.thy ===== *)
theory Ioxx_Adns_Delivery
  imports Ioxx_Adns_Sockets
begin

text \<open>
  \<open>adns::deliver_responses\<close> (\<open>include/ioxx/detail/adns.hpp\<close>): which handlers a delivery calls, with
  what, and in which order, on the \<open>poll\<close> demultiplexer.
\<close>

section \<open>The library's answers\<close>

text \<open>The documented behaviour of \<open>adns_check\<close> when it is asked for any query: \<open>A\<close> are the answers that
  are ready, in the order in which the library gives them out, \<open>I\<close> counts the signals that interrupt the
  call first, and \<open>Q\<close> are the outstanding queries and their types.\<close>

definition adns_answers_law :: "('k \<Rightarrow> (int \<times> adns_answer) list) \<Rightarrow> ('k \<Rightarrow> nat) \<Rightarrow> ('k \<Rightarrow> int \<rightharpoonup> rrtype) \<Rightarrow> 'k adns_lib \<Rightarrow> bool" where
  "adns_answers_law A I Q L \<longleftrightarrow>
     (\<forall>w. set (adns_queries L w) = dom (Q (os w)) \<and> distinct (map fst (A (os w))) \<and>
        (\<forall>(q, a) \<in> set (A (os w)). Q (os w) q = Some (an_type a) \<and> answer_wf a)) \<and>
     (\<forall>w rc q a w'. adns_check L w = ((rc, q, a), w') \<longrightarrow>
        (if I (os w) \<noteq> 0 then rc = EINTR \<and> I (os w') < I (os w) \<and> A (os w') = A (os w) \<and> Q (os w') = Q (os w)
         else (case A (os w) of
             [] \<Rightarrow> rc = (if Q (os w) = Map.empty then ESRCH else EAGAIN) \<and> A (os w') = [] \<and> Q (os w') = Q (os w)
           | x # xs \<Rightarrow> rc = 0 \<and> q = fst x \<and> a = Some (snd x) \<and> A (os w') = xs \<and> Q (os w') = (Q (os w))(q := None))))"

lemma adns_answersD:
  assumes "adns_answers_law A I Q L"
  shows "set (adns_queries L w) = dom (Q (os w))" "distinct (map fst (A (os w)))"
    "(q, a) \<in> set (A (os w)) \<Longrightarrow> Q (os w) q = Some (an_type a) \<and> answer_wf a"
    "adns_check L w = ((rc, q, ans), w') \<Longrightarrow> I (os w) \<noteq> 0 \<Longrightarrow>
       rc = EINTR \<and> I (os w') < I (os w) \<and> A (os w') = A (os w) \<and> Q (os w') = Q (os w)"
    "adns_check L w = ((rc, q, ans), w') \<Longrightarrow> I (os w) = 0 \<Longrightarrow> A (os w) = [] \<Longrightarrow>
       rc = (if Q (os w) = Map.empty then ESRCH else EAGAIN) \<and> A (os w') = [] \<and> Q (os w') = Q (os w)"
    "adns_check L w = ((rc, q, ans), w') \<Longrightarrow> I (os w) = 0 \<Longrightarrow> A (os w) = x # xs \<Longrightarrow>
       rc = 0 \<and> q = fst x \<and> ans = Some (snd x) \<and> A (os w') = xs \<and> Q (os w') = (Q (os w))(q := None)"
proof -
  note law = assms [unfolded adns_answers_law_def]
  show "set (adns_queries L w) = dom (Q (os w))" "distinct (map fst (A (os w)))" using law by blast+
  show "(q, a) \<in> set (A (os w)) \<Longrightarrow> Q (os w) q = Some (an_type a) \<and> answer_wf a" using law by fast
  assume chk: "adns_check L w = ((rc, q, ans), w')"
  note law = law [THEN conjunct2, rule_format, OF chk]
  show "I (os w) \<noteq> 0 \<Longrightarrow> rc = EINTR \<and> I (os w') < I (os w) \<and> A (os w') = A (os w) \<and> Q (os w') = Q (os w)"
    using law by simp
  show "I (os w) = 0 \<Longrightarrow> A (os w) = [] \<Longrightarrow> rc = (if Q (os w) = Map.empty then ESRCH else EAGAIN) \<and> A (os w') = [] \<and> Q (os w') = Q (os w)"
    using law by simp
  show "I (os w) = 0 \<Longrightarrow> A (os w) = x # xs \<Longrightarrow>
      rc = 0 \<and> q = fst x \<and> ans = Some (snd x) \<and> A (os w') = xs \<and> Q (os w') = (Q (os w))(q := None)"
    using law by simp
qed

text \<open>The resolver is consistent, and its sockets are registered in the dispatcher.\<close>

definition resolver_ok :: "('k \<Rightarrow> int \<rightharpoonup> rrtype) \<Rightarrow> ('f, 'h, poll_demux, 'u, 'k, 'm) core_state_scheme \<Rightarrow> bool" where
  "resolver_ok Q st \<longleftrightarrow> dns_ok Q st \<and> dp_ok (core_dispatch st) \<and> sorted_wrt (<) (registered_sockets (core_dns st)) \<and>
     (\<forall>s \<in> set (registered_sockets (core_dns st)). sock_view st s \<noteq> None)"

section \<open>The ends of the loop\<close>

lemma keeps_on_dispatch:
  fixes g :: "('f, 'h, 'd, 'u, 'k, 'm) core_state_scheme \<Rightarrow> 'r"
  assumes m: "keeps (\<lambda>x. snd (snd x)) m" and g: "\<And>st x. g (st\<lparr>core_dispatch := x\<rparr>) = g st"
  shows "keeps (\<lambda>st. (the_world st, g st)) (on_dispatch m)"
  unfolding keeps_def
proof
  fix st :: "('f, 'h, 'd, 'u, 'k, 'm) core_state_scheme"
  obtain r x where x: "m (core_dispatch st) = (r, x)" by (cases "m (core_dispatch st)")
  from keepsD [OF m x] show "(the_world (snd (on_dispatch m st)), g (snd (on_dispatch m st))) = (the_world st, g st)"
    by (simp add: on_dispatch_def x g)
qed

lemma destroy_keeps:
  fixes g :: "('f, 'h, poll_demux, 'u, 'k, 'm) core_state_scheme \<Rightarrow> 'r"
  assumes g: "\<And>st x. g (st\<lparr>core_dispatch := x\<rparr>) = g st" "\<And>st r. g (st\<lparr>core_dns := (core_dns st)\<lparr>registered_sockets := r\<rparr>\<rparr>) = g st"
  shows "keeps (\<lambda>st. (the_world st, g st)) (destroy_sockets (poll_ops P hv spm sys) ss)"
proof (induction ss)
  case Nil
  then show ?case by (simp add: keeps_intros)
next
  case (Cons s ss)
  let ?sk = "\<lparr>sock = s, close_flag = False\<rparr>"
  have "keeps (\<lambda>x. x) (system_socket_destruct P ?sk)" by (simp add: system_socket_destruct_def keeps_intros)
  then have "keeps (\<lambda>x. snd x) (poll_socket_destruct P ?sk)"
    unfolding poll_socket_destruct_def by (intro keeps_intros) (simp_all add: keeps_intros)
  then have "keeps (\<lambda>x. snd (snd x)) (dispatch_socket_destruct (poll_ops P hv spm sys) ?sk)"
    unfolding dispatch_socket_destruct_def by (intro keeps_intros keeps_on_fst) (simp_all add: poll_ops_def keeps_on_snd keeps_on_fst)
  from keeps_on_dispatch [OF this g(1)]
  have "keeps (\<lambda>st. (the_world st, g st)) (on_dispatch (dispatch_socket_destruct (poll_ops P hv spm sys) ?sk))" .
  moreover have "keeps (\<lambda>st :: ('f, 'h, poll_demux, 'u, 'k, 'm) core_state_scheme. (the_world st, g st))
      (on_dns (modify_op (\<lambda>a. a\<lparr>registered_sockets := f a\<rparr>)))" for f :: "'u adns \<Rightarrow> int list"
    by (simp add: keeps_def on_dns_def modify_op_def g(2))
  ultimately show ?case using Cons by (auto intro!: keeps_intros)
qed

lemma clear_sockets_ok:
  fixes g :: "('f, 'h, poll_demux, 'u, 'k, 'm) core_state_scheme \<Rightarrow> 'r"
  assumes ok: "resolver_ok Q st"
    and g: "\<And>st x. g (st\<lparr>core_dispatch := x\<rparr>) = g st" "\<And>st a. g (st\<lparr>core_dns := a\<rparr>) = g st"
  shows "\<exists>st'. clear_sockets (poll_ops P hv spm sys) st = (Inr (), st') \<and> resolver_ok Q st' \<and>
    the_world st' = the_world st \<and> queries (core_dns st') = queries (core_dns st) \<and> g st' = g st"
proof -
  have "merge_pre [] (registered_sockets (core_dns st)) st" using ok by (auto simp: resolver_ok_def merge_pre_def)
  from destroy_all_ok [OF this] obtain st' where run: "clear_sockets (poll_ops P hv spm sys) st = (Inr (), st')"
      and post: "merge_post undefined [] (registered_sockets (core_dns st)) st st'"
    unfolding clear_sockets_def by blast
  have "keeps (\<lambda>st. (the_world st, queries (core_dns st), g st)) (destroy_sockets (poll_ops P hv spm sys) (registered_sockets (core_dns st)))"
    by (rule destroy_keeps [where g = "\<lambda>st. (queries (core_dns st), g st)"]) (simp_all add: g)
  from keepsD [OF this run [unfolded clear_sockets_def]] have same: "the_world st' = the_world st"
    "queries (core_dns st') = queries (core_dns st)" "g st' = g st" by simp_all
  with ok post have "resolver_ok Q st'" by (auto simp: resolver_ok_def dns_ok_def merge_post_def)
  with run same show ?thesis by blast
qed

section \<open>The loop\<close>

text \<open>A check of the library, and the state in which the callback of an answered query is called.\<close>

lemma deliver_step:
  assumes "adns_check L (the_world st) = ((rc, q, a), w')"
  shows "deliver_responses M L call st =
    (if rc = EINTR then deliver_responses M L call (with_world w' st)
     else if rc = ESRCH then Some (then_op (assert_op (queries (core_dns st) = [])) (clear_sockets M) (with_world w' st))
     else if rc = EAGAIN then Some (then_op (assert_op (queries (core_dns st) \<noteq> [])) (adns_check_consistency L) (with_world w' st))
     else if rc \<noteq> 0 then Some (Inl (System_error rc ''adns_check()''), with_world w' st)
     else (case a of None \<Rightarrow> Some (Inl Assertion_failed, with_world w' st)
       | Some ans \<Rightarrow> (case map_of (queries (core_dns st)) q of
           None \<Rightarrow> Some (Inl Assertion_failed, with_world w' st)
         | Some f \<Rightarrow> then_prog (call_callback call f ans) (deliver_responses M L call)
             (with_world w' st\<lparr>core_dns := (core_dns st)\<lparr>queries := AList.delete q (queries (core_dns st))\<rparr>\<rparr>))))"
  using assms by (subst deliver_responses.simps) (simp add: on_world_apply lib_call_def then_prog_def bind_prog_def split: option.split)

lemma resolver_ok_world: "resolver_ok Q st \<Longrightarrow> Q (os w') = Q (os (the_world st)) \<Longrightarrow> resolver_ok Q (with_world w' st)"
  by (cases "core_dispatch st") (auto simp: resolver_ok_def dns_ok_def dp_ok_def dp_interest_def)

lemma deliver_after_signals:
  assumes law: "adns_answers_law A I Q L"
  shows "\<exists>w'. I (os w') = 0 \<and> A (os w') = A (os (the_world st)) \<and> Q (os w') = Q (os (the_world st)) \<and>
    deliver_responses M L call st = deliver_responses M L call (with_world w' st)"
proof (induction "I (os (the_world st))" arbitrary: st rule: less_induct)
  case less
  show ?case
  proof (cases "I (os (the_world st)) = 0")
    case True
    then show ?thesis by (intro exI [of _ "the_world st"]) simp
  next
    case False
    obtain rc q a w1 where chk: "adns_check L (the_world st) = ((rc, q, a), w1)" by (metis surj_pair)
    with adns_answersD(4) [OF law chk] False have w1: "rc = EINTR" "I (os w1) < I (os (the_world st))" "A (os w1) = A (os (the_world st))" "Q (os w1) = Q (os (the_world st))"
      by simp_all
    from less [of "with_world w1 st"] w1(2) obtain w' where "I (os w') = 0" "A (os w') = A (os w1)" "Q (os w') = Q (os w1)"
      "deliver_responses M L call (with_world w1 st) = deliver_responses M L call (with_world w' st)" by auto
    with w1 deliver_step [OF chk, of M call] show ?thesis by auto
  qed
qed

section \<open>Properties\<close>

text \<open>
  C15.  Every answer reaches the handler of its query.  Let the library have answers ready, and let
  signals interrupt its check any number of times.  Then \<open>deliver_responses\<close> returns, and it has called
  exactly the handlers of the answered queries, each once, with its decoded answer, in the order in which
  the library gave the answers out; no assertion has failed, no answer is left, and there is a callback
  for exactly the queries that are still outstanding.  The handlers, which are not empty and return, may
  submit further queries.
\<close>

theorem deliver_responses_calls_handlers:
  fixes st :: "('f, 'h, poll_demux, 'u, 'k, 'm) core_state_scheme" and Q :: "'k \<Rightarrow> int \<rightharpoonup> rrtype"
    and log :: "('f, 'h, poll_demux, 'u, 'k, 'm) core_state_scheme \<Rightarrow> ('u \<times> dns_result) list"
  assumes law: "adns_answers_law A I Q L" and M: "M = poll_ops P hv spm sys"
    and log: "\<And>st x. log (st\<lparr>core_dispatch := x\<rparr>) = log st" "\<And>st a. log (st\<lparr>core_dns := a\<rparr>) = log st"
    and call: "\<And>u x st. resolver_ok Q st \<Longrightarrow> \<exists>st'. call u x st = Some (Inr (), st') \<and> resolver_ok Q st' \<and>
      log st' = log st @ [(u, x)] \<and> A (os (the_world st')) = A (os (the_world st)) \<and>
      (\<forall>q f. map_of (queries (core_dns st)) q = Some f \<longrightarrow> map_of (queries (core_dns st')) q = Some f)"
    and ok: "resolver_ok Q st"
    and handlers: "\<forall>(q, a) \<in> set (A (os (the_world st))). callback_handler (the (map_of (queries (core_dns st)) q)) \<noteq> None"
  shows "\<exists>st'. deliver_responses M L call st = Some (Inr (), st') \<and> resolver_ok Q st' \<and> A (os (the_world st')) = [] \<and>
    log st' = log st @ map (\<lambda>(q, a). let f = the (map_of (queries (core_dns st)) q) in
      (the (callback_handler f), projr (decode_answer f a))) (A (os (the_world st)))"
  using ok handlers
proof (induction "A (os (the_world st))" arbitrary: st)
  case Nil
  obtain w0 where w0: "I (os w0) = 0" "A (os w0) = []" "Q (os w0) = Q (os (the_world st))"
    and skip: "deliver_responses M L call st = deliver_responses M L call (with_world w0 st)"
    using deliver_after_signals [OF law] Nil(1) by metis
  obtain rc q ans w1 where chk: "adns_check L w0 = ((rc, q, ans), w1)" by (metis surj_pair)
  from adns_answersD(5) [OF law chk w0(1,2)] have w1: "rc = (if Q (os w0) = Map.empty then ESRCH else EAGAIN)" "A (os w1) = []"
    "Q (os w1) = Q (os w0)" by simp_all
  have ok1: "resolver_ok Q (with_world w1 st)" using resolver_ok_world [OF Nil(2)] w0(3) w1(3) by simp
  have empty: "Q (os w0) = Map.empty \<longleftrightarrow> queries (core_dns st) = []"
    using dns_ok_empty [of Q st] Nil(2) w0(3) by (simp add: resolver_ok_def)
  show ?case
  proof (cases "queries (core_dns st) = []")
    case True
    from clear_sockets_ok [OF ok1, where g = log and P = P and hv = hv and spm = spm and sys = sys, OF log] obtain st' where
      "clear_sockets M (with_world w1 st) = (Inr (), st')" "resolver_ok Q st'" "the_world st' = w1" "log st' = log (with_world w1 st)"
      unfolding M by auto
    with True empty w1 deliver_step [of L "with_world w0 st", simplified, OF chk, of M call] skip Nil(1) log show ?thesis
      by (auto simp: errno_codes then_op_def bind_op_def assert_op_def)
  next
    case False
    have "adns_check_consistency L (with_world w1 st) = (Inr (), with_world w1 st)"
      using adns_check_consistency_ok [of Q "with_world w1 st" L] ok1 adns_answersD(1) [OF law] by (simp add: resolver_ok_def)
    with False empty w1 deliver_step [of L "with_world w0 st", simplified, OF chk, of M call] skip Nil(1) log ok1 show ?thesis
      by (auto simp: errno_codes then_op_def bind_op_def assert_op_def)
  qed
next
  case (Cons x xs)
  obtain q a where x: "x = (q, a)" by (cases x)
  note A = Cons(2) [symmetric, unfolded x]
  obtain w0 where w0: "I (os w0) = 0" "A (os w0) = (q, a) # xs" "Q (os w0) = Q (os (the_world st))"
    and skip: "deliver_responses M L call st = deliver_responses M L call (with_world w0 st)"
    using deliver_after_signals [OF law] A by metis
  obtain rc q' ans w1 where chk: "adns_check L w0 = ((rc, q', ans), w1)" by (metis surj_pair)
  from adns_answersD(6) [OF law chk w0(1,2)] have w1: "rc = 0" "q' = q" "ans = Some a" "A (os w1) = xs" "Q (os w1) = (Q (os w0))(q := None)"
    by simp_all
  have a: "Q (os (the_world st)) q = Some (an_type a)" "answer_wf a" using adns_answersD(3) [OF law, of q a w0] w0 by simp_all
  then obtain f where f: "map_of (queries (core_dns st)) q = Some f" "callback_type f = an_type a"
    using Cons(3) by (auto simp: resolver_ok_def dns_ok_def)
  obtain u where u: "callback_handler f = Some u" using Cons(4) A f(1) by auto
  obtain y where y: "decode_answer f a = Inr y" using handle_ok [OF a(2)] f(2) by (cases f) force+
  let ?st1 = "with_world w1 st\<lparr>core_dns := (core_dns st)\<lparr>queries := AList.delete q (queries (core_dns st))\<rparr>\<rparr>"
  have "resolver_ok Q ?st1"
    using Cons(3) w0(3) w1(5)
    by (cases "core_dispatch st") (auto simp: resolver_ok_def dns_ok_def dp_ok_def dp_interest_def delete_conv' fun_eq_iff)
  from call [OF this, of u y] obtain st2 where st2: "call u y ?st1 = Some (Inr (), st2)" "resolver_ok Q st2" "log st2 = log st @ [(u, y)]"
    "A (os (the_world st2)) = xs" "\<And>p g. p \<noteq> q \<Longrightarrow> map_of (queries (core_dns st)) p = Some g \<Longrightarrow> map_of (queries (core_dns st2)) p = Some g"
    by (auto simp: log w1(4) delete_conv')
  have later: "map_of (queries (core_dns st2)) p = map_of (queries (core_dns st)) p" if "(p, b) \<in> set xs" for p b
  proof -
    from adns_answersD(2) [OF law, of w0] w0(2) that have "p \<noteq> q" by force
    moreover have "Q (os (the_world st)) p = Some (an_type b)" using adns_answersD(3) [OF law, of p b w0] w0 that by simp
    then obtain g where "map_of (queries (core_dns st)) p = Some g" using Cons(3) by (auto simp: resolver_ok_def dns_ok_def)
    ultimately show ?thesis using st2(5) by simp
  qed
  have "\<forall>(p, b) \<in> set (A (os (the_world st2))). callback_handler (the (map_of (queries (core_dns st2)) p)) \<noteq> None"
    using Cons(4) A later st2(4) by auto
  from Cons(1) [OF st2(4) [symmetric] st2(2) this] obtain st' where st': "deliver_responses M L call st2 = Some (Inr (), st')" "resolver_ok Q st'"
    "A (os (the_world st')) = []" "log st' = log st2 @ map (\<lambda>(q, a). let f = the (map_of (queries (core_dns st2)) q) in
      (the (callback_handler f), projr (decode_answer f a))) xs"
    unfolding st2(4) by blast
  have rest: "map (\<lambda>(q, a). let f = the (map_of (queries (core_dns st2)) q) in (the (callback_handler f), projr (decode_answer f a))) xs =
      map (\<lambda>(q, a). let f = the (map_of (queries (core_dns st)) q) in (the (callback_handler f), projr (decode_answer f a))) xs"
    using later by (intro map_cong) auto
  have "deliver_responses M L call st = Some (Inr (), st')"
    using skip deliver_step [of L "with_world w0 st", simplified, OF chk, of M call] w1(1-3) f(1) u y st2(1) st'(1)
    by (simp add: errno_codes call_callback_decode call_handler_def then_prog_def bind_prog_def)
  moreover have "log st' = log st @ map (\<lambda>(q, a). let f = the (map_of (queries (core_dns st)) q) in
      (the (callback_handler f), projr (decode_answer f a))) ((q, a) # xs)"
    using st'(4) st2(3) f(1) u y unfolding rest by simp
  ultimately show ?case using st'(2,3) A by auto
qed

text \<open>A program that notes what its handlers are called with, two queries whose answers are ready, and a
  socket of the resolver.\<close>

record ('f, 'h, 'd, 'u, 'k) noting_state = "('f, 'h, 'd, 'u, 'k) core_state" +
  noted :: "('u \<times> dns_result) list"

definition note_result :: "'u \<Rightarrow> dns_result \<Rightarrow> (('f, 'h, 'd, 'u, 'k) noting_state, unit) prog" where
  "note_result u x st = Some (Inr (), st\<lparr>noted := noted st @ [(u, x)]\<rparr>)"

definition two_queries :: "(string, string, poll_demux, string, nat) noting_state" where
  "two_queries = \<lparr>core_now = \<lparr>tv_sec = 40, tv_usec = 0\<rparr>, core_schedule = schedule_init,
     core_dispatch = ([(8, ''app''), (3, ''dns'')], (two_sockets, \<lparr>errno = 0, os = 2\<rparr>)),
     core_dns = \<lparr>adns_timeout = timeout_new, queries = [(1, Callback_PTR (Some ''one'')), (2, Callback_PTR (Some ''two''))],
       registered_sockets = [3], pfds = []\<rparr>, noted = []\<rparr>"

definition count_answers :: "nat \<Rightarrow> (int \<times> adns_answer) list" where
  "count_answers n = map (\<lambda>i. (int i, host_answer)) (rev [1..<Suc n])"

lemma count_answers_law: "adns_answers_law count_answers (\<lambda>_. 0) count_view count_adns"
proof -
  have keys: "set (adns_queries count_adns w) = dom (count_view (os w))" for w
    using count_laws(1) unfolding adns_check_law_def by blast
  have fst: "map fst (count_answers n) = map int (rev [1..<Suc n])" for n
    by (simp add: count_answers_def comp_def del: upt_Suc)
  have "distinct (map fst (count_answers n))" for n
    unfolding fst by (simp add: distinct_map inj_on_def del: upt_Suc)
  moreover have "count_view n q = Some (an_type a) \<and> answer_wf a" if "(q, a) \<in> set (count_answers n)" for n q a
  proof -
    from that obtain i where "q = int i" "a = host_answer" "i \<in> set [1..<Suc n]" unfolding count_answers_def by auto
    then show ?thesis by (auto simp: count_view_def host_answer_def answer_wf_def)
  qed
  ultimately have ready: "set (adns_queries count_adns w) = dom (count_view (os w)) \<and> distinct (map fst (count_answers (os w))) \<and>
      (\<forall>(q, a) \<in> set (count_answers (os w)). count_view (os w) q = Some (an_type a) \<and> answer_wf a)" for w
    using keys by blast
  have check: "adns_check count_adns w = count_check w" for w by (simp add: count_adns_def)
  have zero: "count_view 0 = Map.empty" "count_answers 0 = []" by (auto simp: count_view_def count_answers_def)
  have suc: "count_view n = (count_view (Suc n))(int (Suc n) := None)" "count_answers (Suc n) = (int (Suc n), host_answer) # count_answers n" for n
    by (auto simp: count_view_def count_answers_def)
  have step: "case count_answers (os w) of
      [] \<Rightarrow> rc = (if count_view (os w) = Map.empty then ESRCH else EAGAIN) \<and> count_answers (os w') = [] \<and> count_view (os w') = count_view (os w)
    | x # xs \<Rightarrow> rc = 0 \<and> q = fst x \<and> a = Some (snd x) \<and> count_answers (os w') = xs \<and> count_view (os w') = (count_view (os w))(q := None)"
    if "count_check w = ((rc, q, a), w')" for w rc q a w'
  proof (cases "os w")
    case 0
    with that show ?thesis by (simp add: count_check_def zero)
  next
    case (Suc n)
    with that have "rc = 0" "q = int (Suc n)" "a = Some host_answer" "os w' = n" by (auto simp: count_check_def)
    then show ?thesis unfolding Suc by (simp only: suc(2) list.case fst_conv snd_conv suc(1) [of n])
  qed
  show ?thesis
    unfolding adns_answers_law_def check using ready step by simp
qed

theorem deliver_responses_calls_handlers_witness:
  "\<exists>st'. deliver_responses (poll_ops quiet_sock True (\<lambda>_ w. ((0, {}), w)) (\<lambda>ps to m w. ((0, []), w))) count_adns note_result two_queries
      = Some (Inr (), st') \<and> noted st' = [(''two'', Name (Some ''host'')), (''one'', Name (Some ''host''))]"
proof -
  have "dp_ok (core_dispatch two_queries)"
    using two_sockets_ok by (auto simp: dp_ok_def two_queries_def two_sockets_def poll_interest_def poll_construct_def)
  moreover have "sock_view two_queries 3 = Some (''dns'', 1)"
    by (simp add: dp_interest_def two_queries_def two_sockets_def poll_interest_def poll_construct_def)
  ultimately have ok: "resolver_ok count_view two_queries"
    by (auto simp: resolver_ok_def) (auto simp: two_queries_def dns_ok_def count_view_def fun_eq_iff)
  let ?M = "poll_ops quiet_sock True (\<lambda>_ w. ((0, {}), w)) (\<lambda>ps to m w. ((0, []), w)) :: (poll_demux \<times> nat world) demux_ops"
  have noting: "\<exists>st'. note_result u x st = Some (Inr (), st') \<and> resolver_ok count_view st' \<and> noted st' = noted st @ [(u, x)] \<and>
      count_answers (os (the_world st')) = count_answers (os (the_world st)) \<and>
      (\<forall>q f. map_of (queries (core_dns st)) q = Some f \<longrightarrow> map_of (queries (core_dns st')) q = Some f)"
    if "resolver_ok count_view st" for u x and st :: "(string, string, poll_demux, string, nat) noting_state"
    using that by (simp add: note_result_def resolver_ok_def dns_ok_def)
  have ready: "count_answers (os (the_world two_queries)) = [(2, host_answer), (1, host_answer)]"
    by (simp add: count_answers_def two_queries_def upt_rec)
  have qs: "queries (core_dns two_queries) = [(1, Callback_PTR (Some ''one'')), (2, Callback_PTR (Some ''two''))]" "noted two_queries = []"
    by (simp_all add: two_queries_def)
  have "\<exists>st'. deliver_responses ?M count_adns note_result two_queries = Some (Inr (), st') \<and> resolver_ok count_view st' \<and>
      count_answers (os (the_world st')) = [] \<and>
      noted st' = noted two_queries @ map (\<lambda>(q, a). let f = the (map_of (queries (core_dns two_queries)) q) in
        (the (callback_handler f), projr (decode_answer f a))) (count_answers (os (the_world two_queries)))"
    by (rule deliver_responses_calls_handlers [OF count_answers_law refl _ _ noting ok]) (simp_all add: ready qs)
  then show ?thesis by (auto simp: ready qs host_answer_def handlePTR_def by_status_def)
qed

end
