(* ===== verification/Ioxx_Acceptor.thy ===== *)
theory Ioxx_Acceptor
  imports Ioxx_Dispatch "HOL-Library.Sublist"
begin

text \<open>
  The class \<open>acceptor\<close> of \<open>include/ioxx/acceptor.hpp\<close>: a listening socket that hands every accepted
  connection to a handler, and a scope guard that closes the connection when the handler throws.

  The state is a pair of the application's state, dispatcher included, and the world of the operating
  system; \<open>call\<close> says what the handler does with a descriptor and the peer's address.
\<close>

section \<open>Operations\<close>

text \<open>The constructor, after \<open>_ls\<close> has been built from \<open>addr.create()\<close>; when it throws, the member
  \<open>_ls\<close> is destroyed.  The handler the dispatcher gets for \<open>_ls\<close> is \<open>run_handler\<close>.\<close>

definition acceptor_construct ::
  "'k sock_os \<Rightarrow> ('d \<times> 'k world) demux_ops \<Rightarrow> 'h \<Rightarrow> endpoint \<Rightarrow>
   ('h handler_map \<times> ('d \<times> 'k world), system_socket) op" where
  "acceptor_construct P M run_handler addr =
     bind_op (on_snd (on_snd (endpoint_create P addr)))
       (\<lambda>s. bind_op (dispatch_socket_construct M s run_handler (readable (dm_codes M)))
         (\<lambda>ls. unwind_op
            (then_op (on_snd (on_snd (set_nonblocking P ls True)))
              (then_op (on_snd (on_snd (reuse_bind_address P ls True)))
                (then_op (on_snd (on_snd (socket_bind P ls (address.truncate addr))))
                  (then_op (on_snd (on_snd (socket_listen P ls 16))) (ret ls)))))
            (dispatch_socket_destruct M ls)))"

text \<open>A body that may not return, and what runs when an exception leaves it.\<close>

definition unwind_prog :: "('s, 'a) prog \<Rightarrow> ('s, unit) op \<Rightarrow> ('s, 'a) prog" where
  "unwind_prog m d s = (case m s of None \<Rightarrow> None | Some rt \<Rightarrow> Some (unwind_op (\<lambda>_. rt) d s))"

text \<open>One round of the loop of \<open>run\<close>: the guard \<open>new_socket\<close> owns the descriptor until the handler has
  returned.\<close>

definition accept_connection ::
  "'k sock_os \<Rightarrow> (int \<Rightarrow> address \<Rightarrow> ('x \<times> 'k world, unit) prog) \<Rightarrow> int \<Rightarrow> address \<Rightarrow> ('x \<times> 'k world, unit) prog" where
  "accept_connection P call s addr =
     bind_prog (lift_op (system_socket_construct s take_ownership))
       (\<lambda>new_socket.
          then_prog
            (unwind_prog
              (then_prog (lift_op (on_snd (set_nonblocking P new_socket True)))
                (then_prog (lift_op (on_snd (set_linger_timeout P new_socket 0))) (call s addr)))
              (on_snd (system_socket_destruct P new_socket)))
            (lift_op (on_snd (system_socket_destruct P (set_close_on_destruction False new_socket)))))"

partial_function (option) acceptor_run ::
  "'k sock_os \<Rightarrow> (int \<Rightarrow> address \<Rightarrow> ('x \<times> 'k world, unit) prog) \<Rightarrow> system_socket \<Rightarrow> address \<Rightarrow>
   'x \<times> 'k world \<Rightarrow> ((fault + unit) \<times> ('x \<times> 'k world)) option" where
  "acceptor_run P call ls addr st =
     (case on_snd (socket_accept P ls addr) st of
        (Inl e, st1) \<Rightarrow> Some (Inl e, st1)
      | (Inr (accepted, s, addr1), st1) \<Rightarrow>
          if \<not> accepted then Some (Inr (), st1)
          else (case accept_connection P call s addr1 st1 of
                  None \<Rightarrow> None
                | Some (Inl e, st2) \<Rightarrow> Some (Inl e, st2)
                | Some (Inr _, st2) \<Rightarrow> acceptor_run P call ls addr1 st2))"

section \<open>One connection\<close>

text \<open>Setting socket options leaves the descriptors as they are.\<close>

definition options_law :: "'k kernel_view \<Rightarrow> 'k sock_os \<Rightarrow> bool" where
  "options_law V P \<longleftrightarrow>
     (\<forall>s c a w. open_fds V (os (snd (sys_fcntl P s c a w))) = open_fds V (os w)) \<and>
     (\<forall>s l n v w. open_fds V (os (snd (sys_setsockopt P s l n v w))) = open_fds V (os w))"

text \<open>How a round of the loop can end.\<close>

lemma accept_connection_cases:
  fixes P :: "'k sock_os"
  assumes s: "0 \<le> s"
  defines "sk \<equiv> \<lparr>sock = s, close_flag = True\<rparr>"
  shows "accept_connection P call s addr (x, w) =
    (case set_nonblocking P sk True w of
       (Inl e, w1) \<Rightarrow> Some (unwind_op (\<lambda>_. (Inl e, (x, w1))) (on_snd (system_socket_destruct P sk)) (x, w))
     | (Inr _, w1) \<Rightarrow>
       (case set_linger_timeout P sk 0 w1 of
          (Inl e, w2) \<Rightarrow> Some (unwind_op (\<lambda>_. (Inl e, (x, w2))) (on_snd (system_socket_destruct P sk)) (x, w))
        | (Inr _, w2) \<Rightarrow>
          (case call s addr (x, w2) of
             None \<Rightarrow> None
           | Some (Inl e, st) \<Rightarrow> Some (unwind_op (\<lambda>_. (Inl e, st)) (on_snd (system_socket_destruct P sk)) (x, w))
           | Some (Inr _, st) \<Rightarrow> Some (Inr (), st))))"
proof -
  have sk: "system_socket_construct s take_ownership (x, w) = (Inr sk, (x, w))"
    using s by (simp add: system_socket_construct_def sk_def)
  have quiet: "on_snd (system_socket_destruct P (set_close_on_destruction False sk)) st = (Inr (), st)" for st :: "'a \<times> 'k world"
    by (cases st) (simp add: system_socket_destruct_def set_close_on_destruction_def on_snd_def op_simps)
  show ?thesis
    by (auto simp: accept_connection_def bind_prog_def then_prog_def lift_op_def sk unwind_prog_def on_snd_def [of "set_nonblocking P sk True"]
      on_snd_def [of "set_linger_timeout P sk 0"] quiet unwind_op_def split: option.splits prod.splits sum.splits)
qed

lemma unwind_closes:
  assumes cl: "close_law V P" and s: "is_exception e \<Longrightarrow> sock sk \<in> open_fds V (os w)" and flag: "close_flag sk"
    and unw: "unwind_op (\<lambda>_. (Inl e, (x, w))) (on_snd (system_socket_destruct P sk)) st = (r, (x', w'))"
  shows "r = Inl e \<and> (is_exception e \<longrightarrow> sock sk \<notin> open_fds V (os w'))"
proof (cases "is_exception e")
  case True
  from close_cases [OF cl s [OF True] flag] obtain w1 where
    "system_socket_destruct P sk w = (Inr (), w1)" "open_fds V (os w1) = open_fds V (os w) - {sock sk}" .
  with unw True show ?thesis by (simp add: unwind_op_def on_snd_def)
next
  case False
  with unw show ?thesis by (simp add: unwind_op_def)
qed

lemma accept_connection_end:
  fixes P :: "'k sock_os"
  assumes s: "0 \<le> s" and sk: "sk = \<lparr>sock = s, close_flag = True\<rparr>"
    and keep: "keeps q (set_nonblocking P sk True)" "keeps q (set_linger_timeout P sk 0)"
    and run: "accept_connection P call s addr (x, w) = Some (res, st)"
  shows "(\<exists>w1. call s addr (x, w1) = Some (Inr (), st) \<and> res = Inr ()) \<or>
    (\<exists>e x1 w1. unwind_op (\<lambda>_. (Inl e, (x1, w1))) (on_snd (system_socket_destruct P sk)) (x, w) = (res, st) \<and>
       (q w1 = q w \<or> (\<exists>w0. q w0 = q w \<and> call s addr (x, w0) = Some (Inl e, (x1, w1)))))"
proof -
  obtain r1 w1 where 1: "set_nonblocking P sk True w = (r1, w1)" by (cases "set_nonblocking P sk True w")
  obtain r2 w2 where 2: "set_linger_timeout P sk 0 w1 = (r2, w2)" by (cases "set_linger_timeout P sk 0 w1")
  have q: "q w1 = q w" "q w2 = q w" using keepsD [OF keep(1) 1] keepsD [OF keep(2) 2] by simp_all
  note run = run [unfolded accept_connection_cases [OF s] sk [symmetric] 1 prod.case]
  show ?thesis
  proof (cases r1)
    case (Inl e)
    with run q show ?thesis by auto
  next
    case (Inr u)
    note run = run [unfolded Inr sum.case 2 prod.case]
    show ?thesis
    proof (cases r2)
      case (Inl e)
      with run q show ?thesis by auto
    next
      case (Inr v)
      with run q(2) show ?thesis by (auto split: option.splits prod.splits sum.splits)
    qed
  qed
qed

section \<open>Properties\<close>

text \<open>
  C16.  A round of the loop leaks no descriptor.  When it ends with an exception, be it that an option
  could not be set or that the handler threw, the accepted descriptor is closed; when it ends
  normally, the handler was called and the state is exactly what the handler left, the descriptor
  being the handler's.
\<close>

theorem accept_connection_no_leak:
  assumes cl: "close_law V P" and opt: "options_law V P" and s: "0 \<le> s" "s \<in> open_fds V (os w)"
    and handler: "\<And>w1 e x' w'. call s addr (x, w1) = Some (Inl e, (x', w')) \<Longrightarrow> is_exception e \<Longrightarrow>
      s \<in> open_fds V (os w1) \<Longrightarrow> s \<in> open_fds V (os w')"
    and run: "accept_connection P call s addr (x, w) = Some (res, (x', w'))"
  shows "case res of
      Inr _ \<Rightarrow> \<exists>w1. call s addr (x, w1) = Some (Inr (), (x', w'))
    | Inl e \<Rightarrow> is_exception e \<longrightarrow> s \<notin> open_fds V (os w')"
proof -
  let ?sk = "\<lparr>sock = s, close_flag = True\<rparr>"
  let ?q = "\<lambda>w. open_fds V (os w)"
  have keep: "keeps ?q (set_nonblocking P ?sk True)" "keeps ?q (set_linger_timeout P ?sk 0)"
    using opt by (auto intro!: keeps_intros simp: options_law_def)
  have closed: "res = Inl e \<and> (is_exception e \<longrightarrow> s \<notin> ?q w')"
    if "unwind_op (\<lambda>_. (Inl e, (x1, w1))) (on_snd (system_socket_destruct P ?sk)) (x, w) = (res, (x', w'))"
      "is_exception e \<Longrightarrow> s \<in> ?q w1" for e x1 w1
    using unwind_closes [OF cl, of e ?sk w1 x1 "(x, w)" res x' w'] that by simp
  from accept_connection_end [OF s(1) refl keep run] s(2) handler closed show ?thesis by fastforce
qed

definition refuse :: "int \<Rightarrow> address \<Rightarrow> (unit \<times> sim world, unit) prog" where
  "refuse s addr st = Some (Inl (Runtime_error ''refused''), st)"

theorem accept_connection_no_leak_witness:
  "\<exists>w'. accept_connection sim_sock refuse 9 address_default ((), sim_world {9})
      = Some (Inl (Runtime_error ''refused''), ((), w')) \<and> 9 \<notin> fst (os w')"
proof -
  let ?w = "\<lparr>errno = 0, os = ({}, \<lambda>_. Map.empty)\<rparr> :: sim world"
  have opt: "options_law sim_view sim_sock"
    by (simp add: options_law_def sim_sock_def quiet_sock_def)
  have set: "set_nonblocking sim_sock sk True (sim_world {9}) = (Inr (), sim_world {9})" for sk
    by (simp add: set_nonblocking_def sim_sock_def quiet_sock_def op_simps O_NONBLOCK_def)
  have linger: "set_linger_timeout sim_sock sk 0 (sim_world {9}) = (Inr (), sim_world {9})" for sk
    by (simp add: set_linger_timeout_def sim_sock_def quiet_sock_def op_simps)
  have close: "system_socket_destruct sim_sock \<lparr>sock = 9, close_flag = True\<rparr> (sim_world {9}) = (Inr (), ?w)"
    by (simp add: system_socket_destruct_def sim_sock_def sim_close_def sim_world_def op_simps)
  have run: "accept_connection sim_sock refuse 9 address_default ((), sim_world {9})
      = Some (Inl (Runtime_error ''refused''), ((), ?w))"
    by (simp add: accept_connection_cases set linger refuse_def unwind_op_def on_snd_def close)
  have "case Inl (Runtime_error ''refused'') :: fault + unit of
      Inr _ \<Rightarrow> \<exists>w1. refuse 9 address_default ((), w1) = Some (Inr (), ((), ?w))
    | Inl e \<Rightarrow> is_exception e \<longrightarrow> 9 \<notin> open_fds sim_view (os ?w)"
    by (rule accept_connection_no_leak [OF sim_laws(2) opt _ _ _ run])
      (simp_all add: sim_view_def sim_world_def refuse_def)
  with run show ?thesis by (simp add: sim_view_def)
qed

section \<open>The loop comes to an end\<close>

text \<open>\<open>B\<close> counts the descriptors that the process can still get: \<open>accept(2)\<close> takes one when it succeeds,
  and fails when there is none left; setting options leaves them alone.\<close>

definition descriptors_law :: "('k \<Rightarrow> nat) \<Rightarrow> 'k sock_os \<Rightarrow> bool" where
  "descriptors_law B P \<longleftrightarrow>
     (\<forall>ls a w rc x w'. sys_accept P ls a w = ((rc, x), w') \<longrightarrow> (if 0 \<le> rc then B (os w') < B (os w) else B (os w') = B (os w))) \<and>
     (\<forall>s c a w. B (os (snd (sys_fcntl P s c a w))) = B (os w)) \<and>
     (\<forall>s l n v w. B (os (snd (sys_setsockopt P s l n v w))) = B (os w))"

lemma socket_accept_takes:
  assumes law: "descriptors_law B P" and run: "socket_accept P ls addr w = (Inr (True, s, peer), w')"
  shows "0 \<le> s \<and> B (os w') < B (os w)"
proof -
  let ?f = "sys_accept P (sock ls) (addr\<lparr>addr_len := SOCKADDR_SIZE\<rparr>)"
  have acc: "?f v = ((rc, x), v') \<Longrightarrow> if 0 \<le> rc then B (os v') < B (os v) else B (os v') = B (os v)" for v rc x v'
    using law unfolding descriptors_law_def by blast
  from run have call: "nonblocking_call ''accept(2)'' ?f w = (Inr (s, peer), w')" and s: "0 \<le> s"
    by (auto simp: socket_accept_def op_defs split: prod.splits sum.splits)
  have quiet: "B (os v') = B (os v)" if "?f v = (y, v')" "not_ewould_block (fst y) (errno v')" for v y v'
    using acc [of v "fst y" "snd y" v'] that by (simp add: not_ewould_block_def)
  have "\<exists>w0. B (os w0) = B (os w) \<and> ?f w0 = ((s, peer), w')"
    using throw_errno_if_last [where q = "\<lambda>w. B (os w)", OF _ call [unfolded nonblocking_call_def]] quiet by auto
  with acc s show ?thesis by fastforce
qed

lemma unwind_destructs:
  "\<exists>e' w'. unwind_op (\<lambda>_. (Inl e, (x, w))) (on_snd (system_socket_destruct P sk)) st = (Inl e', (x, w'))"
  by (auto simp: unwind_op_def on_snd_def split: prod.splits sum.splits)

lemma accept_connection_ends:
  assumes law: "descriptors_law B P" and R: "reflp R" and s: "0 \<le> s"
    and call: "\<And>x w. \<exists>r x' w'. call s addr (x, w) = Some (r, (x', w')) \<and> R x x' \<and> (r = Inr () \<longrightarrow> B (os w') \<le> B (os w))"
  shows "\<exists>r x' w'. accept_connection P call s addr (x, w) = Some (r, (x', w')) \<and> R x x' \<and> (r = Inr () \<longrightarrow> B (os w') \<le> B (os w))"
proof -
  let ?sk = "\<lparr>sock = s, close_flag = True\<rparr>" and ?q = "\<lambda>w. B (os w)"
  have keep: "keeps ?q (set_nonblocking P ?sk True)" "keeps ?q (set_linger_timeout P ?sk 0)"
    using law by (auto intro!: keeps_intros simp: descriptors_law_def)
  obtain r1 w1 where 1: "set_nonblocking P ?sk True w = (r1, w1)" by (cases "set_nonblocking P ?sk True w")
  obtain r2 w2 where 2: "set_linger_timeout P ?sk 0 w1 = (r2, w2)" by (cases "set_linger_timeout P ?sk 0 w1")
  obtain r3 x3 w3 where 3: "call s addr (x, w2) = Some (r3, (x3, w3))" "R x x3" "r3 = Inr () \<longrightarrow> B (os w3) \<le> B (os w2)"
    using call by blast
  have same: "B (os w2) = B (os w)" using keepsD [OF keep(1) 1] keepsD [OF keep(2) 2] by simp
  note cases = accept_connection_cases [OF s, of P call addr x w, unfolded 1 prod.case]
  show ?thesis
  proof (cases r1)
    case (Inl e)
    with unwind_destructs [of e x w1 P ?sk "(x, w)"] reflpD [OF R] show ?thesis by (auto simp: cases)
  next
    case (Inr u)
    note cases = cases [unfolded Inr sum.case 2 prod.case]
    show ?thesis
    proof (cases r2)
      case (Inl e)
      with unwind_destructs [of e x w2 P ?sk "(x, w)"] reflpD [OF R] show ?thesis by (auto simp: cases)
    next
      case (Inr v)
      note cases = cases [unfolded Inr sum.case 3(1) option.case prod.case]
      show ?thesis
      proof (cases r3)
        case (Inl e)
        with unwind_destructs [of e x3 w3 P ?sk "(x, w)"] 3(2) show ?thesis by (auto simp: cases)
      next
        case (Inr z)
        with 3 same show ?thesis by (simp add: cases)
      qed
    qed
  qed
qed

text \<open>\<open>run\<close> returns, however fast connections arrive, because every connection keeps its descriptor
  until the loop is left.\<close>

lemma acceptor_run_ends:
  assumes law: "descriptors_law B P" and R: "reflp R" "transp R"
    and call: "\<And>s a x w. \<exists>r x' w'. call s a (x, w) = Some (r, (x', w')) \<and> R x x' \<and> (r = Inr () \<longrightarrow> B (os w') \<le> B (os w))"
  shows "\<exists>r x' w'. acceptor_run P call ls addr (x, w) = Some (r, (x', w')) \<and> R x x'"
proof (induction "B (os w)" arbitrary: w x addr rule: less_induct)
  case less
  obtain y w1 where acc: "socket_accept P ls addr w = (y, w1)" by (cases "socket_accept P ls addr w")
  show ?case
  proof (cases "\<exists>s a. y = Inr (True, s, a)")
    case False
    then show ?thesis using reflpD [OF R(1)]
      by (subst acceptor_run.simps) (auto simp: on_snd_def acc split: sum.split)
  next
    case True
    then obtain s a where y: "y = Inr (True, s, a)" by blast
    from socket_accept_takes [OF law acc [unfolded y]] have s: "0 \<le> s" and lt: "B (os w1) < B (os w)" by simp_all
    from accept_connection_ends [OF law R(1) s, of call a x w1, OF call] obtain r x2 w2 where
      con: "accept_connection P call s a (x, w1) = Some (r, (x2, w2))" "R x x2" "r = Inr () \<longrightarrow> B (os w2) \<le> B (os w1)" by blast
    show ?thesis
    proof (cases r)
      case (Inl e)
      with con show ?thesis by (subst acceptor_run.simps) (simp add: on_snd_def acc y)
    next
      case (Inr u)
      with con lt have "B (os w2) < B (os w)" by simp
      from less [OF this, of a x2] obtain r' x' w' where "acceptor_run P call ls a (x2, w2) = Some (r', (x', w'))" "R x2 x'" by blast
      with con Inr transpD [OF R(2) con(2)] show ?thesis by (subst acceptor_run.simps) (simp add: on_snd_def acc y)
    qed
  qed
qed

section \<open>The queue of connections\<close>

text \<open>The documented behaviour of \<open>accept(2)\<close> on the nonblocking listening socket \<open>ls\<close>, seen through its
  queue of established connections, at the end of which new ones may arrive at any moment: a call that
  succeeds takes the first; one that answers \<open>EAGAIN\<close> or \<open>EWOULDBLOCK\<close> has found none; an interrupted
  one has taken none.  It may fail for any other reason.  Setting options takes no connection.\<close>

definition accept_law :: "('k \<Rightarrow> (int \<times> address) list) \<Rightarrow> int \<Rightarrow> 'k sock_os \<Rightarrow> bool" where
  "accept_law queue ls P \<longleftrightarrow> (\<forall>a w rc x w'. sys_accept P ls a w = ((rc, x), w') \<longrightarrow>
     (if 0 \<le> rc then \<exists>new. (rc, x) # queue (os w') = queue (os w) @ new
      else (errno w' = EAGAIN \<or> errno w' = EWOULDBLOCK \<longrightarrow> queue (os w) = [] \<and> queue (os w') = []) \<and>
        (errno w' = EINTR \<longrightarrow> prefix (queue (os w)) (queue (os w')))))"

definition queue_law :: "('k \<Rightarrow> (int \<times> address) list) \<Rightarrow> 'k sock_os \<Rightarrow> bool" where
  "queue_law queue P \<longleftrightarrow>
     (\<forall>s c a w. prefix (queue (os w)) (queue (os (snd (sys_fcntl P s c a w))))) \<and>
     (\<forall>s l n v w. prefix (queue (os w)) (queue (os (snd (sys_setsockopt P s l n v w)))))"

lemma socket_accept_outcome:
  assumes law: "accept_law queue (sock ls) P" and run: "socket_accept P ls addr w = (r, w')"
  obtains ec where "r = Inl (System_error ec ''accept(2)'')"
  | s a new where "r = Inr (True, s, a)" "0 \<le> s" "(s, a) # queue (os w') = queue (os w) @ new"
  | s a where "r = Inr (False, s, a)" "queue (os w) = []" "queue (os w') = []"
proof -
  let ?f = "sys_accept P (sock ls) (addr\<lparr>addr_len := SOCKADDR_SIZE\<rparr>)" and ?p = "\<lambda>r e. not_ewould_block (fst r) e"
  from nonblocking_call_attempt [of ?f w "''accept(2)''"] obtain i where
    before: "\<forall>j < i. interrupted ?p j ?f w" and call: "nonblocking_call ''accept(2)'' ?f w = attempt ?p ''accept(2)'' i ?f w" by blast
  have next_world: "world_after (Suc j) ?f w = snd (?f (world_after j ?f w))" for j by (induction j arbitrary: w) simp_all
  have "j \<le> i \<Longrightarrow> prefix (queue (os w)) (queue (os (world_after j ?f w)))" for j
  proof (induction j)
    case (Suc j)
    then have "interrupted ?p j ?f w" using before by simp
    then have "fst (fst (?f (world_after j ?f w))) < 0" "errno (snd (?f (world_after j ?f w))) = EINTR"
      unfolding interrupted_def next_world nth_result_def by (simp_all add: not_ewould_block_def)
    with law have "prefix (queue (os (world_after j ?f w))) (queue (os (snd (?f (world_after j ?f w)))))"
      unfolding accept_law_def by (cases "?f (world_after j ?f w)") fastforce
    with Suc show ?case unfolding next_world by (meson Suc_leD prefix_order.trans)
  qed simp
  then obtain q where q: "queue (os (world_after i ?f w)) = queue (os w) @ q" by (auto simp: prefix_def)
  obtain rc x v where last: "?f (world_after i ?f w) = ((rc, x), v)" by (metis surj_pair)
  note kernel = law [unfolded accept_law_def, rule_format, OF last]
  have res: "(r, w') = (if not_ewould_block rc (errno v) then (Inl (System_error (errno v) ''accept(2)''), v)
      else (Inr (0 \<le> rc, rc, x), v))"
    using run unfolding socket_accept_def
    by (auto simp: call attempt_def next_world nth_result_def last bind_op_def ret_def split: if_splits simp del: world_after.simps)
  show thesis
  proof (cases "not_ewould_block rc (errno v)")
    case True
    with res that(1) show thesis by simp
  next
    case False
    show thesis
    proof (cases "0 \<le> rc")
      case True
      with kernel obtain new where "(rc, x) # queue (os v) = queue (os (world_after i ?f w)) @ new" by auto
      then have "(rc, x) # queue (os w') = queue (os w) @ (q @ new)" using res False q by simp
      with that(2) True False res show thesis by simp
    next
      case neg: False
      with False kernel have "queue (os (world_after i ?f w)) = []" "queue (os v) = []"
        by (auto simp: not_ewould_block_def)
      with that(3) neg False res q show thesis by simp
    qed
  qed
qed

text \<open>What can end the loop with an exception: a call of the operating system, the handler, or the
  destructor of the guard while such an exception is on its way.\<close>

definition acceptor_fault :: "(int \<Rightarrow> address \<Rightarrow> ('x \<times> 'k world, unit) prog) \<Rightarrow> fault \<Rightarrow> bool" where
  "acceptor_fault call e \<longleftrightarrow>
     (\<exists>ec msg. e = System_error ec msg \<and>
        msg \<in> {''accept(2)'', ''cannot obtain socket flags'', ''cannot set socket flags'', ''set socket lingering''}) \<or>
     (\<exists>s peer st st'. call s peer st = Some (Inl e, st')) \<or> e = Terminated"

lemma throw_errno_if_message:
  "throw_errno_if p msg f w = (Inl e, w') \<Longrightarrow> \<exists>ec. e = System_error ec msg"
proof -
  assume run: "throw_errno_if p msg f w = (Inl e, w')"
  obtain i where "throw_errno_if p msg f w = attempt p msg i f w"
    using throw_errno_if_attempt [OF last_attempt_props(3,1,2), of p f w msg] by blast
  with run show ?thesis by (auto simp: attempt_def split: if_splits)
qed

lemma set_options_fault:
  "set_nonblocking P sk b w = (Inl e, w') \<Longrightarrow> acceptor_fault call e"
  "set_linger_timeout P sk n w = (Inl e, w') \<Longrightarrow> acceptor_fault call e"
  by (auto simp: set_nonblocking_def set_linger_timeout_def throw_errno_if_minus1_def acceptor_fault_def Let_def bind_op_def ret_def
      dest!: throw_errno_if_message split: prod.splits sum.splits if_splits)

lemma unwind_fault:
  assumes "acceptor_fault call e"
  shows "\<exists>e' w'. unwind_op (\<lambda>_. (Inl e, (x, w))) (on_snd (system_socket_destruct P sk)) st = (Inl e', (x, w')) \<and> acceptor_fault call e'"
proof -
  obtain r w' where d: "system_socket_destruct P sk w = (r, w')" by (cases "system_socket_destruct P sk w")
  have "r = Inr () \<or> (\<exists>d. r = Inl d \<and> is_exception d)"
    using d by (auto simp: system_socket_destruct_def throw_errno_if_minus1_def bind_op_def ret_def
        dest!: throw_errno_if_message split: prod.splits sum.splits if_splits)
  moreover have "acceptor_fault call Terminated" by (simp add: acceptor_fault_def)
  ultimately show ?thesis using assms d by (auto simp: unwind_op_def on_snd_def)
qed

text \<open>A handler takes note of each connection, takes none from the queue and gives no descriptor back.\<close>

definition handles_connections ::
  "('k \<Rightarrow> (int \<times> address) list) \<Rightarrow> ('k \<Rightarrow> nat) \<Rightarrow> ('x \<Rightarrow> (int \<times> address) list) \<Rightarrow>
   (int \<Rightarrow> address \<Rightarrow> ('x \<times> 'k world, unit) prog) \<Rightarrow> bool" where
  "handles_connections queue B log call \<longleftrightarrow> (\<forall>s peer x w. \<exists>r x' w'. call s peer (x, w) = Some (r, (x', w')) \<and>
     log x' = log x @ [(s, peer)] \<and> (r = Inr () \<longrightarrow> prefix (queue (os w)) (queue (os w')) \<and> B (os w') \<le> B (os w)))"

lemma set_options_queue:
  assumes "queue_law queue P"
  shows "set_nonblocking P sk b w = (r, w') \<Longrightarrow> prefix (queue (os w)) (queue (os w'))"
    and "set_linger_timeout P sk n w = (r, w') \<Longrightarrow> prefix (queue (os w)) (queue (os w'))"
proof -
  let ?R = "\<lambda>w w'. prefix (queue (os w)) (queue (os w'))"
  have R: "?R u u" "?R u v \<Longrightarrow> ?R v x \<Longrightarrow> ?R u x" for u v x using prefix_order.trans by auto
  have f: "?R u (snd (sys_fcntl P s c a u))" and o: "?R u (snd (sys_setsockopt P s l m v u))" for u s c a l m v
    using assms by (simp_all add: queue_law_def)
  have fc: "throw_errno_if p msg (sys_fcntl P s c a) u = (y, v) \<Longrightarrow> ?R u v" for p msg s c a u y v
    by (erule throw_errno_if_relates [where R = ?R, rotated 2]) (use f R in auto)
  have so: "throw_errno_if p msg (sys_setsockopt P s l m v) u = (y, z) \<Longrightarrow> ?R u z" for p msg s l m v u y z
    by (erule throw_errno_if_relates [where R = ?R, rotated 2]) (use o R in auto)
  show "prefix (queue (os w)) (queue (os w'))" if "set_nonblocking P sk b w = (r, w')"
    using that unfolding set_nonblocking_def throw_errno_if_minus1_def Let_def bind_op_def ret_def
    by (auto split: prod.splits sum.splits if_splits dest!: fc intro: prefix_order.trans)
  show "prefix (queue (os w)) (queue (os w'))" if "set_linger_timeout P sk n w = (r, w')"
    using that unfolding set_linger_timeout_def throw_errno_if_minus1_def bind_op_def ret_def
    by (auto split: prod.splits sum.splits dest!: so)
qed

lemma accept_connection_serves:
  assumes que: "queue_law queue P" and fin: "descriptors_law B P" and call: "handles_connections queue B log call" and s: "0 \<le> s"
  shows "\<exists>r x' w'. accept_connection P call s addr (x, w) = Some (r, (x', w')) \<and>
    (case r of
       Inr _ \<Rightarrow> log x' = log x @ [(s, addr)] \<and> prefix (queue (os w)) (queue (os w')) \<and> B (os w') \<le> B (os w)
     | Inl e \<Rightarrow> acceptor_fault call e \<and> (log x' = log x \<or> log x' = log x @ [(s, addr)]))"
proof -
  let ?sk = "\<lparr>sock = s, close_flag = True\<rparr>"
  have keep: "keeps (\<lambda>w. B (os w)) (set_nonblocking P ?sk True)" "keeps (\<lambda>w. B (os w)) (set_linger_timeout P ?sk 0)"
    using fin by (auto intro!: keeps_intros simp: descriptors_law_def)
  obtain r1 w1 where 1: "set_nonblocking P ?sk True w = (r1, w1)" by (cases "set_nonblocking P ?sk True w")
  obtain r2 w2 where 2: "set_linger_timeout P ?sk 0 w1 = (r2, w2)" by (cases "set_linger_timeout P ?sk 0 w1")
  obtain r3 x3 w3 where 3: "call s addr (x, w2) = Some (r3, (x3, w3))" "log x3 = log x @ [(s, addr)]"
    "r3 = Inr () \<longrightarrow> prefix (queue (os w2)) (queue (os w3)) \<and> B (os w3) \<le> B (os w2)"
    using call unfolding handles_connections_def by blast
  have q: "prefix (queue (os w)) (queue (os w2))" "B (os w2) = B (os w)"
    using set_options_queue(1) [OF que 1] set_options_queue(2) [OF que 2] keepsD [OF keep(1) 1] keepsD [OF keep(2) 2]
      prefix_order.trans by (blast, simp)
  note cases = accept_connection_cases [OF s, of P call addr x w, unfolded 1 prod.case]
  show ?thesis
  proof (cases r1)
    case (Inl e)
    from unwind_fault [OF set_options_fault(1) [OF 1 [unfolded Inl], of call], of x w1 P ?sk "(x, w)"] obtain e' w' where
      "unwind_op (\<lambda>_. (Inl e :: fault + unit, (x, w1))) (on_snd (system_socket_destruct P ?sk)) (x, w) = (Inl e', (x, w'))" "acceptor_fault call e'" by blast
    with Inl show ?thesis by (intro exI [of _ "Inl e'"] exI [of _ x] exI [of _ w']) (simp add: cases)
  next
    case (Inr u)
    note cases = cases [unfolded Inr sum.case 2 prod.case]
    show ?thesis
    proof (cases r2)
      case (Inl e)
      from unwind_fault [OF set_options_fault(2) [OF 2 [unfolded Inl], of call], of x w2 P ?sk "(x, w)"] obtain e' w' where
        "unwind_op (\<lambda>_. (Inl e :: fault + unit, (x, w2))) (on_snd (system_socket_destruct P ?sk)) (x, w) = (Inl e', (x, w'))" "acceptor_fault call e'" by blast
      with Inl show ?thesis by (intro exI [of _ "Inl e'"] exI [of _ x] exI [of _ w']) (simp add: cases)
    next
      case (Inr v)
      note cases = cases [unfolded Inr sum.case 3(1) option.case prod.case]
      show ?thesis
      proof (cases r3)
        case (Inl e)
        have "acceptor_fault call e" using 3(1) Inl unfolding acceptor_fault_def by blast
        from unwind_fault [OF this, of x3 w3 P ?sk "(x, w)"] obtain e' w' where
          "unwind_op (\<lambda>_. (Inl e :: fault + unit, (x3, w3))) (on_snd (system_socket_destruct P ?sk)) (x, w) = (Inl e', (x3, w'))" "acceptor_fault call e'" by blast
        with Inl 3(2) show ?thesis by (intro exI [of _ "Inl e'"] exI [of _ x3] exI [of _ w']) (simp add: cases)
      next
        case (Inr z)
        with 3 q prefix_order.trans show ?thesis by (fastforce simp: cases)
      qed
    qed
  qed
qed

text \<open>
  C30.  When the listening socket becomes readable, \<open>run\<close> serves the queue of connections.  It hands
  connections to the handler in the order in which they were established, each once and none left out
  in between.  When it returns normally, it has handed over all that were queued when it was called
  and all that arrived meanwhile, and the queue is empty.  It ends with an exception only when
  \<open>accept(2)\<close> fails for another reason than an empty queue, when an option of a new socket cannot be
  set, when the handler throws, or when closing the connection fails then.  It does return, because
  every connection takes one of the finitely many descriptors of the process, for a handler that
  returns and gives none back.
\<close>

theorem acceptor_run_serves:
  fixes x :: 'x and w :: "'k world"
  assumes acc: "accept_law queue (sock ls) P" and que: "queue_law queue P" and fin: "descriptors_law B P"
    and call: "handles_connections queue B log call"
  shows "\<exists>r x' w' served arrived. acceptor_run P call ls addr (x, w) = Some (r, (x', w')) \<and> log x' = log x @ served \<and>
    (case r of
       Inr _ \<Rightarrow> served = queue (os w) @ arrived \<and> queue (os w') = []
     | Inl e \<Rightarrow> prefix served (queue (os w) @ arrived) \<and> acceptor_fault call e)"
proof (induction "B (os w)" arbitrary: w x addr rule: less_induct)
  case less
  obtain y w1 where accept: "socket_accept P ls addr w = (y, w1)" by (cases "socket_accept P ls addr w")
  have "on_snd (socket_accept P ls addr) (x, w) = (y, (x, w1))" by (simp add: on_snd_def accept)
  note step = acceptor_run.simps [of P call ls addr "(x, w)", unfolded this prod.case]
  show ?case
  proof (cases rule: socket_accept_outcome [OF acc accept])
    case (1 ec)
    have "acceptor_fault call (System_error ec ''accept(2)'')" by (simp add: acceptor_fault_def)
    with 1 show ?thesis
      by (intro exI [of _ "Inl (System_error ec ''accept(2)'')"] exI [of _ x] exI [of _ w1] exI [of _ "[]"]) (simp add: step)
  next
    case (3 s a)
    then show ?thesis by (intro exI [of _ "Inr ()"] exI [of _ x] exI [of _ w1] exI [of _ "[]"]) (simp add: step)
  next
    case (2 s a new)
    from socket_accept_takes [OF fin accept [unfolded 2(1)]] have lt: "B (os w1) < B (os w)" by simp
    from accept_connection_serves [OF que fin call 2(2), of a x w1] obtain r x2 w2 where
      con: "accept_connection P call s a (x, w1) = Some (r, (x2, w2))" and
      after: "case r of
         Inr _ \<Rightarrow> log x2 = log x @ [(s, a)] \<and> prefix (queue (os w1)) (queue (os w2)) \<and> B (os w2) \<le> B (os w1)
       | Inl e \<Rightarrow> acceptor_fault call e \<and> (log x2 = log x \<or> log x2 = log x @ [(s, a)])" by blast
    have first: "prefix [] (queue (os w) @ new)" "prefix [(s, a)] (queue (os w) @ new)"
      by (simp_all flip: 2(3))
    show ?thesis
    proof (cases r)
      case (Inl e)
      then have run: "acceptor_run P call ls addr (x, w) = Some (Inl e, (x2, w2))" by (simp add: step 2(1) con)
      from after Inl obtain served where "log x2 = log x @ served" "served = [] \<or> served = [(s, a)]" "acceptor_fault call e" by auto
      with run first show ?thesis
        by (intro exI [of _ "Inl e"] exI [of _ x2] exI [of _ w2] exI [of _ served] exI [of _ new]) auto
    next
      case (Inr u)
      with after obtain q where more: "log x2 = log x @ [(s, a)]" "queue (os w2) = queue (os w1) @ q" "B (os w2) < B (os w)"
        using lt by (auto simp: prefix_def)
      from less [OF more(3), of a x2] obtain r' x' w' served arrived where
        rest: "acceptor_run P call ls a (x2, w2) = Some (r', (x', w'))" "log x' = log x2 @ served"
        "case r' of Inr _ \<Rightarrow> served = queue (os w2) @ arrived \<and> queue (os w') = []
         | Inl e \<Rightarrow> prefix served (queue (os w2) @ arrived) \<and> acceptor_fault call e" by blast
      have run: "acceptor_run P call ls addr (x, w) = Some (r', (x', w'))" by (simp add: step 2(1) con Inr rest(1))
      have eq: "(s, a) # queue (os w2) @ arrived = queue (os w) @ (new @ q @ arrived)"
        using 2(3) more(2) by (metis append.assoc append_Cons)
      show ?thesis
        by (intro exI [of _ r'] exI [of _ x'] exI [of _ w'] exI [of _ "(s, a) # served"] exI [of _ "new @ q @ arrived"])
          (use run rest(2,3) more(1) in \<open>auto split: sum.splits simp flip: eq\<close>)
    qed
  qed
qed

text \<open>A kernel whose state is the queue, and the number of descriptors left.\<close>

definition queue_accept :: "int \<Rightarrow> address \<Rightarrow> ((int \<times> address) list \<times> nat, int \<times> address) syscall" where
  "queue_accept ls a w = (case os w of
     ([], n) \<Rightarrow> ((-1, a), w\<lparr>errno := EAGAIN\<rparr>)
   | (c # cs, 0) \<Rightarrow> ((-1, a), w\<lparr>errno := 24\<rparr>)
   | (c # cs, Suc n) \<Rightarrow> if 0 \<le> fst c then (c, w\<lparr>os := (cs, n)\<rparr>) else ((-1, a), w\<lparr>errno := 103\<rparr>))"

definition note_connection :: "int \<Rightarrow> address \<Rightarrow> ((int \<times> address) list \<times> ((int \<times> address) list \<times> nat) world, unit) prog" where
  "note_connection s peer = (\<lambda>(log, w). Some (Inr (), (log @ [(s, peer)], w)))"

lemma queue_laws:
  defines "P \<equiv> quiet_sock\<lparr>sys_accept := queue_accept\<rparr>"
  shows "accept_law fst ls P" "queue_law fst P" "descriptors_law snd P" "handles_connections fst snd (\<lambda>log. log) note_connection"
proof -
  show "accept_law fst ls P" "descriptors_law snd P"
    by (auto simp: accept_law_def descriptors_law_def P_def quiet_sock_def queue_accept_def errno_codes
        split: prod.splits list.splits nat.splits if_splits)
  show "queue_law fst P" by (simp add: queue_law_def P_def quiet_sock_def)
  show "handles_connections fst snd (\<lambda>log. log) note_connection"
    by (simp add: handles_connections_def note_connection_def)
qed

theorem acceptor_run_serves_witness:
  "\<exists>r w' served arrived. acceptor_run (quiet_sock\<lparr>sys_accept := queue_accept\<rparr>) note_connection \<lparr>sock = 3, close_flag = True\<rparr> address_default
      ([], \<lparr>errno = 0, os = ([(7, address_default), (8, address_default)], 20)\<rparr>) = Some (r, (served, w')) \<and>
    (case r of
       Inr _ \<Rightarrow> served = [(7, address_default), (8, address_default)] @ arrived \<and> fst (os w') = []
     | Inl e \<Rightarrow> prefix served ([(7, address_default), (8, address_default)] @ arrived) \<and> acceptor_fault note_connection e)"
proof -
  let ?w = "\<lparr>errno = 0, os = ([(7, address_default), (8, address_default)], 20 :: nat)\<rparr>"
  from acceptor_run_serves [OF queue_laws, of "\<lparr>sock = 3, close_flag = True\<rparr>" address_default "[]" ?w]
  obtain r log w' served arrived where
    "acceptor_run (quiet_sock\<lparr>sys_accept := queue_accept\<rparr>) note_connection \<lparr>sock = 3, close_flag = True\<rparr> address_default
      ([], ?w) = Some (r, (log, w')) \<and> log = [] @ served \<and>
      (case r of
         Inr _ \<Rightarrow> served = fst (os ?w) @ arrived \<and> fst (os w') = []
       | Inl e \<Rightarrow> prefix served (fst (os ?w) @ arrived) \<and> acceptor_fault note_connection e)" by (elim exE)
  then show ?thesis
    by - (rule exI [of _ r], rule exI [of _ w'], rule exI [of _ served], rule exI [of _ arrived], simp split: sum.splits)
qed

end
