(* ===== verification/Ioxx_Iovec.thy ===== *)
theory Ioxx_Iovec
  imports Ioxx_Prelude
begin

text \<open>
  \<open>include/ioxx/iovec.hpp\<close>: the scatter/gather vector as a range of bytes.  A \<open>char *\<close> is its address,
  an integer from 0 to \<open>2 ^ 64 - 1\<close>; the length is a 64-bit \<open>size_t\<close>.
\<close>

record iovec =
  iov_base :: int
  iov_len :: u64

definition PTRDIFF_MAX :: int where
  "PTRDIFF_MAX = 9223372036854775807"

text \<open>\<open>reset\<close> on the object itself, which is returned.\<close>

definition iovec_reset :: "int \<Rightarrow> int \<Rightarrow> (iovec, unit) op" where
  "iovec_reset b e =
     then_op (assert_op (b \<le> e)) (modify_op (\<lambda>v. v\<lparr>iov_base := b, iov_len := word_of_int (e - b)\<rparr>))"

definition make_iovec :: "int \<Rightarrow> int \<Rightarrow> fault + iovec" where
  "make_iovec b e = (case iovec_reset b e \<lparr>iov_base = 0, iov_len = 0\<rparr> of (Inl f, _) \<Rightarrow> Inl f | (Inr _, v) \<Rightarrow> Inr v)"

text \<open>\<open>size\<close> answers a \<open>ptrdiff_t\<close>.\<close>

definition iovec_size :: "iovec \<Rightarrow> fault + int" where
  "iovec_size v = (if iov_len v \<le> word_of_int PTRDIFF_MAX then Inr (sint (iov_len v)) else Inl Assertion_failed)"

definition iovec_empty :: "iovec \<Rightarrow> bool" where
  "iovec_empty v \<longleftrightarrow> iov_len v = 0"

definition iovec_begin :: "iovec \<Rightarrow> int" where
  "iovec_begin v = iov_base v"

definition iovec_end :: "iovec \<Rightarrow> fault + int" where
  "iovec_end v = (case iovec_size v of Inl f \<Rightarrow> Inl f | Inr n \<Rightarrow> Inr (iovec_begin v + n))"

lemma small_ptrdiff:
  assumes "0 \<le> n" "n \<le> PTRDIFF_MAX"
  shows "sint (word_of_int n :: u64) = n" and "uint (word_of_int n :: u64) = n"
  using assms
  by (simp_all add: PTRDIFF_MAX_def sint_sbintrunc' signed_take_bit_int_eq_self uint_word_of_int_eq take_bit_int_eq_self)

text \<open>
  A vector made from a range of bytes is that range: it begins and ends where the range does, its
  size is the number of bytes, and it is empty exactly when the range is.  The assertions hold for
  every range whose length fits a \<open>ptrdiff_t\<close>.
\<close>

theorem make_iovec_range:
  assumes "b \<le> e" and "e - b \<le> PTRDIFF_MAX"
  shows "\<exists>v. make_iovec b e = Inr v \<and> iovec_begin v = b \<and> iovec_end v = Inr e \<and>
    iovec_size v = Inr (e - b) \<and> (iovec_empty v \<longleftrightarrow> b = e)"
proof -
  let ?n = "word_of_int (e - b) :: u64"
  note n = small_ptrdiff [of "e - b"]
  have "?n \<le> word_of_int PTRDIFF_MAX"
    unfolding word_le_def using n assms small_ptrdiff(2) [of PTRDIFF_MAX] by (simp add: PTRDIFF_MAX_def)
  moreover have "?n = 0 \<longleftrightarrow> b = e" using n(2) assms by (auto simp: word_uint_eq_iff simp del: of_int_diff)
  ultimately show ?thesis
    using assms n
    by (simp add: make_iovec_def iovec_reset_def op_simps iovec_begin_def iovec_end_def iovec_size_def iovec_empty_def
        del: of_int_diff)
qed

theorem make_iovec_range_witness:
  "\<exists>v. make_iovec 4096 4103 = Inr v \<and> iovec_end v = Inr 4103 \<and> iovec_size v = Inr 7"
  using make_iovec_range [of 4096 4103] by (auto simp: PTRDIFF_MAX_def)

end
