(* ===== verification/Ioxx_Core_Invariant.thy ===== *)
theory Ioxx_Core_Invariant
  imports Ioxx_Core
begin

text \<open>
  The state that the components of \<open>core\<close> share stays consistent, whatever the application does
  through the library: the queue of tasks is sorted, the dispatcher's table is sound, every socket the
  resolver has registered has a handler, and the resolver has exactly one callback for each query of
  the adns library.

  What the resolver and the main loop need of a dispatcher is the contract \<open>demux_contract\<close>.
\<close>

definition core_ok ::
  "('h handler_map \<times> 'd \<times> 'k world \<Rightarrow> bool) \<Rightarrow> ('k \<Rightarrow> int \<rightharpoonup> rrtype) \<Rightarrow> ('f, 'h, 'd, 'u, 'k, 'm) core_state_scheme \<Rightarrow> bool" where
  "core_ok dok Q st \<longleftrightarrow> schedule_wf (core_schedule st) \<and> dok (core_dispatch st) \<and>
     distinct (registered_sockets (core_dns st)) \<and>
     (\<forall>s \<in> set (registered_sockets (core_dns st)). map_of (fst (core_dispatch st)) s \<noteq> None) \<and>
     dns_ok Q st"

text \<open>How the operations of the dispatcher end when the program goes on.  \<open>Q\<close> is the part of the
  kernel's state that belongs to the resolver and that a dispatcher does not touch; \<open>same\<close> relates
  states of the kernel that agree on what belongs to the dispatcher.\<close>

definition settled :: "fault + 'a \<Rightarrow> bool" where
  "settled r \<longleftrightarrow> (case r of Inl e \<Rightarrow> is_exception e | Inr _ \<Rightarrow> True)"

locale demux_contract =
  fixes M :: "('d \<times> 'k world) demux_ops"
    and dok :: "'h handler_map \<times> 'd \<times> 'k world \<Rightarrow> bool"
    and same :: "'k \<Rightarrow> 'k \<Rightarrow> bool"
    and Q :: "'k \<Rightarrow> int \<rightharpoonup> rrtype"
  assumes pop_law: "dok (hs, d, w) \<Longrightarrow> dm_pop_event M (d, w) = (r1, (d', w')) \<Longrightarrow> settled r1 \<Longrightarrow>
      dok (hs, d', w') \<and> Q (os w') = Q (os w)"
    and construct_law: "dok (hs, d, w) \<Longrightarrow> dispatch_socket_construct M s f ev (hs, d, w) = (r2, (hs', d', w')) \<Longrightarrow> settled r2 \<Longrightarrow>
      dok (hs', d', w') \<and> Q (os w') = Q (os w) \<and>
      map_of hs' = (case r2 of Inr _ \<Rightarrow> (map_of hs)(s \<mapsto> f) | Inl _ \<Rightarrow> map_of hs)"
    and destruct_law: "dok (hs, d, w) \<Longrightarrow>
      dispatch_socket_destruct M \<lparr>sock = s, close_flag = False\<rparr> (hs, d, w) = (r3, (hs', d', w')) \<Longrightarrow> settled r3 \<Longrightarrow>
      dok (hs', d', w') \<and> Q (os w') = Q (os w) \<and> map_of hs' = (map_of hs)(s := None)"
    and request_law: "dok (hs, d, w) \<Longrightarrow> dm_request M s ev (d, w) = (r4, (d', w')) \<Longrightarrow> settled r4 \<Longrightarrow>
      dok (hs, d', w') \<and> Q (os w') = Q (os w)"
    and other_law: "dok (hs, d, w) \<Longrightarrow> same (os w) (os w') \<Longrightarrow> dok (hs, d, w')"

text \<open>What the library leaves alone.  Only \<open>adns_submit\<close> and \<open>adns_check\<close> change the set of outstanding
  queries.\<close>

definition adns_quiet_law :: "('k \<Rightarrow> 'k \<Rightarrow> bool) \<Rightarrow> ('k \<Rightarrow> 'q) \<Rightarrow> 'k adns_lib \<Rightarrow> bool" where
  "adns_quiet_law same Q L \<longleftrightarrow>
     (\<forall>flags w r w'. adns_init L flags w = (r, w') \<longrightarrow> same (os w) (os w')) \<and>
     (\<forall>w r w'. adns_check L w = (r, w') \<longrightarrow> same (os w) (os w')) \<and>
     (\<forall>owner rrt flags w r w'. adns_submit L owner rrt flags w = (r, w') \<longrightarrow> same (os w) (os w')) \<and>
     (\<forall>addr rrt flags w r w'. adns_submit_reverse L addr rrt flags w = (r, w') \<longrightarrow> same (os w) (os w')) \<and>
     (\<forall>ps n to now w r w'. adns_beforepoll L ps n to now w = (r, w') \<longrightarrow> same (os w) (os w') \<and> Q (os w') = Q (os w)) \<and>
     (\<forall>fd now w r w'. adns_processreadable L fd now w = (r, w') \<longrightarrow> same (os w) (os w') \<and> Q (os w') = Q (os w)) \<and>
     (\<forall>fd now w r w'. adns_processwriteable L fd now w = (r, w') \<longrightarrow> same (os w) (os w') \<and> Q (os w') = Q (os w)) \<and>
     (\<forall>fd now w r w'. adns_processexceptional L fd now w = (r, w') \<longrightarrow> same (os w) (os w') \<and> Q (os w') = Q (os w)) \<and>
     (\<forall>now w r w'. adns_processtimeouts L now w = (r, w') \<longrightarrow> same (os w) (os w') \<and> Q (os w') = Q (os w))"

section \<open>Parts of the core\<close>

lemma core_ok_schedule: "core_ok dok Q st \<Longrightarrow> schedule_wf s \<Longrightarrow> core_ok dok Q (st\<lparr>core_schedule := s\<rparr>)"
  by (simp add: core_ok_def dns_ok_def)

lemma core_ok_dns:
  "core_ok dok Q st \<Longrightarrow> queries a = queries (core_dns st) \<Longrightarrow> set (registered_sockets a) \<subseteq> set (registered_sockets (core_dns st)) \<Longrightarrow>
   distinct (registered_sockets a) \<Longrightarrow> core_ok dok Q (st\<lparr>core_dns := a\<rparr>)"
  by (auto simp: core_ok_def dns_ok_def)

lemma on_schedule_ensures:
  assumes "\<And>s. schedule_wf s \<Longrightarrow> schedule_wf (snd (m s))"
  shows "ensures (core_ok dok Q) (or_aborts (core_ok dok Q)) (on_schedule m)"
  by (rule ensures_or_aborts)
    (auto simp: on_schedule_def split: prod.splits intro!: core_ok_schedule, metis assms core_ok_def snd_conv)

lemma timer_ensures:
  "ensures (core_ok dok Q) (or_aborts (core_ok dok Q)) (on_dns (modify_op (\<lambda>a. a\<lparr>adns_timeout := tid\<rparr>)))"
  by (rule ensures_or_aborts) (auto simp: on_dns_def modify_op_def core_ok_def dns_ok_def)

lemma disarm_ensures: "ensures (core_ok dok Q) (or_aborts (core_ok dok Q)) disarm_timeout"
  unfolding disarm_timeout_def
  by (rule ensures_state, rule ensures_bind, rule on_schedule_ensures)
    (auto simp: timeout_cancel_def schedule_cancel_wf timer_ensures split: prod.split)

lemma timeout_in_wf: "schedule_wf s \<Longrightarrow> schedule_wf (snd (timeout_in now to task tid s))"
  by (simp add: timeout_in_def op_defs timeout_at_wf)

lemma arm_ensures: "ensures (core_ok dok Q) (or_aborts (core_ok dok Q)) (arm_timeout task to)"
  unfolding arm_timeout_def
  by (rule ensures_state, rule ensures_bind, rule on_schedule_ensures)
    (auto simp: timeout_in_wf timer_ensures split: prod.split)

section \<open>The operations of the resolver\<close>

lemma adns_merge_ensures:
  assumes "\<And>p. ensures J E (register_fd M fdh p)" and "\<And>s ev. ensures J E (on_dispatch (on_snd (dm_request M s ev)))"
    and "\<And>ss. ensures J E (destroy_sockets M ss)"
  shows "ensures J E (adns_merge M fdh ps reg)"
  using assms
  by (induction M fdh ps reg rule: adns_merge.induct) (auto intro!: ensures_then simp del: destroy_sockets.simps)

context demux_contract
begin

lemma core_ok_dispatch:
  assumes "core_ok dok Q st" and "dok (hs', d', w')" and "Q (os w') = Q (os (the_world st))"
    and "\<forall>s \<in> set (registered_sockets (core_dns st)). map_of hs' s \<noteq> None"
  shows "core_ok dok Q (st\<lparr>core_dispatch := (hs', d', w')\<rparr>)"
  using assms by (simp add: core_ok_def dns_ok_def)

lemma world_ensures:
  assumes "\<And>w r w'. f w = (r, w') \<Longrightarrow> same (os w) (os w') \<and> Q (os w') = Q (os w)"
  shows "ensures (core_ok dok Q) (or_aborts (core_ok dok Q)) (on_world (lib_call f))"
proof (rule ensures_or_aborts, goal_cases)
  case (1 st r st')
  obtain hs d w where st: "core_dispatch st = (hs, d, w)" by (cases "core_dispatch st")
  obtain x w' where f: "f w = (x, w')" by (cases "f w")
  from 1 st f have "st' = st\<lparr>core_dispatch := (hs, d, w')\<rparr>" by (simp add: on_world_apply lib_call_def)
  moreover have "dok (hs, d, w')" using other_law [of hs d w w'] assms [OF f] 1 st by (simp add: core_ok_def)
  ultimately show ?case using core_ok_dispatch [OF 1(1), of hs d w'] assms [OF f] 1 st by (simp add: core_ok_def)
qed

lemma request_ensures:
  "ensures (core_ok dok Q) (or_aborts (core_ok dok Q)) (on_dispatch (on_snd (dm_request M s ev)))"
proof (rule ensures_or_aborts, goal_cases)
  case (1 st r st')
  obtain hs d w where st: "core_dispatch st = (hs, d, w)" by (cases "core_dispatch st")
  obtain d' w' where q: "dm_request M s ev (d, w) = (r, d', w')" and st': "st' = st\<lparr>core_dispatch := (hs, d', w')\<rparr>"
    using 1(2) st by (auto simp: on_dispatch_def on_snd_def split: prod.splits)
  have "dok (hs, d', w') \<and> Q (os w') = Q (os w)"
    using request_law [of hs d w s ev r d' w'] q 1 st by (simp add: core_ok_def settled_def)
  then show ?case unfolding st' using core_ok_dispatch [OF 1(1), of hs d' w'] 1(1) st by (simp add: core_ok_def)
qed

lemma destroy_one_ensures:
  "ensures (core_ok dok Q) (or_aborts (core_ok dok Q))
    (then_op (on_dns (modify_op (\<lambda>a. a\<lparr>registered_sockets := remove1 s (registered_sockets a)\<rparr>)))
       (on_dispatch (dispatch_socket_destruct M \<lparr>sock = s, close_flag = False\<rparr>)))"
proof (rule ensures_or_aborts, goal_cases)
  case (1 st r st')
  let ?st1 = "st\<lparr>core_dns := (core_dns st)\<lparr>registered_sockets := remove1 s (registered_sockets (core_dns st))\<rparr>\<rparr>"
  obtain hs d w where st: "core_dispatch st = (hs, d, w)" by (cases "core_dispatch st")
  obtain hs' d' w' where q: "dispatch_socket_destruct M \<lparr>sock = s, close_flag = False\<rparr> (hs, d, w) = (r, hs', d', w')"
    and st': "st' = ?st1\<lparr>core_dispatch := (hs', d', w')\<rparr>"
    using 1(2) st by (auto simp: then_op_def bind_op_def on_dns_def modify_op_def on_dispatch_def split: prod.splits)
  have h: "dok (hs', d', w') \<and> Q (os w') = Q (os w) \<and> map_of hs' = (map_of hs)(s := None)"
    using destruct_law [OF _ q] 1 st by (simp add: core_ok_def settled_def)
  have dist: "distinct (registered_sockets (core_dns st))" using 1(1) by (simp add: core_ok_def)
  have "core_ok dok Q ?st1"
    using core_ok_dns [OF 1(1), of "(core_dns st)\<lparr>registered_sockets := remove1 s (registered_sockets (core_dns st))\<rparr>"] dist
    by (auto dest: set_remove1_subset [THEN subsetD])
  then show ?case
    unfolding st' using core_ok_dispatch [of ?st1 hs' d' w'] h dist st 1(1) by (auto simp: core_ok_def)
qed

lemma destroy_ensures: "ensures (core_ok dok Q) (or_aborts (core_ok dok Q)) (destroy_sockets M ss)"
proof (induction ss)
  case (Cons s ss)
  then show ?case
    using ensures_then [OF destroy_one_ensures [of s]] by (simp add: then_op_assoc)
qed (simp add: ensures_ret)

lemma clear_ensures: "ensures (core_ok dok Q) (or_aborts (core_ok dok Q)) (clear_sockets M)"
  unfolding clear_sockets_def by (rule ensures_state) (rule destroy_ensures)

lemma register_fd_ensures: "ensures (core_ok dok Q) (or_aborts (core_ok dok Q)) (register_fd M fdh p)"
proof (rule ensures_or_aborts, goal_cases)
  case (1 st r st')
  obtain hs d w where st: "core_dispatch st = (hs, d, w)" by (cases "core_dispatch st")
  obtain x hs' d' w' where
    q: "dispatch_socket_construct M (pfd_fd p) (fdh (pfd_fd p)) (pfd_request (dm_codes M) p) (hs, d, w) = (x, hs', d', w')"
    by (metis surj_pair)
  let ?st1 = "st\<lparr>core_dispatch := (hs', d', w')\<rparr>"
  show ?case
  proof (cases "settled x")
    case False
    with 1 st q show ?thesis
      by (auto simp: register_fd_def op_defs on_dispatch_def settled_def split: if_splits sum.splits)
  next
    case True
    then have h: "dok (hs', d', w')" "Q (os w') = Q (os w)"
        "map_of hs' = (case x of Inr _ \<Rightarrow> (map_of hs)(pfd_fd p \<mapsto> fdh (pfd_fd p)) | Inl _ \<Rightarrow> map_of hs)"
      using construct_law [OF _ q] 1(1) st by (simp_all add: core_ok_def)
    then have ok1: "core_ok dok Q ?st1"
      using core_ok_dispatch [OF 1(1), of hs' d' w'] 1(1) st by (auto simp: core_ok_def split: sum.splits)
    then show ?thesis
      using 1 st q h
      by (auto simp: register_fd_def op_defs on_dispatch_def on_dns_def core_ok_def dns_ok_def set_insort_key distinct_insort
          split: if_splits sum.splits)
  qed
qed

lemma merge_ensures: "ensures (core_ok dok Q) (or_aborts (core_ok dok Q)) (adns_merge M fdh ps reg)"
  by (rule adns_merge_ensures) (rule register_fd_ensures request_ensures destroy_ensures)+

lemma pfds_ensures:
  "ensures (core_ok dok Q) (or_aborts (core_ok dok Q)) (on_dns (modify_op (\<lambda>a. a\<lparr>pfds := g a\<rparr>)))"
  by (rule ensures_or_aborts) (auto simp: on_dns_def modify_op_def core_ok_def dns_ok_def)

lemma reregister_ensures: "ensures (core_ok dok Q) (or_aborts (core_ok dok Q)) (adns_reregister M fdh nfds)"
proof -
  have "ensures (core_ok dok Q) (or_aborts (core_ok dok Q))
      (\<lambda>st. adns_merge M fdh (take (nat nfds) (pfds (core_dns st))) (registered_sockets (core_dns st)) st)"
    by (rule ensures_state) (rule merge_ensures)
  then have "ensures (core_ok dok Q) (or_aborts (core_ok dok Q))
      (then_op (assert_op (0 \<le> nfds))
        (then_op (guard_op b)
          (then_op (on_dns (modify_op (\<lambda>a. a\<lparr>pfds := sort_key pfd_fd (take (nat nfds) (pfds a)) @ drop (nat nfds) (pfds a)\<rparr>)))
            (\<lambda>st. adns_merge M fdh (take (nat nfds) (pfds (core_dns st))) (registered_sockets (core_dns st)) st))))" for b
    by (intro ensures_then ensures_fault pfds_ensures or_abortsI)
  then show ?thesis unfolding ensures_def adns_reregister_def by blast
qed

lemma deliver_ensures:
  assumes law: "adns_check_law Q L" "adns_quiet_law same Q L"
    and call: "\<And>u x. p_ensures (core_ok dok Q) (or_aborts (core_ok dok Q)) (call u x)"
  shows "p_ensures (core_ok dok Q) (or_aborts (core_ok dok Q)) (deliver_responses M L call)"
proof -
  let ?I = "\<lambda>st. schedule_wf (core_schedule st) \<and> dok (core_dispatch st) \<and> distinct (registered_sockets (core_dns st)) \<and>
     (\<forall>s \<in> set (registered_sockets (core_dns st)). map_of (fst (core_dispatch st)) s \<noteq> None)"
  have J: "core_ok dok Q = (\<lambda>st. ?I st \<and> dns_ok Q st)" by (simp add: core_ok_def fun_eq_iff)
  show ?thesis
    unfolding J
  proof (rule deliver_responses_ensures [OF law(1)], fold J)
    fix st :: "('f, 'h, 'd, 'u, 'k, 'm) core_state_scheme" and rc qid a w'
    assume I: "?I st" and "adns_check L (the_world st) = ((rc, qid, a), w')"
    with law(2) have "same (os (the_world st)) (os w')" by (auto simp: adns_quiet_law_def)
    with I show "?I (st\<lparr>core_dispatch := (fst (core_dispatch st), fst (snd (core_dispatch st)), w')\<rparr>)"
      using other_law [of "fst (core_dispatch st)" "fst (snd (core_dispatch st))" "the_world st" w'] by simp
  qed (simp_all add: clear_ensures call, simp add: or_aborts_def core_ok_def)
qed

lemma throw_rc_ensures: "ensures (core_ok dok Q) (or_aborts (core_ok dok Q)) (throw_rc_if_not_zero rc ctx)"
  unfolding throw_rc_if_not_zero_def by (intro ensures_if ensures_ret ensures_fault or_abortsI)

lemma process_step_ensures:
  fixes J :: "('f, 'h, 'd, 'u, 'k, 'm) core_state_scheme \<Rightarrow> bool"
  defines "J \<equiv> core_ok dok Q"
  assumes "\<And>now w r w'. f fd now w = (r, w') \<Longrightarrow> same (os w) (os w') \<and> Q (os w') = Q (os w)"
  shows "ensures J (or_aborts J)
    (if b then (\<lambda>st. bind_op (on_world (lib_call (f fd (core_now st)))) (\<lambda>rc. throw_rc_if_not_zero rc ctx) st) else ret ())"
proof -
  have "ensures J (or_aborts J)
      (bind_op (on_world (lib_call (f fd now))) (\<lambda>rc. throw_rc_if_not_zero rc ctx))" for now
    unfolding J_def using assms(2) by (intro ensures_bind world_ensures throw_rc_ensures) blast
  then show ?thesis by (intro ensures_if ensures_ret) (simp add: ensures_def)
qed

lemma process_fd_ensures:
  assumes law: "adns_check_law Q L" "adns_quiet_law same Q L"
    and call: "\<And>u x. p_ensures (core_ok dok Q) (or_aborts (core_ok dok Q)) (call u x)"
  shows "p_ensures (core_ok dok Q) (or_aborts (core_ok dok Q)) (process_fd M L call fd ev)"
  unfolding process_fd_def Let_def
  by (intro p_ensures_then p_ensures_lift process_step_ensures deliver_ensures [OF law call])
    (use law(2) in \<open>simp_all add: adns_quiet_law_def\<close>)

lemma process_timeout_ensures:
  fixes J :: "('f, 'h, 'd, 'u, 'k, 'm) core_state_scheme \<Rightarrow> bool"
  defines "J \<equiv> core_ok dok Q"
  assumes law: "adns_check_law Q L" "adns_quiet_law same Q L"
    and call: "\<And>u x. p_ensures J (or_aborts J) (call u x)"
  shows "p_ensures J (or_aborts J) (process_timeout M L call)"
proof -
  have "ensures J (or_aborts J) (on_world (lib_call (adns_processtimeouts L now)))" for now
    unfolding J_def using law(2) by (intro world_ensures) (auto simp: adns_quiet_law_def)
  then have "ensures J (or_aborts J) (\<lambda>st. on_world (lib_call (adns_processtimeouts L (core_now st))) st)"
    by (simp add: ensures_def)
  then show ?thesis
    unfolding process_timeout_def J_def
    by (intro p_ensures_then p_ensures_lift deliver_ensures [OF law call [unfolded J_def]])
qed

lemma prepare_ensures:
  assumes law: "adns_check_law Q L" "adns_quiet_law same Q L"
    and call: "\<And>u x. p_ensures (core_ok dok Q) (or_aborts (core_ok dok Q)) (call u x)"
  shows "p_ensures (core_ok dok Q) (or_aborts (core_ok dok Q)) (adns_prepare M L call task nfds)"
proof -
  let ?J = "core_ok dok Q"
  have pte: "p_ensures ?J (or_aborts ?J) (process_timeout M L call)"
    by (rule process_timeout_ensures [OF law call])
  have "M = M \<longrightarrow> L = L \<longrightarrow> call = call \<longrightarrow> task = task \<longrightarrow> ?J st \<longrightarrow> outcome ?J (or_aborts ?J) p"
    if run: "adns_prepare M L call task nfds st = Some p" for nfds st p
  proof (rule adns_prepare.raw_induct [where P = "\<lambda>M' L' call' task' nfds st p.
      M' = M \<longrightarrow> L' = L \<longrightarrow> call' = call \<longrightarrow> task' = task \<longrightarrow> ?J st \<longrightarrow> outcome ?J (or_aborts ?J) p", OF _ run], intro impI, goal_cases)
    case (1 rec M' L' call' task' nfds st p)
    have rec: "outcome ?J (or_aborts ?J) y" if "rec M L call task n s = Some y" "?J s" for n s y
      using 1(1) [OF that(1)] that(2) 1(3-6) by blast
    obtain x st0 where x: "on_world (lib_call (adns_beforepoll L (pfds (core_dns st)) nfds (-1) (core_now st))) st = (x, st0)"
      by (metis surj_pair)
    have en: "ensures ?J (or_aborts ?J) (on_world (lib_call (adns_beforepoll L (pfds (core_dns st)) nfds (-1) (core_now st))))"
      using law(2) by (intro world_ensures) (auto simp: adns_quiet_law_def)
    have J0: "outcome ?J (or_aborts ?J) (x, st0)" by (rule ensures_outcome [OF en 1(7) x])
    note step = 1(2) [unfolded 1(3-6) x prod.case]
    show ?case
    proof (cases x)
      case (Inl e)
      with step J0 show ?thesis by auto
    next
      case (Inr y)
      obtain rc ps nfds1 timeout where y: "y = (rc, ps, nfds1, timeout)" by (metis surj_pair)
      have upd: "?J (st\<lparr>core_dns := (core_dns st)\<lparr>pfds := q\<rparr>\<rparr>)" if "?J st" for st q
        using that by (simp add: core_ok_def dns_ok_def)
      let ?st1 = "st0\<lparr>core_dns := (core_dns st0)\<lparr>pfds := ps\<rparr>\<rparr>"
      have J1: "?J ?st1" using J0 Inr upd by simp
      have pt: "outcome ?J (or_aborts ?J) z" if "process_timeout M L call ?st1 = Some z" for z
        using pte J1 that unfolding p_ensures_outcome by blast
      have arm: "outcome ?J (or_aborts ?J) (then_op (arm_timeout task (adns_delay timeout)) (ret nfds1) ?st1)"
        by (rule ensures_outcome [OF ensures_then [OF arm_ensures ensures_ret] J1 refl])
      note step = step [unfolded Inr y sum.case prod.case Let_def]
      show ?thesis
      proof (cases "rc = 0 \<and> timeout = 0")
        case True
        with step show ?thesis
          by (cases "process_timeout M L call ?st1")
            (auto simp: ERANGE_def split: sum.splits prod.splits dest!: rec pt)
      next
        case False
        have "?J (?st1\<lparr>core_dns := (core_dns ?st1)\<lparr>pfds := q\<rparr>\<rparr>)" for q by (rule upd [OF J1])
        then have J2: "?J (st0\<lparr>core_dns := (core_dns st0)\<lparr>pfds := q\<rparr>\<rparr>)" for q by simp
        show ?thesis using False step J1 arm by (auto simp: J2 split: if_splits dest!: rec)
      qed
    qed
  qed
  then show ?thesis unfolding p_ensures_outcome by blast
qed

lemma adns_run_ensures:
  fixes J :: "('f, 'h, 'd, 'u, 'k, 'm) core_state_scheme \<Rightarrow> bool"
  defines "J \<equiv> core_ok dok Q"
  assumes law: "adns_check_law Q L" "adns_quiet_law same Q L"
    and call: "\<And>u x. p_ensures J (or_aborts J) (call u x)"
  shows "p_ensures J (or_aborts J) (adns_run M L call task fdh)"
proof -
  have dis: "ensures J (or_aborts J) disarm_timeout"
    unfolding J_def by (rule disarm_ensures)
  have check: "ensures J (or_aborts J) (adns_check_consistency L)"
    by (rule ensures_or_aborts) (auto simp: adns_check_consistency_def assert_op_def)
  have "p_ensures J (or_aborts J) (bind_prog (adns_prepare M L call task n) (\<lambda>nfds. lift_op (adns_reregister M fdh nfds)))" for n
    unfolding J_def
    by (intro p_ensures_bind p_ensures_lift prepare_ensures [OF law call [unfolded J_def]] reregister_ensures)
  moreover have "p_ensures J (or_aborts J) (lift_op (clear_sockets M))"
    unfolding J_def by (intro p_ensures_lift clear_ensures)
  ultimately have "p_ensures J (or_aborts J) (\<lambda>st. if queries (core_dns st) = [] then lift_op (clear_sockets M) st
      else bind_prog (adns_prepare M L call task (int (length (pfds (core_dns st))))) (\<lambda>nfds. lift_op (adns_reregister M fdh nfds)) st)"
    by (simp add: p_ensures_def)
  then show ?thesis
    unfolding adns_run_def J_def [symmetric]
    using dis by (intro p_ensures_then p_ensures_lift ensures_then check)
qed

text \<open>The dispatcher's loop and the schedule's loop on the whole state.\<close>

lemma core_dispatch_run_ensures:
  fixes J :: "('f, 'h, 'd, 'u, 'k, 'm) core_state_scheme \<Rightarrow> bool"
  defines "J \<equiv> core_ok dok Q"
  assumes call: "\<And>f ev. p_ensures J (or_aborts J) (call f ev)"
  shows "p_ensures J (or_aborts J) (core_dispatch_run M call)"
proof -
  let ?J = "\<lambda>(hs, st). J (with_handlers hs st)"
  let ?call = "\<lambda>f ev (hs, st). map_option (\<lambda>(r, st'). (r, fst (core_dispatch st'), st')) (call f ev (with_handlers hs st))"
  have same_hs: "with_handlers (fst (core_dispatch st)) st = st" for st :: "('f, 'h, 'd, 'u, 'k, 'm) core_state_scheme"
    by (simp add: with_handlers_def)
  have "ensures ?J (or_aborts ?J) (on_snd (on_dispatch (on_snd (dm_pop_event M))))"
  proof (rule ensures_or_aborts, goal_cases)
    case (1 s r t)
    obtain hs st where s: "s = (hs, st)" by (cases s)
    obtain hs0 d w where st: "core_dispatch st = (hs0, d, w)" by (cases "core_dispatch st")
    obtain d' w' where q: "dm_pop_event M (d, w) = (r, d', w')" and t: "t = (hs, st\<lparr>core_dispatch := (hs0, d', w')\<rparr>)"
      using 1(2) s st by (auto simp: on_dispatch_def on_snd_def split: prod.splits)
    have ok: "core_ok dok Q (st\<lparr>core_dispatch := (hs, d, w)\<rparr>)" using 1(1) s st by (simp add: J_def with_handlers_def)
    then have "dok (hs, d', w') \<and> Q (os w') = Q (os w)"
      using pop_law [of hs d w r d' w'] q 1(3) by (simp add: core_ok_def settled_def)
    then have "core_ok dok Q (st\<lparr>core_dispatch := (hs, d', w')\<rparr>)"
      using ok by (simp add: core_ok_def dns_ok_def)
    then show ?case by (simp add: t J_def with_handlers_def)
  qed
  moreover have "p_ensures ?J (or_aborts ?J) (?call f ev)" for f ev
    using p_ensures_view [OF call [of f ev], of ?J "\<lambda>(hs, st). with_handlers hs st" "\<lambda>st. (fst (core_dispatch st), st)"]
    by (simp add: same_hs case_prod_beta')
  ultimately have run: "p_ensures ?J (or_aborts ?J) (dispatch_run (on_dispatch (on_snd (dm_pop_event M))) ?call)"
    by (rule dispatch_run_ensures) (rule or_abortsI)
  from p_ensures_view [OF run, of J "\<lambda>st. (fst (core_dispatch st), st)" "\<lambda>(hs, st). with_handlers hs st"]
  show ?thesis by (simp add: same_hs core_dispatch_run_def [abs_def] case_prod_beta')
qed

lemma core_schedule_run_ensures:
  fixes J :: "('f, 'h, 'd, 'u, 'k, 'm) core_state_scheme \<Rightarrow> bool"
  defines "J \<equiv> core_ok dok Q"
  assumes call: "\<And>f. p_ensures J (or_aborts J) (call f)"
  shows "p_ensures J (or_aborts J) (core_schedule_run call)"
proof -
  let ?J = "\<lambda>(s, st). J (with_schedule s st)"
  let ?call = "\<lambda>f (s, st). map_option (\<lambda>(r, st'). (r, core_schedule st', st')) (call f (with_schedule s st))"
  have same_s: "with_schedule (core_schedule st) st = st" for st :: "('f, 'h, 'd, 'u, 'k, 'm) core_state_scheme"
    by (simp add: with_schedule_def)
  have erase: "?J (s\<lparr>queue := xs\<rparr>, st)" if "?J (s, st)" "queue s = x # xs" for s x xs st
  proof -
    have "schedule_wf s" using that(1) by (simp add: J_def core_ok_def with_schedule_def)
    from schedule_wf_tl [OF this that(2)] that(1) show ?thesis
      by (simp add: J_def core_ok_def dns_ok_def with_schedule_def)
  qed
  have tasks: "p_ensures ?J (or_aborts ?J) (?call f)" for f
    using p_ensures_view [OF call [of f], of ?J "\<lambda>(s, st). with_schedule s st" "\<lambda>st. (core_schedule st, st)"]
    by (simp add: same_s case_prod_beta')
  have run: "p_ensures ?J (or_aborts ?J) (schedule_run (\<lambda>st. current_time_t (core_now st)) ?call)"
  proof (rule schedule_run_ensures)
    show "?J (s\<lparr>queue := xs\<rparr>, st)" if "?J (s, st)" "queue s = x # xs" for s st x xs
      using that by (rule erase)
    show "or_aborts ?J Undefined_behaviour st" if "?J st" for st using that by (rule or_abortsI)
  qed (rule tasks)
  from p_ensures_view [OF run, of J "\<lambda>st. (core_schedule st, st)" "\<lambda>(s, st). with_schedule s st"]
  show ?thesis by (simp add: same_s core_schedule_run_def [abs_def] case_prod_beta')
qed

lemma core_run_ensures:
  fixes J :: "('f, 'h, 'd, 'u, 'k, 'm) core_state_scheme \<Rightarrow> bool"
  defines "J \<equiv> core_ok dok Q"
  assumes law: "adns_check_law Q L" "adns_quiet_law same Q L"
    and h: "\<And>f ev. p_ensures J (or_aborts J) (h_call f ev)" and t: "\<And>f. p_ensures J (or_aborts J) (t_call f)"
    and u: "\<And>u x. p_ensures J (or_aborts J) (u_call u x)"
  shows "p_ensures J (or_aborts J) (core_run M L h_call t_call u_call task fdh)"
proof -
  note d = core_dispatch_run_ensures [of h_call, folded J_def, OF h]
  note s = core_schedule_run_ensures [of t_call, folded J_def, OF t]
  note a = adns_run_ensures [OF law u [unfolded J_def], where task = task and fdh = fdh, folded J_def]
  have "p_ensures J (or_aborts J) (\<lambda>st.
      if schedule_empty (core_schedule st) then
        (if dispatch_empty (core_dispatch st)
         then lift_op (then_op (assert_op (timeout = 0)) (ret timeout)) st
         else lift_op (ret (dispatch_max_timeout M)) st)
      else lift_op (ret timeout) st)" for timeout
    by (auto simp: p_ensures_outcome op_defs)
  then show ?thesis
    unfolding core_run_def by (intro p_ensures_then p_ensures_bind d s a)
qed

end

section \<open>The contract holds on \<open>poll\<close>\<close>

lemma poll_pop_keeps: "poll_pop_event d = (r, d') \<Longrightarrow> poll_pfd d' = poll_pfd d \<and> poll_indices d' = poll_indices d"
proof (induction d rule: poll_pop_event.induct)
  case (1 d)
  show ?case
    using 1(2) 1(1) [OF _ _ refl refl] by (subst (asm) poll_pop_event.simps) (auto simp: Let_def split: if_splits)
qed

lemma poll_construct_settled:
  assumes ok: "dp_ok (hs, d, w)" and run: "dispatch_socket_construct (poll_ops P hv spm sys) s f ev (hs, d, w) = (r, st')" and r: "settled r"
  shows "0 \<le> s \<and> map_of hs s = None \<or> (\<exists>e. r = Inl e) \<and> st' = (hs, d, w)"
proof (cases "0 \<le> s")
  case False
  with run show ?thesis
    by (auto simp: dispatch_socket_construct_def poll_ops_def poll_socket_construct_def system_socket_construct_def op_defs on_snd_def)
next
  case True
  have "map_of hs s = None"
  proof (rule ccontr)
    assume "map_of hs s \<noteq> None"
    then have "poll_indices d s \<noteq> None"
      using dp_interest_None(2) [OF ok, of s] by (simp add: poll_interest_def)
    with True run have "r = Inl Assertion_failed"
      by (auto simp: dispatch_socket_construct_def poll_ops_def poll_socket_construct_def system_socket_construct_def
          poll_register_def op_defs on_snd_def on_fst_def unwind_op_def)
    with r show False by (simp add: settled_def)
  qed
  with True show ?thesis by simp
qed

interpretation poll_contract: demux_contract "poll_ops (P :: 'k sock_os) hv spm sys"
  "dp_ok :: 'h handler_map \<times> poll_demux \<times> 'k world \<Rightarrow> bool" "\<lambda>_ _. True" Q
proof
  fix hs hs' :: "'h handler_map" and d d' and w w' :: "'k world" and s ev f
  assume ok: "dp_ok (hs, d, w)"
  note none = dp_interest_None(2) [OF ok, of s]
  show "dp_ok (hs, d', w') \<and> Q (os w') = Q (os w)"
    if "dm_pop_event (poll_ops P hv spm sys) (d, w) = (r, d', w')" for r
    using ok that poll_pop_keeps [of d "fst (poll_pop_event d)" d']
    by (auto simp: poll_ops_def on_fst_def dp_ok_def poll_ok_def poll_interest_def split: prod.splits)
  show "dp_ok (hs', d', w') \<and> Q (os w') = Q (os w) \<and> map_of hs' = (case r of Inr _ \<Rightarrow> (map_of hs)(s \<mapsto> f) | Inl _ \<Rightarrow> map_of hs)"
    if run: "dispatch_socket_construct (poll_ops P hv spm sys) s f ev (hs, d, w) = (r, hs', d', w')" and "settled r" for r
  proof (cases "0 \<le> s \<and> map_of hs s = None")
    case False
    with poll_construct_settled [OF ok run that(2)] ok show ?thesis by auto
  next
    case True
    then have s: "0 \<le> s" "map_of hs s = None" by simp_all
    from dp_construct [OF ok s, of P hv spm sys f ev] run have
      "dp_ok (hs', d', w')" "w' = w" "r = Inr \<lparr>sock = s, close_flag = True\<rparr>"
      "dp_interest (hs', d', w) = (dp_interest (hs, d, w))(s \<mapsto> (f, ucast ev))" by auto
    moreover have "map_of hs' = (map_of hs)(s \<mapsto> f)"
      using run calculation by (auto simp: dispatch_socket_construct_def handlers_insert_def op_defs on_fst_def on_snd_def update_conv'
          split: prod.splits sum.splits if_splits)
    ultimately show ?thesis by simp
  qed
  show "dp_ok (hs', d', w') \<and> Q (os w') = Q (os w) \<and> map_of hs' = (map_of hs)(s := None)"
    if run: "dispatch_socket_destruct (poll_ops P hv spm sys) \<lparr>sock = s, close_flag = False\<rparr> (hs, d, w) = (r, hs', d', w')"
      and "settled r" for r
  proof -
    have s: "map_of hs s \<noteq> None"
    proof
      assume "map_of hs s = None"
      with run that(2) show False
        by (auto simp: dispatch_socket_destruct_def handlers_erase_def with_dtor_def on_fst_def settled_def)
    qed
    have "system_socket_destruct P \<lparr>sock = s, close_flag = False\<rparr> w = (Inr (), w)"
      by (simp add: system_socket_destruct_def ret_def)
    from dp_destruct [OF ok s this, of hv spm sys] run have r: "dp_ok (hs', d', w')" "w' = w" "r = Inr ()" by auto
    moreover have "hs' = AList.delete s hs"
      using run s by (auto simp: dispatch_socket_destruct_def handlers_erase_def with_dtor_def on_fst_def on_snd_def r
          split: prod.splits sum.splits if_splits)
    ultimately show ?thesis by (simp add: delete_conv')
  qed
  show "dp_ok (hs, d', w') \<and> Q (os w') = Q (os w)"
    if run: "dm_request (poll_ops P hv spm sys) s ev (d, w) = (r, d', w')" and "settled r" for r
  proof -
    have "poll_indices d s \<noteq> None"
    proof
      assume "poll_indices d s = None"
      with run that(2) show False
        by (auto simp: poll_ops_def poll_request_def poll_check_consistency_def op_defs on_fst_def settled_def split: if_splits)
    qed
    then have "dp_interest (hs, d, w) s \<noteq> None" using none dp_interest_None(1) [OF ok, of s] by (simp add: poll_interest_def)
    then obtain g e where "dp_interest (hs, d, w) s = Some (g, e)" by auto
    from dp_request [OF ok this, of P hv spm sys ev] run show ?thesis by auto
  qed
qed (simp add: dp_ok_def)

section \<open>The resolver's own handlers\<close>

text \<open>A handler in the dispatcher is the application's or \<open>boost::bind(&adns::process_fd, this, fd, _1)\<close>; a
  task in the schedule is the application's or \<open>boost::bind(&adns::process_timeout, this)\<close>.\<close>

datatype 'h core_handler = App_handler 'h | Resolver_fd int
datatype 'f core_task = App_task 'f | Resolver_timeout

fun handler_call ::
  "('d \<times> 'k world) demux_ops \<Rightarrow> 'k adns_lib \<Rightarrow> (('f, 'h core_handler, 'd, 'u, 'k, 'm) core_state_scheme, 'u) dns_call \<Rightarrow>
   ('h \<Rightarrow> u32 \<Rightarrow> (('f, 'h core_handler, 'd, 'u, 'k, 'm) core_state_scheme, unit) prog) \<Rightarrow>
   'h core_handler \<Rightarrow> u32 \<Rightarrow> (('f, 'h core_handler, 'd, 'u, 'k, 'm) core_state_scheme, unit) prog" where
  "handler_call M L u_call app (App_handler h) ev = app h ev"
| "handler_call M L u_call app (Resolver_fd fd) ev = process_fd M L u_call fd ev"

fun task_call ::
  "('d \<times> 'k world) demux_ops \<Rightarrow> 'k adns_lib \<Rightarrow> (('f core_task, 'h, 'd, 'u, 'k, 'm) core_state_scheme, 'u) dns_call \<Rightarrow>
   ('f \<Rightarrow> (('f core_task, 'h, 'd, 'u, 'k, 'm) core_state_scheme, unit) prog) \<Rightarrow>
   'f core_task \<Rightarrow> (('f core_task, 'h, 'd, 'u, 'k, 'm) core_state_scheme, unit) prog" where
  "task_call M L u_call app (App_task f) = app f"
| "task_call M L u_call app Resolver_timeout = process_timeout M L u_call"

text \<open>\<open>run\<close> with the handlers and tasks there can be.\<close>

definition core_program_run ::
  "('d \<times> 'k world) demux_ops \<Rightarrow> 'k adns_lib \<Rightarrow>
   ('h \<Rightarrow> u32 \<Rightarrow> (('f core_task, 'h core_handler, 'd, 'u, 'k, 'm) core_state_scheme, unit) prog) \<Rightarrow>
   ('f \<Rightarrow> (('f core_task, 'h core_handler, 'd, 'u, 'k, 'm) core_state_scheme, unit) prog) \<Rightarrow>
   (('f core_task, 'h core_handler, 'd, 'u, 'k, 'm) core_state_scheme, 'u) dns_call \<Rightarrow>
   (('f core_task, 'h core_handler, 'd, 'u, 'k, 'm) core_state_scheme, u32) prog" where
  "core_program_run M L h_app t_app u_call =
     core_run M L (handler_call M L u_call h_app) (task_call M L u_call t_app) u_call Resolver_timeout Resolver_fd"

lemma program_run_ensures:
  fixes J :: "('f core_task, 'h core_handler, 'd, 'u, 'k, 'm) core_state_scheme \<Rightarrow> bool"
    and h_app :: "'h \<Rightarrow> u32 \<Rightarrow> (('f core_task, 'h core_handler, 'd, 'u, 'k, 'm) core_state_scheme, unit) prog"
  assumes contract: "demux_contract M dok same Q"
  defines "J \<equiv> core_ok dok Q"
  assumes law: "adns_check_law Q L" "adns_quiet_law same Q L"
    and h: "\<And>f ev. p_ensures J (or_aborts J) (h_app f ev)" and t: "\<And>f. p_ensures J (or_aborts J) (t_app f)"
    and u: "\<And>u x. p_ensures J (or_aborts J) (u_call u x)"
  shows "p_ensures J (or_aborts J) (core_program_run M L h_app t_app u_call)"
proof -
  have "p_ensures J (or_aborts J) (handler_call M L u_call h_app f ev)" for f ev
    using h demux_contract.process_fd_ensures [OF contract law u [unfolded J_def], folded J_def] by (cases f) simp_all
  moreover have "p_ensures J (or_aborts J) (task_call M L u_call t_app f)" for f
    using t demux_contract.process_timeout_ensures [OF contract law u [unfolded J_def], folded J_def] by (cases f) simp_all
  ultimately show ?thesis
    unfolding core_program_run_def J_def
    by (intro demux_contract.core_run_ensures [OF contract law]) (use u in \<open>simp_all add: J_def\<close>)
qed

section \<open>Properties\<close>

lemma settled_outcome: "outcome J (or_aborts J) (r, st) \<Longrightarrow> settled r \<Longrightarrow> J st"
  by (cases r) (auto simp: or_aborts_def settled_def)

text \<open>
  One turn of the main loop on \<open>poll\<close> keeps the shared state consistent.  Whatever the
  application's handlers, tasks and callbacks do, as long as they keep it themselves, when \<open>run\<close>
  returns or throws: the tasks are queued in order, the index of the \<open>pollfd\<close> vector is right and each
  descriptor in it has a handler, the resolver's sockets have theirs, and each query of the adns
  library has its callback.
\<close>

theorem core_run_keeps_consistent:
  fixes st :: "('f core_task, 'h core_handler, poll_demux, 'u, 'k, 'm) core_state_scheme" and Q :: "'k \<Rightarrow> int \<rightharpoonup> rrtype"
  assumes law: "adns_check_law Q L" "adns_quiet_law (\<lambda>_ _. True) Q L"
    and app: "\<And>f ev. p_ensures (core_ok dp_ok Q) (or_aborts (core_ok dp_ok Q)) (h_app f ev)"
      "\<And>f. p_ensures (core_ok dp_ok Q) (or_aborts (core_ok dp_ok Q)) (t_app f)"
      "\<And>u x. p_ensures (core_ok dp_ok Q) (or_aborts (core_ok dp_ok Q)) (u_call u x)"
    and ok: "core_ok dp_ok Q st"
    and run: "core_program_run (poll_ops P hv spm sys) L h_app t_app u_call st = Some (r, st')" and r: "settled r"
  shows "core_ok dp_ok Q st'"
proof -
  have "p_ensures (core_ok dp_ok Q) (or_aborts (core_ok dp_ok Q)) (core_program_run (poll_ops P hv spm sys) L h_app t_app u_call)"
    by (rule program_run_ensures [OF poll_contract.demux_contract_axioms law]) (use app in blast)+
  from p_ensures_Some [OF this ok run] r show ?thesis by (rule settled_outcome)
qed

text \<open>A program whose resolver waits for the answer to a reverse query on descriptor 5, which has become
  readable, and a task that is not due yet; afterwards.\<close>

definition waiting_program :: "(string core_task, string core_handler, poll_demux, string, nat) core_state" where
  "waiting_program = \<lparr>core_now = \<lparr>tv_sec = 40, tv_usec = 0\<rparr>, core_schedule = snd (schedule_at 100 (App_task ''tick'') schedule_init),
     core_dispatch = ([(5, Resolver_fd 5)], (\<lparr>poll_pfd = [\<lparr>pfd_fd = 5, pfd_events = 1, pfd_revents = 1\<rparr>], poll_indices = [5 \<mapsto> 0],
        poll_n_events = 1, poll_current = 0\<rparr>, \<lparr>errno = 0, os = 1\<rparr>)),
     core_dns = \<lparr>adns_timeout = timeout_new, queries = [(1, Callback_PTR (Some ''h''))], registered_sockets = [5], pfds = []\<rparr>\<rparr>"

definition popped_program :: "nat \<Rightarrow> (string core_task, string core_handler, poll_demux, string, nat) core_state" where
  "popped_program n = waiting_program\<lparr>core_dispatch := ([(5, Resolver_fd 5)], (\<lparr>poll_pfd = [\<lparr>pfd_fd = 5, pfd_events = 1, pfd_revents = 1\<rparr>],
        poll_indices = [5 \<mapsto> 0], poll_n_events = 0, poll_current = 1\<rparr>, \<lparr>errno = 0, os = n\<rparr>)),
     core_dns := (core_dns waiting_program)\<lparr>queries := if n = 0 then [] else [(1, Callback_PTR (Some ''h''))]\<rparr>\<rparr>"

definition answered_program :: "(string core_task, string core_handler, poll_demux, string, nat) core_state" where
  "answered_program = waiting_program\<lparr>core_dispatch := ([], (\<lparr>poll_pfd = [], poll_indices = Map.empty,
        poll_n_events = 0, poll_current = 1\<rparr>, \<lparr>errno = 0, os = 0\<rparr>)),
     core_dns := \<lparr>adns_timeout = timeout_new, queries = [], registered_sockets = [], pfds = []\<rparr>\<rparr>"

definition plain_poll :: "(poll_demux \<times> nat world) demux_ops" where
  "plain_poll = poll_ops quiet_sock True (\<lambda>_ w. ((0, {}), w)) (\<lambda>ps to m w. ((0, []), w))"

lemma waiting_program_clear: "clear_sockets plain_poll (popped_program 0) = (Inr (), answered_program)"
  by (simp add: clear_sockets_def popped_program_def waiting_program_def answered_program_def plain_poll_def poll_ops_def
      op_defs on_dns_def on_dispatch_def dispatch_socket_destruct_def with_dtor_def on_fst_def on_snd_def handlers_erase_def
      poll_socket_destruct_def poll_unregister_def poll_check_consistency_def system_socket_destruct_def fun_eq_iff)

lemma waiting_program_deliver:
  "deliver_responses plain_poll count_adns (\<lambda>u x st. Some (Inr (), st)) (popped_program 1) = Some (Inr (), answered_program)"
proof -
  have fin: "deliver_responses plain_poll count_adns (\<lambda>u x st. Some (Inr (), st)) (popped_program 0) = Some (Inr (), answered_program)"
    by (subst deliver_responses.simps)
      (simp add: on_world_apply lib_call_def count_adns_def count_check_def popped_program_def waiting_program_def errno_codes
        then_op_def bind_op_def assert_op_def, simp add: waiting_program_clear [unfolded popped_program_def waiting_program_def, simplified])
  show ?thesis
    by (subst deliver_responses.simps)
      (simp add: on_world_apply lib_call_def count_adns_def count_check_def popped_program_def waiting_program_def errno_codes
        host_answer_def call_handler_def handlePTR_def by_status_def
        fin [unfolded popped_program_def waiting_program_def count_adns_def, simplified])
qed

lemma count_adns_process:
  "on_world (lib_call (adns_processreadable count_adns fd now)) st = (Inr 0, st)"
  "on_world (lib_call (adns_processwriteable count_adns fd now)) st = (Inr 0, st)"
  "on_world (lib_call (adns_processexceptional count_adns fd now)) st = (Inr 0, st)"
  by (cases st; simp add: on_world_apply lib_call_def count_adns_def)+

lemma waiting_program_event:
  "process_fd plain_poll count_adns (\<lambda>u x st. Some (Inr (), st)) 5 ev (popped_program 1) = Some (Inr (), answered_program)"
  by (simp add: process_fd_def Let_def then_prog_def bind_prog_def lift_op_def bind_op_def count_adns_process
      throw_rc_if_not_zero_def ret_def waiting_program_deliver [simplified])

lemma waiting_program_run:
  "core_program_run plain_poll count_adns (\<lambda>f ev st. None) (\<lambda>f st. None) (\<lambda>u x st. Some (Inr (), st)) waiting_program
    = Some (Inr 60, answered_program)"
proof -
  let ?u = "\<lambda>u x st. Some (Inr () :: fault + unit, st :: (string core_task, string core_handler, poll_demux, string, nat) core_state)"
  let ?h = "handler_call plain_poll count_adns ?u (\<lambda>f ev st. None)" and ?t = "task_call plain_poll count_adns ?u (\<lambda>f st. None)"
  let ?call = "\<lambda>f ev (hs, st). map_option (\<lambda>(r, st'). (r, fst (core_dispatch st'), st')) (?h f ev (with_handlers hs st))"
  let ?pop = "on_dispatch (on_snd (dm_pop_event plain_poll)) :: ((string core_task, string core_handler, poll_demux, string, nat) core_state, (int \<times> u32) option) op"
  have pop: "on_snd ?pop ([(5, Resolver_fd 5)], waiting_program) = (Inr (Some (5, poll_event_of 1)), ([(5, Resolver_fd 5)], popped_program 1))"
    by (simp add: on_snd_def on_dispatch_def on_fst_def plain_poll_def poll_ops_def waiting_program_def popped_program_def
        poll_pop_event.simps)
  have ev: "poll_event_of 1 \<noteq> no_events"
    unfolding poll_event_of_def POLLRDNORM_def POLLRDBAND_def POLLWRNORM_def
    by (subst normalize_events_none) (simp_all add: poll_codes_def)
  have hs: "with_handlers [(5, Resolver_fd 5)] (popped_program 1) = popped_program 1"
    by (simp add: with_handlers_def popped_program_def waiting_program_def)
  have ans: "fst (core_dispatch answered_program) = []" by (simp add: answered_program_def)
  have last: "dispatch_run ?pop ?call ([], answered_program) = Some (Inr (), ([], answered_program))"
    by (subst dispatch_run.simps)
      (simp add: on_snd_def on_dispatch_def on_fst_def plain_poll_def poll_ops_def answered_program_def poll_pop_event.simps)
  have "dispatch_run ?pop ?call ([(5, Resolver_fd 5)], waiting_program) = Some (Inr (), ([], answered_program))"
    by (subst dispatch_run.simps)
      (simp add: pop [simplified] ev hs [simplified] waiting_program_event [simplified] ans last)
  moreover have "fst (core_dispatch waiting_program) = [(5, Resolver_fd 5)]" by (simp add: waiting_program_def)
  moreover have "with_handlers [] answered_program = answered_program" by (simp add: with_handlers_def answered_program_def)
  ultimately have d: "core_dispatch_run plain_poll ?h waiting_program = Some (Inr (), answered_program)"
    by (simp add: core_dispatch_run_def)
  have s: "core_schedule_run ?t answered_program = Some (Inr 60, answered_program)"
    by (simp add: core_schedule_run_def schedule_run.simps answered_program_def waiting_program_def schedule_at_def schedule_init_def
        with_schedule_def in_time_range_def current_time_t_def)
  have a: "adns_run plain_poll count_adns ?u Resolver_timeout Resolver_fd answered_program = Some (Inr (), answered_program)"
    by (simp add: adns_run_def then_prog_def bind_prog_def lift_op_def then_op_def bind_op_def adns_check_consistency_def
        assert_op_def count_adns_def disarm_timeout_def on_schedule_def timeout_cancel_def timeout_new_def on_dns_def
        modify_op_def clear_sockets_def ret_def answered_program_def waiting_program_def)
  show ?thesis
    by (simp add: core_program_run_def core_run_def then_prog_def bind_prog_def lift_op_def d s a ret_def)
      (simp add: answered_program_def waiting_program_def schedule_empty_def schedule_at_def schedule_init_def)
qed

theorem core_run_keeps_consistent_witness:
  "core_program_run plain_poll count_adns (\<lambda>f ev st. None) (\<lambda>f st. None) (\<lambda>u x st. Some (Inr (), st)) waiting_program
    = Some (Inr 60, answered_program) \<and> core_ok dp_ok count_view answered_program"
proof
  have quiet: "adns_quiet_law (\<lambda>_ _. True) count_view count_adns"
    by (simp add: adns_quiet_law_def count_adns_def)
  have view: "count_view 1 = map_option callback_type \<circ> map_of [(1, Callback_PTR (Some ''h''))]"
    by (auto simp: count_view_def fun_eq_iff)
  have wf: "schedule_wf (snd (schedule_at 100 (App_task ''tick'') schedule_init))"
    by (rule schedule_at_wf) (rule schedule_wf_init)
  have "poll_ok \<lparr>poll_pfd = [\<lparr>pfd_fd = 5, pfd_events = 1, pfd_revents = 1\<rparr>], poll_indices = [5 \<mapsto> 0], poll_n_events = 1, poll_current = 0\<rparr>"
    by (auto simp: poll_ok_def split: if_splits)
  with view wf have ok: "core_ok dp_ok count_view waiting_program"
    by (auto simp: core_ok_def dns_ok_def dp_ok_def waiting_program_def poll_interest_def)
  show "core_ok dp_ok count_view answered_program"
    by (rule core_run_keeps_consistent [OF count_laws(1) quiet _ _ _ ok waiting_program_run [unfolded plain_poll_def]])
      (auto simp: p_ensures_outcome settled_def)
qed (rule waiting_program_run)

end
