(* ===== verification/Ioxx_Main_Loop.thy ===== *)
theory Ioxx_Main_Loop
  imports Ioxx_Core_Invariant
begin

text \<open>
  Programs on \<open>core\<close> as a state machine: what a program can do between and inside its calls of \<open>run\<close>
  and \<open>wait\<close>, on any of the three demultiplexers, and what every state it can reach satisfies.
\<close>

section \<open>Dispatchers that leave the resolver's part of the kernel alone\<close>

definition demux_keeps :: "('k \<Rightarrow> 'q) \<Rightarrow> ('d \<times> 'k world) demux_ops \<Rightarrow> bool" where
  "demux_keeps Q M \<longleftrightarrow>
     keeps (\<lambda>st. Q (os (snd st))) (dm_pop_event M) \<and>
     (\<forall>s ev. keeps (\<lambda>st. Q (os (snd st))) (dm_socket_construct M s ev)) \<and>
     (\<forall>sk. keeps (\<lambda>st. Q (os (snd st))) (dm_socket_destruct M sk)) \<and>
     (\<forall>s ev. keeps (\<lambda>st. Q (os (snd st))) (dm_request M s ev)) \<and>
     (\<forall>timeout. keeps (\<lambda>st. Q (os (snd st))) (dm_wait M timeout)) \<and>
     (\<forall>s ev st sk st'. dm_socket_construct M s ev st = (Inr sk, st') \<longrightarrow> sock sk = s)"

lemma demux_keepsD:
  assumes "demux_keeps Q M"
  shows "dm_pop_event M (d, w) = (r1, (d', w')) \<Longrightarrow> Q (os w') = Q (os w)"
    and "dm_socket_construct M s ev (d, w) = (r2, (d', w')) \<Longrightarrow> Q (os w') = Q (os w)"
    and "dm_socket_destruct M sk (d, w) = (r3, (d', w')) \<Longrightarrow> Q (os w') = Q (os w)"
    and "dm_request M s ev (d, w) = (r3, (d', w')) \<Longrightarrow> Q (os w') = Q (os w)"
    and "dm_wait M timeout (d, w) = (r3, (d', w')) \<Longrightarrow> Q (os w') = Q (os w)"
    and "dm_socket_construct M s ev (d, w) = (Inr sk, (d', w')) \<Longrightarrow> sock sk = s"
proof -
  note k = assms [unfolded demux_keeps_def]
  note kd = keepsD [where s = "(d, w)" and t = "(d', w')", simplified]
  show "dm_pop_event M (d, w) = (r1, (d', w')) \<Longrightarrow> Q (os w') = Q (os w)" using k kd [of "\<lambda>st. Q (os (snd st))" "dm_pop_event M"] by simp
  show "dm_socket_construct M s ev (d, w) = (r2, (d', w')) \<Longrightarrow> Q (os w') = Q (os w)"
    using k kd [of "\<lambda>st. Q (os (snd st))" "dm_socket_construct M s ev"] by simp
  show "dm_socket_destruct M sk (d, w) = (r3, (d', w')) \<Longrightarrow> Q (os w') = Q (os w)"
    using k kd [of "\<lambda>st. Q (os (snd st))" "dm_socket_destruct M sk"] by simp
  show "dm_request M s ev (d, w) = (r3, (d', w')) \<Longrightarrow> Q (os w') = Q (os w)"
    using k kd [of "\<lambda>st. Q (os (snd st))" "dm_request M s ev"] by simp
  show "dm_wait M timeout (d, w) = (r3, (d', w')) \<Longrightarrow> Q (os w') = Q (os w)"
    using k kd [of "\<lambda>st. Q (os (snd st))" "dm_wait M timeout"] by simp
  show "dm_socket_construct M s ev (d, w) = (Inr sk, (d', w')) \<Longrightarrow> sock sk = s" using k by blast
qed

text \<open>How the dispatcher's operations can have ended when the program goes on.\<close>

lemma dispatch_construct_inv:
  assumes "dispatch_socket_construct M s f ev (hs, x) = (r, hs', x')" and "settled r"
  shows "(\<exists>sk. r = Inr sk \<and> dm_socket_construct M s ev x = (Inr sk, x') \<and> map_of hs (sock sk) = None \<and>
      map_of hs' = (map_of hs)(sock sk \<mapsto> f)) \<or>
    (\<exists>e. r = Inl e \<and> dm_socket_construct M s ev x = (Inl e, x') \<and> hs' = hs)"
  using assms
  by (auto simp: dispatch_socket_construct_def handlers_insert_def op_defs on_fst_def on_snd_def settled_def update_conv'
      split: prod.splits sum.splits if_splits)

lemma dispatch_destruct_inv:
  assumes "dispatch_socket_destruct M sk (hs, x) = (r, hs', x')" and "settled r"
  shows "map_of hs (sock sk) \<noteq> None \<and> map_of hs' = (map_of hs)(sock sk := None) \<and> dm_socket_destruct M sk x = (r, x')"
proof (cases "map_of hs (sock sk)")
  case None
  with assms show ?thesis
    by (auto simp: dispatch_socket_destruct_def handlers_erase_def with_dtor_def on_fst_def settled_def)
next
  case (Some h)
  obtain r0 x0 where "dm_socket_destruct M sk x = (r0, x0)" by (cases "dm_socket_destruct M sk x")
  with Some assms show ?thesis
    by (cases r0) (auto simp: dispatch_socket_destruct_def handlers_erase_def with_dtor_def on_fst_def on_snd_def delete_conv')
qed

lemma dispatch_modify_inv:
  assumes "dispatch_modify M s f ev (hs, x) = (r, hs', x')" and "settled r"
  shows "dom (map_of hs') = dom (map_of hs) \<and> (\<exists>r'. dm_request M s ev x = (r', x') \<and> settled r')"
proof -
  obtain r0 x0 where q: "dm_request M s ev x = (r0, x0)" by (cases "dm_request M s ev x")
  then have eq: "dispatch_modify M s f ev (hs, x) =
      (case r0 of Inl e \<Rightarrow> (Inl e, (hs, x0)) | Inr _ \<Rightarrow> on_fst (handlers_assign s f) (hs, x0))"
    by (cases r0) (simp_all add: dispatch_modify_def op_defs on_snd_def)
  show ?thesis
  proof (cases r0)
    case (Inl e)
    with eq assms q show ?thesis by auto
  next
    case (Inr u)
    with eq assms q show ?thesis
      by (cases "map_of hs s") (auto simp: handlers_assign_def on_fst_def settled_def update_conv')
  qed
qed

lemma dispatch_modify_handler_inv:
  assumes "dispatch_modify_handler s f (hs, x) = (r, hs', x')" and "settled r"
  shows "dom (map_of hs') = dom (map_of hs) \<and> x' = x"
  using assms
  by (auto simp: dispatch_modify_handler_def handlers_assign_def on_fst_def settled_def update_conv'
      split: prod.splits sum.splits if_splits)

section \<open>The contract of the main loop\<close>

locale main_loop_contract = demux_contract M dok same Q
  for M :: "('d \<times> 'k world) demux_ops" and dok :: "'h handler_map \<times> 'd \<times> 'k world \<Rightarrow> bool"
    and same :: "'k \<Rightarrow> 'k \<Rightarrow> bool" and Q :: "'k \<Rightarrow> int \<rightharpoonup> rrtype" +
  assumes close_law: "dok (hs, d, w) \<Longrightarrow> dispatch_socket_destruct M sk (hs, d, w) = (r1, (hs', d', w')) \<Longrightarrow> settled r1 \<Longrightarrow>
      dok (hs', d', w') \<and> Q (os w') = Q (os w) \<and> map_of hs' = (map_of hs)(sock sk := None)"
    and modify_law: "dok (hs, d, w) \<Longrightarrow> dispatch_modify M s f ev (hs, d, w) = (r2, (hs', d', w')) \<Longrightarrow> settled r2 \<Longrightarrow>
      dok (hs', d', w') \<and> Q (os w') = Q (os w) \<and> dom (map_of hs') = dom (map_of hs)"
    and assign_law: "dok (hs, d, w) \<Longrightarrow> dispatch_modify_handler s f (hs, d, w) = (r3, (hs', d', w')) \<Longrightarrow> settled r3 \<Longrightarrow>
      dok (hs', d', w') \<and> Q (os w') = Q (os w) \<and> dom (map_of hs') = dom (map_of hs)"
    and wait_law: "dok (hs, d, w) \<Longrightarrow> dm_wait M timeout (d, w) = (r4, (d', w')) \<Longrightarrow> settled r4 \<Longrightarrow>
      dok (hs, d', w') \<and> Q (os w') = Q (os w)"
    and same_refl: "same k k" and same_trans: "same k1 k2 \<Longrightarrow> same k2 k3 \<Longrightarrow> same k1 k3"

text \<open>Every dispatcher that leaves the resolver's part alone keeps it, with nothing asked of its own table.\<close>

interpretation any_demux: main_loop_contract "M :: ('d \<times> 'k world) demux_ops"
  "\<lambda>_ :: 'h handler_map \<times> 'd \<times> 'k world. demux_keeps Q M" "\<lambda>_ _. True" Q
proof unfold_locales
  fix hs hs' :: "'h handler_map" and d d' :: 'd and w w' :: "'k world" and s ev f sk timeout
  assume k: "demux_keeps Q M"
  note kd = demux_keepsD [OF k]
  show "demux_keeps Q M \<and> Q (os w') = Q (os w)" if "dm_pop_event M (d, w) = (r, d', w')" for r
    using k kd(1) [OF that] by simp
  show "demux_keeps Q M \<and> Q (os w') = Q (os w) \<and> map_of hs' = (case r of Inr _ \<Rightarrow> (map_of hs)(s \<mapsto> f) | Inl _ \<Rightarrow> map_of hs)"
    if "dispatch_socket_construct M s f ev (hs, d, w) = (r, hs', d', w')" "settled r" for r
    using dispatch_construct_inv [OF that] k kd(2) kd(6) by fastforce
  show closed: "demux_keeps Q M \<and> Q (os w') = Q (os w) \<and> map_of hs' = (map_of hs)(sock sk := None)"
    if "dispatch_socket_destruct M sk (hs, d, w) = (r, hs', d', w')" "settled r" for r sk
    using dispatch_destruct_inv [OF that] k kd(3) by blast
  show "demux_keeps Q M \<and> Q (os w') = Q (os w) \<and> map_of hs' = (map_of hs)(s := None)"
    if "dispatch_socket_destruct M \<lparr>sock = s, close_flag = False\<rparr> (hs, d, w) = (r, hs', d', w')" "settled r" for r
    using closed [OF that] by simp
  show "demux_keeps Q M \<and> Q (os w') = Q (os w)" if "dm_request M s ev (d, w) = (r, d', w')" for r
    using k kd(4) [OF that] by simp
  show "demux_keeps Q M \<and> Q (os w') = Q (os w) \<and> dom (map_of hs') = dom (map_of hs)"
    if "dispatch_modify M s f ev (hs, d, w) = (r, hs', d', w')" "settled r" for r
    using dispatch_modify_inv [OF that] k kd(4) by blast
  show "demux_keeps Q M \<and> Q (os w') = Q (os w) \<and> dom (map_of hs') = dom (map_of hs)"
    if "dispatch_modify_handler s f (hs, d, w) = (r, hs', d', w')" "settled r" for r
    using dispatch_modify_handler_inv [OF that] k by simp
  show "demux_keeps Q M \<and> Q (os w') = Q (os w)" if "dm_wait M timeout (d, w) = (r, d', w')" for r
    using k kd(5) [OF that] by simp
qed simp_all

section \<open>Programs\<close>

text \<open>What the application can do: an operation of the library on a socket, a task or a query, a call of
  \<open>wait\<close>, or anything else that leaves the objects of the library and the resolver's part of the kernel
  alone, such as opening a descriptor or reading from a socket.  An operation may have thrown, and the
  application caught the exception.  The application destroys sockets of its own only.\<close>

inductive library_op ::
  "('d \<times> 'k world) demux_ops \<Rightarrow> 'k adns_lib \<Rightarrow> 'k sys_gettimeofday \<Rightarrow> ('k \<Rightarrow> 'k \<Rightarrow> bool) \<Rightarrow>
   ('f core_task, 'h core_handler, 'd, 'u, 'k) core_state \<Rightarrow> ('f core_task, 'h core_handler, 'd, 'u, 'k) core_state \<Rightarrow> bool"
  for M L gtod other
where
  op_wait: "core_wait M gtod timeout st = (r, st') \<Longrightarrow> settled r \<Longrightarrow> library_op M L gtod other st st'"
| op_at: "on_schedule (schedule_at ts (App_task f)) st = (r, st') \<Longrightarrow> settled r \<Longrightarrow> library_op M L gtod other st st'"
| op_in: "on_schedule (schedule_in (current_time_t (core_now st)) to (App_task f)) st = (r, st') \<Longrightarrow> settled r \<Longrightarrow>
    library_op M L gtod other st st'"
| op_cancel: "on_schedule (schedule_cancel tid) st = (r, st') \<Longrightarrow> settled r \<Longrightarrow> library_op M L gtod other st st'"
| op_timeout_new: "m \<in> {core_timeout_new_at ts (App_task f), core_timeout_new_in to (App_task f)} \<Longrightarrow> m st = (r, st') \<Longrightarrow> settled r \<Longrightarrow>
    library_op M L gtod other st st'"
| op_timeout: "m \<in> {timeout_at ts (App_task f) tid, timeout_in (current_time_t (core_now st)) to (App_task f) tid, timeout_cancel tid} \<Longrightarrow>
    on_schedule m st = (r, st') \<Longrightarrow> settled r \<Longrightarrow> library_op M L gtod other st st'"
| op_timeout_destroy: "on_schedule (timeout_destroy tid) st = (r, st') \<Longrightarrow> settled r \<Longrightarrow> library_op M L gtod other st st'"
| op_socket: "core_socket_construct M s (App_handler h) ev st = (r, st') \<Longrightarrow> settled r \<Longrightarrow>
    library_op M L gtod other st st'"
| op_modify: "on_dispatch (dispatch_modify M s (App_handler h) ev) st = (r, st') \<Longrightarrow> settled r \<Longrightarrow> library_op M L gtod other st st'"
| op_handler: "on_dispatch (dispatch_modify_handler s (App_handler h)) st = (r, st') \<Longrightarrow> settled r \<Longrightarrow>
    library_op M L gtod other st st'"
| op_request: "on_dispatch (on_snd (dm_request M s ev)) st = (r, st') \<Longrightarrow> settled r \<Longrightarrow> library_op M L gtod other st st'"
| op_destroy: "on_dispatch (dispatch_socket_destruct M sk) st = (r, st') \<Longrightarrow> settled r \<Longrightarrow>
    sock sk \<notin> set (registered_sockets (core_dns st)) \<Longrightarrow> library_op M L gtod other st st'"
| op_query: "m \<in> {query_a L owner h, query_a_no_cname L owner h, query_mx L owner h, query_ptr L owner h, query_ptr_address L addr h} \<Longrightarrow>
    m st = (r, st') \<Longrightarrow> settled r \<Longrightarrow> library_op M L gtod other st st'"
| op_other: "other (os (the_world st)) (os w') \<Longrightarrow> library_op M L gtod other st (with_world w' st)"

text \<open>A handler, task or callback of the application that acts through the library.\<close>

definition acts :: "('s \<Rightarrow> 's \<Rightarrow> bool) \<Rightarrow> ('s, 'a) prog \<Rightarrow> bool" where
  "acts step p \<longleftrightarrow> (\<forall>st r st'. p st = Some (r, st') \<longrightarrow> settled r \<longrightarrow> step\<^sup>*\<^sup>* st st')"

text \<open>The states a program can reach: it constructs the core, and then calls \<open>run\<close> and the operations of
  the library in any order.\<close>

inductive program_reaches ::
  "('d \<times> 'k world) demux_ops \<Rightarrow> 'k adns_lib \<Rightarrow> 'k sys_gettimeofday \<Rightarrow> ('k \<Rightarrow> 'k \<Rightarrow> bool) \<Rightarrow>
   ('h \<Rightarrow> u32 \<Rightarrow> (('f core_task, 'h core_handler, 'd, 'u, 'k) core_state, unit) prog) \<Rightarrow>
   ('f \<Rightarrow> (('f core_task, 'h core_handler, 'd, 'u, 'k) core_state, unit) prog) \<Rightarrow>
   (('f core_task, 'h core_handler, 'd, 'u, 'k) core_state, 'u) dns_call \<Rightarrow>
   ('k world, 'd) op \<Rightarrow> ('d \<Rightarrow> ('k world, unit) op) \<Rightarrow> ('f core_task, 'h core_handler, 'd, 'u, 'k) core_state \<Rightarrow> bool"
  for M L gtod other h_app t_app u_call dnew ddel
where
  reach_start: "core_construct gtod dnew ddel L w0 = (Inr st, w) \<Longrightarrow>
    program_reaches M L gtod other h_app t_app u_call dnew ddel st"
| reach_run: "program_reaches M L gtod other h_app t_app u_call dnew ddel st \<Longrightarrow>
    core_program_run M L h_app t_app u_call st = Some (r, st') \<Longrightarrow> settled r \<Longrightarrow>
    program_reaches M L gtod other h_app t_app u_call dnew ddel st'"
| reach_op: "program_reaches M L gtod other h_app t_app u_call dnew ddel st \<Longrightarrow> library_op M L gtod other st st' \<Longrightarrow>
    program_reaches M L gtod other h_app t_app u_call dnew ddel st'"

text \<open>What \<open>gettimeofday\<close> leaves alone, and the resolver at its start.\<close>

definition clock_law :: "('k \<Rightarrow> 'k \<Rightarrow> bool) \<Rightarrow> ('k \<Rightarrow> 'q) \<Rightarrow> 'k sys_gettimeofday \<Rightarrow> bool" where
  "clock_law same Q gtod \<longleftrightarrow> (\<forall>w r w'. gtod w = (r, w') \<longrightarrow> same (os w) (os w') \<and> Q (os w') = Q (os w))"

definition adns_init_law :: "('k \<Rightarrow> int \<rightharpoonup> rrtype) \<Rightarrow> 'k adns_lib \<Rightarrow> bool" where
  "adns_init_law Q L \<longleftrightarrow> (\<forall>flags w state w'. adns_init L flags w = ((0, state), w') \<longrightarrow> Q (os w') = Map.empty)"

section \<open>Each step keeps the shared state consistent\<close>

context main_loop_contract
begin

lemma dispatch_op_ok:
  assumes ok: "core_ok dok Q st" and run: "on_dispatch m st = (r, st')"
    and law: "\<And>hs d w hs' d' w'. dok (hs, d, w) \<Longrightarrow> m (hs, d, w) = (r, (hs', d', w')) \<Longrightarrow>
      dok (hs', d', w') \<and> Q (os w') = Q (os w) \<and>
      (\<forall>s \<in> set (registered_sockets (core_dns st)). map_of hs s \<noteq> None \<longrightarrow> map_of hs' s \<noteq> None)"
  shows "core_ok dok Q st'"
proof -
  obtain hs d w where st: "core_dispatch st = (hs, d, w)" by (cases "core_dispatch st")
  obtain hs' d' w' where m: "m (hs, d, w) = (r, (hs', d', w'))" and st': "st' = st\<lparr>core_dispatch := (hs', d', w')\<rparr>"
    using run st by (auto simp: on_dispatch_def split: prod.splits)
  have "dok (hs, d, w)" using ok st by (simp add: core_ok_def)
  from law [OF this m] ok st show ?thesis unfolding st' by (intro core_ok_dispatch) (auto simp: core_ok_def)
qed

lemma construct_ok:
  assumes "core_ok dok Q st" and "on_dispatch (dispatch_socket_construct M s f ev) st = (r, st')" and r: "settled r"
  shows "core_ok dok Q st'"
proof (rule dispatch_op_ok [OF assms(1,2)], goal_cases)
  case (1 hs d w hs' d' w')
  from construct_law [OF 1 r] show ?case by (cases r) auto
qed

lemma modify_ok:
  assumes "core_ok dok Q st" and "on_dispatch (dispatch_modify M s f ev) st = (r, st')" and r: "settled r"
  shows "core_ok dok Q st'"
proof (rule dispatch_op_ok [OF assms(1,2)], goal_cases)
  case (1 hs d w hs' d' w')
  note law = modify_law [OF 1 r]
  then have "map_of hs' t \<noteq> None" if "map_of hs t \<noteq> None" for t using that by (metis domIff)
  with law show ?case by blast
qed

lemma assign_ok:
  assumes "core_ok dok Q st" and "on_dispatch (dispatch_modify_handler s f) st = (r, st')" and r: "settled r"
  shows "core_ok dok Q st'"
proof (rule dispatch_op_ok [OF assms(1,2)], goal_cases)
  case (1 hs d w hs' d' w')
  note law = assign_law [OF 1 r]
  then have "map_of hs' t \<noteq> None" if "map_of hs t \<noteq> None" for t using that by (metis domIff)
  with law show ?case by blast
qed

lemma destroy_ok:
  assumes "core_ok dok Q st" and "on_dispatch (dispatch_socket_destruct M sk) st = (r, st')" and r: "settled r"
    and "sock sk \<notin> set (registered_sockets (core_dns st))"
  shows "core_ok dok Q st'"
proof (rule dispatch_op_ok [OF assms(1,2)], goal_cases)
  case (1 hs d w hs' d' w')
  from close_law [OF 1 r] assms(4) show ?case by auto
qed

lemma submission_core_ok:
  assumes law: "adns_submit_law Q L" and ok: "core_ok dok Q st" and eff: "submit_effect Q sub (callback_type f)"
    and quiet: "\<And>w r w'. sub w = (r, w') \<Longrightarrow> same (os w) (os w')"
    and run: "submission L sub ctx f st = (r, st')"
  shows "core_ok dok Q st'"
proof -
  obtain rc qid w' where call: "sub (the_world st) = ((rc, qid), w')" by (metis surj_pair)
  note lib = eff [unfolded submit_effect_def, rule_format, OF call]
  have keys: "\<forall>w. set (adns_queries L w) = dom (Q (os w))" using law by (simp add: adns_submit_law_def)
  have d: "dns_ok Q st" using ok by (simp add: core_ok_def)
  from submission_ok [where sub = sub and L = L and ctx = ctx and f = f and Q = Q, OF keys d call lib]
  obtain r0 qs where eq: "submission L sub ctx f st = (r0, (with_world w' st)\<lparr>core_dns := (core_dns st)\<lparr>queries := qs\<rparr>\<rparr>)"
    and d': "dns_ok Q ((with_world w' st)\<lparr>core_dns := (core_dns st)\<lparr>queries := qs\<rparr>\<rparr>)" by blast
  from arg_cong [OF trans [OF sym [OF run] eq], of snd]
  have st': "st' = (with_world w' st)\<lparr>core_dns := (core_dns st)\<lparr>queries := qs\<rparr>\<rparr>" by (simp only: snd_conv)
  obtain hs e w where st: "core_dispatch st = (hs, e, w)" by (cases "core_dispatch st")
  have "dok (hs, e, w')" using other_law [of hs e w w'] quiet [OF call] ok st by (simp add: core_ok_def)
  with ok d' st show ?thesis unfolding st' core_ok_def by simp
qed

lemma query_core_ok:
  assumes law: "adns_submit_law Q L" "adns_quiet_law same Q L" and ok: "core_ok dok Q st"
    and m: "m \<in> {query_a L owner h, query_a_no_cname L owner h, query_mx L owner h, query_ptr L owner h, query_ptr_address L addr h}"
    and run: "m st = (r, st')" and r: "settled r"
  shows "core_ok dok Q st'"
proof (cases "h = None \<and> m \<noteq> query_ptr_address L addr h")
  case True
  with m run have "r = Inl Assertion_failed"
    by (auto simp: query_a_def query_a_no_cname_def query_mx_def query_ptr_def op_defs)
  with r show ?thesis by (simp add: settled_def)
next
  case False
  with m have "\<exists>g. m \<in> {query_a L owner (Some g), query_a_no_cname L owner (Some g), query_mx L owner (Some g),
      query_ptr L owner (Some g), query_ptr_address L addr h}"
    by (cases h) auto
  then obtain g where g: "m \<in> {query_a L owner (Some g), query_a_no_cname L owner (Some g), query_mx L owner (Some g),
      query_ptr L owner (Some g), query_ptr_address L addr h}" ..
  from query_submission [OF law(1) g] obtain sub ctx f where m: "m = submission L sub ctx f" and
    eff: "submit_effect Q sub (callback_type f)" and
    sub: "(\<exists>owner rrt flags. sub = adns_submit L owner rrt flags) \<or> (\<exists>addr rrt flags. sub = adns_submit_reverse L addr rrt flags)"
    by (elim exE conjE)
  have quiet: "same (os w) (os w')" if "sub w = (r, w')" for w r w'
    using sub law(2) [unfolded adns_quiet_law_def] that by (elim disjE exE) (simp_all del: split_paired_All)
  show ?thesis by (rule submission_core_ok [OF law(1) ok eff quiet run [unfolded m]])
qed

lemma schedule_op_ok:
  assumes "core_ok dok Q st" and "on_schedule m st = (r, st')" and "\<And>s. schedule_wf s \<Longrightarrow> schedule_wf (snd (m s))"
  shows "core_ok dok Q st'"
proof -
  obtain s where m: "m (core_schedule st) = (r, s)" and st': "st' = st\<lparr>core_schedule := s\<rparr>"
    using assms(2) by (auto simp: on_schedule_def split: prod.splits)
  have "schedule_wf s" using assms(3) [of "core_schedule st"] assms(1) m by (simp add: core_ok_def)
  with assms(1) show ?thesis unfolding st' by (rule core_ok_schedule)
qed

lemma other_ok:
  assumes "core_ok dok Q st" and "same (os (the_world st)) (os w')" and "Q (os w') = Q (os (the_world st))"
  shows "core_ok dok Q (with_world w' st)"
proof -
  obtain hs d w where st: "core_dispatch st = (hs, d, w)" by (cases "core_dispatch st")
  have "dok (hs, d, w')" using other_law [of hs d w w'] assms(1,2) st by (simp add: core_ok_def)
  from core_ok_dispatch [OF assms(1) this assms(3)] assms(1) st show ?thesis by (simp add: core_ok_def)
qed

lemma clock_ok:
  assumes clock: "clock_law same Q gtod" and run: "time_update gtod (now, w) = (r, (now', w'))"
  shows "same (os w) (os w') \<and> Q (os w') = Q (os w)"
proof -
  obtain x where call: "throw_errno_if (\<lambda>r _. -1 = fst r) ''gettimeofday(2)'' gtod w = (x, w')"
    using run by (auto simp: time_update_def bind_op_def on_snd_def on_fst_def modify_op_def split: prod.splits sum.splits)
  have step: "same (os w) (os (snd (gtod v))) \<and> Q (os (snd (gtod v))) = Q (os w)"
    if "same (os w) (os v) \<and> Q (os v) = Q (os w)" for v
    using clock [unfolded clock_law_def, rule_format, of v "fst (gtod v)" "snd (gtod v)"] that same_trans by auto
  from throw_errno_if_invariant [where I = "\<lambda>v. same (os w) (os v) \<and> Q (os v) = Q (os w)", OF step call] same_refl
  show ?thesis by blast
qed

lemma wait_ok:
  assumes clock: "clock_law same Q gtod" and ok: "core_ok dok Q st" and run: "core_wait M gtod timeout st = (r, st')" and r: "settled r"
  shows "core_ok dok Q st'"
proof -
  obtain r0 st0 where disp: "on_dispatch (dispatch_wait M timeout) st = (r0, st0)" by (metis surj_pair)
  have ok0: "core_ok dok Q st0" if "settled r0"
  proof (rule dispatch_op_ok [OF ok disp], goal_cases)
    case (1 hs d w hs' d' w')
    then show ?case using wait_law [of hs d w timeout r0 d' w'] that by (auto simp: dispatch_wait_def on_snd_def split: prod.splits)
  qed
  show ?thesis
  proof (cases r0)
    case (Inl e)
    with run disp have "r = Inl e" "st' = st0" by (simp_all add: core_wait_def then_op_def bind_op_def)
    with ok0 r Inl show ?thesis by (simp add: settled_def)
  next
    case (Inr u)
    obtain r1 now w' where t: "time_update gtod (core_now st0, the_world st0) = (r1, now, w')" by (metis surj_pair)
    with run disp Inr have
      "st' = st0\<lparr>core_now := now, core_dispatch := (fst (core_dispatch st0), (fst (snd (core_dispatch st0)), w'))\<rparr>"
      by (simp add: core_wait_def then_op_def bind_op_def)
    then have st': "st' = (with_world w' st0)\<lparr>core_now := now\<rparr>" by simp
    have "core_ok dok Q (with_world w' st0)"
      using clock_ok [OF clock t] ok0 Inr by (intro other_ok) (simp_all add: settled_def)
    then show ?thesis unfolding st' by (simp add: core_ok_def dns_ok_def)
  qed
qed

lemma construct_core_ok:
  assumes law: "adns_quiet_law same Q L" "adns_init_law Q L"
    and new: "\<And>w0 d w. dnew w0 = (Inr d, w) \<Longrightarrow> dok ([], d, w)"
    and run: "core_construct gtod dnew ddel L w0 = (Inr st, w)"
  shows "core_ok dok Q st"
proof -
  from run obtain now w1 d w2 dns where d: "dnew w1 = (Inr d, w2)" and dns: "unwind_op (adns_construct L) (ddel d) w2 = (Inr dns, w)"
    and st: "st = \<lparr>core_now = now, core_schedule = schedule_init, core_dispatch = ([], (d, w)), core_dns = dns\<rparr>"
    unfolding core_construct_def by (elim bind_op_InrE) auto
  from dns have "adns_construct L w2 = (Inr dns, w)"
    by (auto simp: unwind_op_def split: prod.splits sum.splits if_splits)
  then obtain state where init: "adns_init L (adns_flags L) w2 = ((0, state), w)" and dns: "queries dns = []" "registered_sockets dns = []"
    by (auto simp: adns_construct_def lib_call_def op_defs throw_rc_if_not_zero_def split: prod.splits sum.splits if_splits)
  have "same (os w2) (os w)" by (rule law(1) [unfolded adns_quiet_law_def, THEN conjunct1, rule_format, OF init])
  with new [OF d] have "dok ([], d, w)" by (rule other_law)
  moreover have "Q (os w) = Map.empty" using law(2) init unfolding adns_init_law_def by blast
  ultimately show ?thesis using dns by (auto simp: st core_ok_def dns_ok_def schedule_wf_init)
qed

end

section \<open>Every reachable state is consistent\<close>

lemma library_op_ok:
  fixes st :: "('f core_task, 'h core_handler, 'd, 'u, 'k) core_state"
  assumes C: "main_loop_contract M dok same Q"
    and law: "adns_submit_law Q L" "adns_quiet_law same Q L" "clock_law same Q gtod"
    and other: "\<And>k k'. other k k' \<Longrightarrow> same k k' \<and> Q k' = Q k"
    and ok: "core_ok dok Q st" and step: "library_op M L gtod other st st'"
  shows "core_ok dok Q st'"
  using step
proof cases
  case (op_wait timeout r)
  show ?thesis by (rule main_loop_contract.wait_ok [OF C law(3) ok op_wait])
next
  case (op_at ts f r)
  show ?thesis by (rule main_loop_contract.schedule_op_ok [OF C ok op_at(1) schedule_at_wf])
next
  case (op_in to f r)
  show ?thesis by (rule main_loop_contract.schedule_op_ok [OF C ok op_in(1) schedule_in_wf])
next
  case (op_cancel tid r)
  show ?thesis by (rule main_loop_contract.schedule_op_ok [OF C ok op_cancel(1) schedule_cancel_wf])
next
  case (op_timeout_new m ts f to r)
  then consider "on_schedule (schedule_at ts (App_task f)) st = (r, st')"
    | "on_schedule (schedule_in (current_time_t (core_now st)) to (App_task f)) st = (r, st')"
    by (auto simp: core_timeout_new_at_def core_timeout_new_in_def timeout_new_at_def timeout_new_in_def)
  then show ?thesis
    by cases (rule main_loop_contract.schedule_op_ok [OF C ok], assumption, erule schedule_at_wf schedule_in_wf)+
next
  case (op_timeout m ts f tid to r)
  have "schedule_wf (snd (m s))" if "schedule_wf s" for s
    using op_timeout(1) timeout_at_wf [OF that] timeout_in_wf [OF that] schedule_cancel_wf [OF that]
    by (cases tid) (auto simp: timeout_cancel_def)
  then show ?thesis by (rule main_loop_contract.schedule_op_ok [OF C ok op_timeout(2)])
next
  case (op_timeout_destroy tid r)
  have "schedule_wf (snd (timeout_destroy tid s))" if "schedule_wf s" for s
    using schedule_cancel_wf [OF that, of tid] by (auto simp: timeout_destroy_def op_defs split: prod.splits sum.splits)
  then show ?thesis by (rule main_loop_contract.schedule_op_ok [OF C ok op_timeout_destroy(1)])
next
  case (op_socket s h ev r)
  show ?thesis by (rule main_loop_contract.construct_ok [OF C ok op_socket(1) [unfolded core_socket_construct_def] op_socket(2)])
next
  case (op_modify s h ev r)
  show ?thesis by (rule main_loop_contract.modify_ok [OF C ok op_modify])
next
  case (op_handler s h r)
  show ?thesis by (rule main_loop_contract.assign_ok [OF C ok op_handler])
next
  case (op_request s ev r)
  from ensures_outcome [OF demux_contract.request_ensures [OF main_loop_contract.axioms(1) [OF C]] ok op_request(1)] op_request(2)
  show ?thesis by (rule settled_outcome)
next
  case (op_destroy sk r)
  show ?thesis by (rule main_loop_contract.destroy_ok [OF C ok op_destroy])
next
  case (op_query m owner h addr r)
  show ?thesis by (rule main_loop_contract.query_core_ok [OF C law(1,2) ok op_query])
next
  case (op_other w')
  show ?thesis unfolding op_other(1)
    by (rule main_loop_contract.other_ok [OF C ok]) (use other [OF op_other(2)] in blast)+
qed

lemma acts_ensures:
  assumes step: "\<And>s t. J s \<Longrightarrow> step s t \<Longrightarrow> J t" and p: "acts step p"
  shows "p_ensures J (or_aborts J) p"
proof -
  have many: "step\<^sup>*\<^sup>* s t \<Longrightarrow> J s \<Longrightarrow> J t" for s t by (induction rule: rtranclp_induct) (auto dest: step)
  have J: "J t" if "J s" "p s = Some (r, t)" "settled r" for s r t
    using many [OF _ that(1)] p that(2,3) unfolding acts_def by blast
  show ?thesis
  proof (rule p_ensuresI)
    show "or_aborts J e t" if "J s" "p s = Some (Inl e, t)" for s e t
      using J [OF that] by (simp add: or_aborts_def settled_def)
    show "J t" if "J s" "p s = Some (Inr a, t)" for s a t
      using J [OF that] by (simp add: settled_def)
  qed
qed

lemma program_reaches_ok:
  fixes st :: "('f core_task, 'h core_handler, 'd, 'u, 'k) core_state"
  assumes C: "main_loop_contract M dok same Q"
    and law: "adns_submit_law Q L" "adns_quiet_law same Q L" "clock_law same Q gtod" "adns_check_law Q L" "adns_init_law Q L"
    and other: "\<And>k k'. other k k' \<Longrightarrow> same k k' \<and> Q k' = Q k"
    and new: "\<And>w0 d w. dnew w0 = (Inr d, w) \<Longrightarrow> dok ([], d, w)"
    and app: "\<And>h ev. acts (library_op M L gtod other) (h_app h ev)" "\<And>f. acts (library_op M L gtod other) (t_app f)"
      "\<And>u x. acts (library_op M L gtod other) (u_call u x)"
    and reach: "program_reaches M L gtod other h_app t_app u_call dnew ddel st"
  shows "core_ok dok Q st"
  using reach
proof induction
  case (reach_start w0 st w)
  show ?case by (rule main_loop_contract.construct_core_ok [OF C law(2,5) _ reach_start]) (rule new)
next
  case (reach_run st r st')
  have ens: "p_ensures (core_ok dok Q) (or_aborts (core_ok dok Q)) p" if "acts (library_op M L gtod other) p"
    for p :: "(('f core_task, 'h core_handler, 'd, 'u, 'k) core_state, unit) prog"
  proof (rule acts_ensures [OF _ that])
    show "core_ok dok Q t" if "core_ok dok Q s" "library_op M L gtod other s t"
      for s t :: "('f core_task, 'h core_handler, 'd, 'u, 'k) core_state"
      by (rule library_op_ok [OF C law(1-3) _ that]) (rule other)
  qed
  have "p_ensures (core_ok dok Q) (or_aborts (core_ok dok Q)) (core_program_run M L h_app t_app u_call)"
    by (rule program_run_ensures [OF main_loop_contract.axioms(1) [OF C] law(4,2)]) (intro ens app)+
  from p_ensures_Some [OF this reach_run(4,2)] reach_run(3) show ?case by (rule settled_outcome)
next
  case (reach_op st st')
  show ?case by (rule library_op_ok [OF C law(1-3) _ reach_op(3,2)]) (rule other)
qed

end
