(* ===== verification/Epoll_Table.thy ===== *)
theory Epoll_Table
  imports Ioxx_Dispatch
begin

text \<open>
  The table of watched sockets on \<open>epoll(7)\<close>, which is the kernel's: what the operations of
  \<open>detail/epoll.hpp\<close> do to it however they end, and the dispatcher of \<open>dispatch.hpp\<close> on top of it as one
  table of sockets.
\<close>

section \<open>Laws of the kernel\<close>

text \<open>\<open>epoll_ctl\<close> finds the sockets that are watched; after \<open>close\<close> a descriptor is not watched; a new
  instance watches nothing.\<close>

definition epoll_table_law :: "'k kernel_view \<Rightarrow> 'k epoll_os \<Rightarrow> bool" where
  "epoll_table_law V E \<longleftrightarrow>
     (\<forall>ep s e w rc w'. sys_epoll_ctl E ep EPOLL_CTL_MOD s e w = (rc, w') \<longrightarrow> watched V (os w) ep s = None \<longrightarrow> rc \<noteq> 0) \<and>
     (\<forall>ep s e w rc w'. sys_epoll_ctl E ep EPOLL_CTL_DEL s e w = (rc, w') \<longrightarrow> watched V (os w) ep s \<noteq> None \<longrightarrow> rc = 0)"

definition close_unwatches_law :: "'k kernel_view \<Rightarrow> 'k sock_os \<Rightarrow> bool" where
  "close_unwatches_law V P \<longleftrightarrow> (\<forall>s w rc w'. sys_close P s w = (rc, w') \<longrightarrow>
     watched V (os w') = (\<lambda>ep. (watched V (os w) ep)(s := None)))"

definition epoll_create_law :: "'k kernel_view \<Rightarrow> 'k epoll_os \<Rightarrow> bool" where
  "epoll_create_law V E \<longleftrightarrow> (\<forall>n w fd w'. sys_epoll_create E n w = (fd, w') \<longrightarrow> fd \<noteq> -1 \<longrightarrow> watched V (os w') fd = Map.empty)"

section \<open>What the operations do to the table\<close>

lemma epoll_construct_fresh:
  assumes law: "epoll_create_law V E" and run: "epoll_construct E hint w = (Inr d, w')"
  shows "watched V (os w') (epoll_fd d) = Map.empty"
proof -
  obtain n where c: "throw_errno_if_minus1 ''create epoll socket'' (sys_epoll_create E n) w = (Inr (epoll_fd d), w')"
    using run by (auto simp: epoll_construct_def Let_def ret_def elim!: bind_op_InrE)
  obtain w0 where c0: "sys_epoll_create E n w0 = (epoll_fd d, w')"
    using throw_errno_if_from_call [OF c [unfolded throw_errno_if_minus1_def]] by blast
  have "epoll_fd d \<noteq> -1" using throw_errno_if_Inr [OF c [unfolded throw_errno_if_minus1_def]] by simp
  with law [unfolded epoll_create_law_def, rule_format, OF c0] show ?thesis by simp
qed

lemma close_unwatches:
  assumes "close_unwatches_law V P" and run: "system_socket_destruct P sk w = (r, w')" and c: "close_flag sk"
  shows "watched V (os w') = (\<lambda>ep. (watched V (os w) ep)(sock sk := None))"
proof -
  let ?R = "\<lambda>w w'. watched V (os w') = (\<lambda>ep. (watched V (os w) ep)(sock sk := None))"
  obtain x where "throw_errno_if (\<lambda>r _. -1 = r) ''close(2)'' (sys_close P (sock sk)) w = (x, w')"
    using run c
    by (auto simp: system_socket_destruct_def throw_errno_if_minus1_def bind_op_def ret_def split: prod.splits sum.splits)
  then show ?thesis
  proof (rule throw_errno_if_relates [where R = ?R, rotated 2])
    show "?R u (snd (sys_close P (sock sk) u))" for u
      using assms(1) unfolding close_unwatches_law_def by (metis prod.collapse)
  qed auto
qed

lemma epoll_ctl_result:
  assumes law: "epoll_ctl_law V E" and run: "throw_errno_if_minus1 msg (sys_epoll_ctl E ep cmd s e) w = (r, w')"
  shows "(\<exists>rc. r = Inr rc) \<and> watched V (os w') = (watched V (os w))(ep := (watched V (os w) ep)(s := watch_update cmd e)) \<and>
      fst (sys_epoll_ctl E ep cmd s e w) = 0 \<or>
    (\<exists>x. r = Inl x \<and> is_exception x) \<and> watched V (os w') = watched V (os w) \<and> fst (sys_epoll_ctl E ep cmd s e w) \<noteq> 0"
proof -
  obtain rc v where c: "sys_epoll_ctl E ep cmd s e w = (rc, v)" by (cases "sys_epoll_ctl E ep cmd s e w")
  from law [unfolded epoll_ctl_law_def, rule_format, OF c] show ?thesis
    using run c by (auto simp: op_simps)
qed

lemma epoll_request_table:
  assumes law: "epoll_ctl_law V E" "epoll_table_law V E" and run: "epoll_request E s ev (d, w) = (r, (d', w'))"
  shows "d' = d \<and> dom (watched V (os w') (epoll_fd d)) = dom (watched V (os w) (epoll_fd d))"
proof -
  let ?f = "sys_epoll_ctl E (epoll_fd d) EPOLL_CTL_MOD s \<lparr>ev_events = ev, ev_fd = s\<rparr>"
  obtain x w0 where c: "throw_errno_if_minus1 ''modify socket in epoll'' ?f w = (x, w0)" by (metis surj_pair)
  from run c have d: "d' = d \<and> w' = w0"
    by (cases x) (simp_all add: epoll_request_def on_snd_def bind_op_def ret_def)
  have "watched V (os w) (epoll_fd d) s \<noteq> None" if "fst (?f w) = 0"
    using law(2) that unfolding epoll_table_law_def by (metis prod.collapse)
  with epoll_ctl_result [OF law(1) c] d show ?thesis
    by (auto simp: watch_update_def EPOLL_CTL_MOD_def EPOLL_CTL_DEL_def split: if_splits)
qed

lemma epoll_destruct_table:
  assumes law: "epoll_ctl_law V E" "epoll_table_law V E" "close_unwatches_law V P"
    and run: "epoll_socket_destruct P E sk (d, w) = (r, (d', w'))"
  shows "d' = d \<and> watched V (os w') (epoll_fd d) = (watched V (os w) (epoll_fd d))(sock sk := None)"
proof (cases "close_flag sk")
  case True
  obtain r0 w0 where c: "system_socket_destruct P sk w = (r0, w0)" by (cases "system_socket_destruct P sk w")
  with run True have "d' = d \<and> w' = w0"
    by (cases r0) (auto simp: epoll_socket_destruct_def epoll_unregister_def get_close_on_destruction_def with_dtor_def on_snd_def ret_def)
  with close_unwatches [OF law(3) c True] show ?thesis by simp
next
  case False
  let ?f = "sys_epoll_ctl E (epoll_fd d) EPOLL_CTL_DEL (sock sk) \<lparr>ev_events = 0, ev_fd = sock sk\<rparr>"
  obtain x w0 where c: "throw_errno_if_minus1 ''del socket from epoll'' ?f w = (x, w0)" by (metis surj_pair)
  have none: "system_socket_destruct P sk u = (Inr (), u)" for u
    using False by (simp add: system_socket_destruct_def ret_def)
  from run False c have d: "d' = d \<and> w' = w0"
    by (cases x)
      (auto simp: epoll_socket_destruct_def epoll_unregister_def get_close_on_destruction_def with_dtor_def on_snd_def
        bind_op_def ret_def none split: if_splits)
  have "watched V (os w) (epoll_fd d) (sock sk) = None" if "fst (?f w) \<noteq> 0"
    using law(2) that unfolding epoll_table_law_def by (metis prod.collapse)
  with epoll_ctl_result [OF law(1) c] d show ?thesis by (auto simp: watch_update_def)
qed

lemma epoll_construct_table:
  assumes law: "epoll_ctl_law V E" "close_unwatches_law V P"
    and run: "epoll_socket_construct P E s ev (d, w) = (r, (d', w'))"
  shows "d' = d \<and> (case r of
      Inr sk \<Rightarrow> sk = \<lparr>sock = s, close_flag = True\<rparr> \<and> watched V (os w') (epoll_fd d) = (watched V (os w) (epoll_fd d))(s \<mapsto> ev)
    | Inl _ \<Rightarrow> \<forall>t. watched V (os w') (epoll_fd d) t \<noteq> None \<longrightarrow> watched V (os w) (epoll_fd d) t \<noteq> None)"
proof (cases "0 \<le> s")
  case False
  with run have "\<exists>e. r = Inl e \<and> d' = d \<and> w' = w"
    by (auto simp: epoll_socket_construct_def system_socket_construct_def bind_op_def)
  then show ?thesis by auto
next
  case True
  let ?f = "sys_epoll_ctl E (epoll_fd d) EPOLL_CTL_ADD s \<lparr>ev_events = ev, ev_fd = s\<rparr>" and ?sk = "\<lparr>sock = s, close_flag = True\<rparr>"
  obtain x w0 where c: "throw_errno_if_minus1 ''add socket into epoll'' ?f w = (x, w0)" by (metis surj_pair)
  have reg: "epoll_register E s ev (d, w) = (map_sum id (\<lambda>_. ()) x, (d, w0))"
    using True c by (cases x) (auto simp: epoll_register_def on_snd_def op_defs)
  have sk: "system_socket_construct s take_ownership st = (Inr ?sk, st)" for st
    using True by (simp add: system_socket_construct_def)
  from epoll_ctl_result [OF law(1) c] show ?thesis
  proof
    assume *: "(\<exists>rc. x = Inr rc) \<and> watched V (os w0) = (watched V (os w))(epoll_fd d := (watched V (os w) (epoll_fd d))(s := watch_update EPOLL_CTL_ADD \<lparr>ev_events = ev, ev_fd = s\<rparr>)) \<and> fst (?f w) = 0"
    then have "r = Inr ?sk \<and> d' = d \<and> w' = w0"
      using run by (auto simp: epoll_socket_construct_def reg unwind_op_def then_op_def bind_op_def sk ret_def)
    with * show ?thesis by (simp add: watch_update_def EPOLL_CTL_ADD_def EPOLL_CTL_DEL_def)
  next
    assume *: "(\<exists>y. x = Inl y \<and> is_exception y) \<and> watched V (os w0) = watched V (os w) \<and> fst (?f w) \<noteq> 0"
    obtain r1 w1 where cl: "system_socket_destruct P ?sk w0 = (r1, w1)" by (metis surj_pair)
    have "\<exists>e. r = Inl e \<and> d' = d \<and> w' = w1"
      using run * by (cases r1) (auto simp: epoll_socket_construct_def reg unwind_op_def then_op_def bind_op_def sk on_snd_def cl)
    with close_unwatches [OF law(2) cl] * show ?thesis by (auto split: if_splits)
  qed
qed

section \<open>The dispatcher's table\<close>

abbreviation de_add where
  "de_add M s fe \<equiv> bind_op (dispatch_socket_construct M s (fst fe) (snd fe)) (\<lambda>_. ret ())"

abbreviation de_change where
  "de_change M s fe \<equiv> dispatch_modify M s (fst fe) (snd fe)"

definition de_interest :: "'k kernel_view \<Rightarrow> 'h handler_map \<times> epoll_demux \<times> 'k world \<Rightarrow> int \<rightharpoonup> 'h \<times> u32" where
  "de_interest V st s = (case (map_of (fst st) s, watched V (os (snd (snd st))) (epoll_fd (fst (snd st))) s) of
     (Some f, Some e) \<Rightarrow> Some (f, e) | _ \<Rightarrow> None)"

definition de_ok :: "'k kernel_view \<Rightarrow> epoll_demux \<Rightarrow> 'h handler_map \<times> epoll_demux \<times> 'k world \<Rightarrow> bool" where
  "de_ok V d0 st \<longleftrightarrow> fst (snd st) = d0 \<and> (\<forall>s. map_of (fst st) s = None \<longleftrightarrow> watched V (os (snd (snd st))) (epoll_fd (fst (snd st))) s = None)"

lemma de_interest_None:
  "de_ok V d (hs, d, w) \<Longrightarrow> de_interest V (hs, d, w) s = None \<longleftrightarrow> map_of hs s = None"
  "de_ok V d (hs, d, w) \<Longrightarrow> map_of hs s = None \<longleftrightarrow> watched V (os w) (epoll_fd d) s = None"
  by (auto simp: de_ok_def de_interest_def split: option.splits)

lemma de_update:
  assumes ok: "de_ok V d (hs, d, w)" and watch: "watched V (os w') (epoll_fd d) = (watched V (os w) (epoll_fd d))(s := e)"
    and hs: "map_of hs' = (map_of hs)(s := f)" and none: "f = None \<longleftrightarrow> e = None"
  shows "de_ok V d (hs', d, w')"
    and "de_interest V (hs', d, w') = (de_interest V (hs, d, w))(s := (case (f, e) of (Some f, Some e) \<Rightarrow> Some (f, e) | _ \<Rightarrow> None))"
proof -
  have "(map_of hs' t = None) = (watched V (os w') (epoll_fd d) t = None)" for t
    using de_interest_None(2) [OF ok, of t] watch hs none by simp
  then show "de_ok V d (hs', d, w')" by (simp add: de_ok_def)
  show "de_interest V (hs', d, w') = (de_interest V (hs, d, w))(s := (case (f, e) of (Some f, Some e) \<Rightarrow> Some (f, e) | _ \<Rightarrow> None))"
    using watch hs by (auto simp: fun_eq_iff de_interest_def)
qed

text \<open>How the kernel's refusals reach the program.\<close>

definition epoll_refusal :: "fault \<Rightarrow> bool" where
  "epoll_refusal x \<longleftrightarrow> (\<exists>e. x = System_error e ''add socket into epoll'' \<or> x = System_error e ''modify socket in epoll'')"

text \<open>Constructing a socket on an open descriptor: it is watched, or the kernel refused and the
  descriptor is closed again.\<close>

lemma epoll_construct_cases:
  assumes ctl: "epoll_ctl_law V E" and cl: "close_law V P" and s: "0 \<le> s" "s \<in> open_fds V (os w)"
  obtains w' where "epoll_socket_construct P E s ev (d, w) = (Inr \<lparr>sock = s, close_flag = True\<rparr>, (d, w'))"
      "open_fds V (os w') = open_fds V (os w)"
      "watched V (os w') = (watched V (os w))(epoll_fd d := (watched V (os w) (epoll_fd d))(s \<mapsto> ev))"
  | e w' where "epoll_socket_construct P E s ev (d, w) = (Inl (System_error e ''add socket into epoll''), (d, w'))"
      "open_fds V (os w') = open_fds V (os w) - {s}" "watched V (os w') = (\<lambda>ep. (watched V (os w) ep)(s := None))"
proof -
  let ?sk = "\<lparr>sock = s, close_flag = True\<rparr>" and ?ev = "\<lparr>ev_events = ev, ev_fd = s\<rparr>"
  have sk: "system_socket_construct s take_ownership (d, w) = (Inr ?sk, (d, w))"
    using s by (simp add: system_socket_construct_def)
  show thesis
  proof (rule epoll_ctl_cases [OF ctl, of "''add socket into epoll''" "epoll_fd d" EPOLL_CTL_ADD s ?ev w], goal_cases)
    case (1 w')
    then have "epoll_socket_construct P E s ev (d, w) = (Inr ?sk, (d, w'))"
      using s sk by (simp add: epoll_socket_construct_def epoll_register_def op_simps)
    with 1 that(1) [of w'] show thesis by (simp add: watch_update_def EPOLL_CTL_ADD_def EPOLL_CTL_DEL_def)
  next
    case (2 w')
    have "sock ?sk \<in> open_fds V (os w')" using s 2 by simp
    from close_cases [OF cl this] obtain w'' where
      w'': "system_socket_destruct P ?sk w' = (Inr (), w'')" "open_fds V (os w'') = open_fds V (os w') - {s}"
      "watched V (os w'') = (\<lambda>ep. (watched V (os w') ep)(s := None))" by auto
    then have "epoll_socket_construct P E s ev (d, w) =
        (Inl (System_error (errno w') ''add socket into epoll''), (d, w''))"
      using s sk 2 by (simp add: epoll_socket_construct_def epoll_register_def op_simps unwind_op_def)
    with that(2) [of "errno w'" w''] 2 w'' show thesis by simp
  qed
qed

lemma de_add_tried:
  fixes hs :: "'h handler_map"
  assumes ctl: "epoll_ctl_law V E" and cl: "close_law V P" and fds: "new_fd_law V new"
    and ok: "de_ok V d (hs, d, w)" and ho: "handled_open V (hs, d, w)" and s: "0 \<le> s" "map_of hs s = None"
  shows "\<exists>r st'. with_new_fd new s (de_add (epoll_ops P hv spm E) s (f, e)) (hs, d, w) = (r, st') \<and>
    (de_ok V d st' \<and> handled_open V st') \<and>
    after_trying epoll_refusal r (de_interest V (hs, d, w)) ((de_interest V (hs, d, w))(s \<mapsto> (f, e))) (de_interest V st')"
proof -
  let ?w = "new s w"
  have w: "open_fds V (os ?w) = insert s (open_fds V (os w))" "watched V (os ?w) = watched V (os w)"
    using fds by (simp_all add: new_fd_law_def)
  have un: "watched V (os w) (epoll_fd d) s = None" using de_interest_None(2) [OF ok, of s] s(2) by simp
  have put: "map_of (AList.update s f hs) = (map_of hs)(s := Some f)" by (simp add: update_conv')
  have keep: "map_of hs = (map_of hs)(s := None)" using s(2) by auto
  have sw: "s \<in> open_fds V (os ?w)" by (simp add: w)
  show ?thesis
  proof (rule epoll_construct_cases [OF ctl cl s(1) sw, of e d], goal_cases)
    case (1 w')
    note c = 1
    then have run: "de_add (epoll_ops P hv spm E) s (f, e) (hs, d, ?w) = (Inr (), (AList.update s f hs, d, w'))"
      using s by (simp add: dispatch_socket_construct_def epoll_ops_def handlers_insert_def op_simps)
    have wt: "watched V (os w') (epoll_fd d) = (watched V (os w) (epoll_fd d))(s := Some e)" using c(3) w by simp
    have "handled_open V (AList.update s f hs, d, w')"
      by (rule handled_open_update [OF ho put]) (use c(2) w in auto)
    with run de_update [OF ok wt put] show ?thesis by (simp add: after_trying_def)
  next
    case (2 x w')
    note c = 2
    then have run: "de_add (epoll_ops P hv spm E) s (f, e) (hs, d, ?w)
        = (Inl (System_error x ''add socket into epoll''), (hs, d, w'))"
      by (simp add: dispatch_socket_construct_def epoll_ops_def op_simps)
    have wt: "watched V (os w') (epoll_fd d) = (watched V (os w) (epoll_fd d))(s := None)" using c(3) w by simp
    have "handled_open V (hs, d, w')"
      by (rule handled_open_update [OF ho keep]) (use c(2) w in auto)
    moreover have "(de_interest V (hs, d, w))(s := None) = de_interest V (hs, d, w)"
      using de_interest_None(1) [OF ok, of s] s(2) by auto
    ultimately show ?thesis
      using run de_update [OF ok wt keep] by (simp add: after_trying_def epoll_refusal_def)
  qed
qed

lemma de_change_tried:
  fixes hs :: "'h handler_map"
  assumes ctl: "epoll_ctl_law V E" and ok: "de_ok V d (hs, d, w)" and ho: "handled_open V (hs, d, w)"
    and s: "map_of hs s \<noteq> None"
  shows "\<exists>r st'. de_change (epoll_ops P hv spm E) s (f, e) (hs, d, w) = (r, st') \<and> (de_ok V d st' \<and> handled_open V st') \<and>
    after_trying epoll_refusal r (de_interest V (hs, d, w)) ((de_interest V (hs, d, w))(s \<mapsto> (f, e))) (de_interest V st')"
proof (rule epoll_ctl_cases [OF ctl, of "''modify socket in epoll''" "epoll_fd d" EPOLL_CTL_MOD s "\<lparr>ev_events = e, ev_fd = s\<rparr>" w],
    goal_cases)
  case (1 w')
  have put: "map_of (AList.update s f hs) = (map_of hs)(s := Some f)" by (simp add: update_conv')
  have run: "de_change (epoll_ops P hv spm E) s (f, e) (hs, d, w) = (Inr (), (AList.update s f hs, d, w'))"
    using 1(1) s by (simp add: dispatch_modify_def epoll_ops_def epoll_request_def handlers_assign_def op_simps)
  have wt: "watched V (os w') (epoll_fd d) = (watched V (os w) (epoll_fd d))(s := Some e)"
    using 1(3) by (simp add: watch_update_def EPOLL_CTL_MOD_def EPOLL_CTL_DEL_def)
  have "handled_open V (AList.update s f hs, d, w')"
    by (rule handled_open_update [OF ho put]) (use 1(2) ho s in \<open>auto simp: handled_open_def\<close>)
  with run de_update [OF ok wt put] show ?case by (simp add: after_trying_def)
next
  case (2 w')
  have run: "de_change (epoll_ops P hv spm E) s (f, e) (hs, d, w)
      = (Inl (System_error (errno w') ''modify socket in epoll''), (hs, d, w'))"
    using 2(1) by (simp add: dispatch_modify_def epoll_ops_def epoll_request_def op_simps)
  have "de_ok V d (hs, d, w')" "handled_open V (hs, d, w')" "de_interest V (hs, d, w') = de_interest V (hs, d, w)"
    using ok ho 2(2,3) by (simp_all add: de_ok_def handled_open_def de_interest_def fun_eq_iff)
  with run show ?case by (simp add: after_trying_def epoll_refusal_def)
qed

lemma de_remove_done:
  fixes hs :: "'h handler_map"
  assumes cl: "close_law V P" and ok: "de_ok V d (hs, d, w)" and ho: "handled_open V (hs, d, w)" and s: "map_of hs s \<noteq> None"
  shows "\<exists>st'. dp_remove (epoll_ops P hv spm E) s (hs, d, w) = (Inr (), st') \<and> (de_ok V d st' \<and> handled_open V st') \<and>
    de_interest V st' = (de_interest V (hs, d, w))(s := None)"
proof -
  let ?sk = "\<lparr>sock = s, close_flag = True\<rparr>"
  have "sock ?sk \<in> open_fds V (os w)" using s ho by (simp add: handled_open_def)
  from close_cases [OF cl this] obtain w' where
    c: "system_socket_destruct P ?sk w = (Inr (), w')" "open_fds V (os w') = open_fds V (os w) - {s}"
    "watched V (os w') = (\<lambda>ep. (watched V (os w) ep)(s := None))" by auto
  have run: "dp_remove (epoll_ops P hv spm E) s (hs, d, w) = (Inr (), (AList.delete s hs, d, w'))"
    using c(1) s
    by (cases "map_of hs s") (simp_all add: dispatch_socket_destruct_def epoll_ops_def epoll_socket_destruct_def epoll_unregister_def
        get_close_on_destruction_def handlers_erase_def with_dtor_def on_fst_def on_snd_def ret_def)
  have del: "map_of (AList.delete s hs) = (map_of hs)(s := None)" by (simp add: delete_conv')
  have wt: "watched V (os w') (epoll_fd d) = (watched V (os w) (epoll_fd d))(s := None)" using c(3) by simp
  have "handled_open V (AList.delete s hs, d, w')"
    by (rule handled_open_update [OF ho del]) (use c(2) in auto)
  with run de_update [OF ok wt del] show ?thesis by simp
qed

lemma de_table:
  fixes P :: "'k sock_os" and V :: "'k kernel_view"
  assumes ctl: "epoll_ctl_law V E" and cl: "close_law V P" and fds: "new_fd_law V new"
  shows "fallible_table (\<lambda>s fe. with_new_fd new s (de_add (epoll_ops P hv spm E) s fe)) (de_change (epoll_ops P hv spm E))
    (dp_remove (epoll_ops P hv spm E)) (de_interest V) (\<lambda>st. de_ok V d0 st \<and> handled_open V st) epoll_refusal"
proof
  fix st :: "'h handler_map \<times> epoll_demux \<times> 'k world" and s and fe :: "'h \<times> u32"
  obtain hs d w f e where st: "st = (hs, d, w)" "fe = (f, e)" by (metis surj_pair)
  assume inv: "de_ok V d0 st \<and> handled_open V st"
  then have d: "d0 = d" and ok: "de_ok V d (hs, d, w)" and ho: "handled_open V (hs, d, w)" by (auto simp: st de_ok_def)
  note none = de_interest_None(1) [OF ok, of s]
  show "\<exists>r st'. with_new_fd new s (de_add (epoll_ops P hv spm E) s fe) st = (r, st') \<and> (de_ok V d0 st' \<and> handled_open V st') \<and>
      after_trying epoll_refusal r (de_interest V st) ((de_interest V st)(s \<mapsto> fe)) (de_interest V st')"
    if "0 \<le> s" "de_interest V st s = None"
    using de_add_tried [OF ctl cl fds ok ho, of s hv spm f e] that none by (simp add: st d)
  show "\<exists>r st'. de_change (epoll_ops P hv spm E) s fe st = (r, st') \<and> (de_ok V d0 st' \<and> handled_open V st') \<and>
      after_trying epoll_refusal r (de_interest V st) ((de_interest V st)(s \<mapsto> fe)) (de_interest V st')"
    if "de_interest V st s \<noteq> None"
    using de_change_tried [OF ctl ok ho, of s P hv spm f e] that none by (simp add: st d)
  show "\<exists>st'. dp_remove (epoll_ops P hv spm E) s st = (Inr (), st') \<and> (de_ok V d0 st' \<and> handled_open V st') \<and>
      de_interest V st' = (de_interest V st)(s := None)"
    if "de_interest V st s \<noteq> None"
    using de_remove_done [OF cl ok ho, of s hv spm E] that none by (simp add: st d)
qed

section \<open>Properties\<close>

text \<open>
  C11.  The dispatcher on \<open>epoll\<close>, with the kernel's table, is one table of sockets.  Take any sequence
  of socket constructions, modifications and destructions a program may make (it registers a
  descriptor it has just obtained and that has no handler yet, and modifies and destroys living
  sockets only), on a kernel where \<open>close(2)\<close> of an open descriptor closes it and \<open>epoll_ctl(2)\<close> may
  refuse any call, changing nothing then.  The sequence ends, or stops with the exception of the first
  construction or modification that \<open>epoll_ctl\<close> refused.  Either way, of the operations carried out
  before: the handler map has exactly one handler for each living socket, the last one given, the
  kernel watches exactly these sockets, each for the events last requested, their descriptors are
  open, and the dispatcher is empty exactly when no socket is left; a refused operation leaves no
  trace in either table.
\<close>

theorem dispatch_epoll_handlers_consistent:
  assumes ctl: "epoll_ctl_law V E" and create: "epoll_create_law V E" and cl: "close_law V P" and fds: "new_fd_law V new"
    and start: "epoll_construct E hint w0 = (Inr d, w)" and rs: "registrations_allowed rs {}"
  shows "\<exists>r carried hs w'. run_registrations (\<lambda>s fe. with_new_fd new s (de_add (epoll_ops P hv spm E) s fe))
        (de_change (epoll_ops P hv spm E)) (dp_remove (epoll_ops P hv spm E)) rs ([], (d, w)) = (r, (hs, (d, w'))) \<and>
      (case r of
         Inr _ \<Rightarrow> carried = rs
       | Inl x \<Rightarrow> epoll_refusal x \<and> (\<exists>q rest. rs = carried @ q # rest \<and> (\<forall>s. q \<noteq> Unregister s))) \<and>
      (\<forall>s. map_of hs s = map_option fst (registered carried Map.empty s)) \<and>
      (\<forall>s. watched V (os w') (epoll_fd d) s = map_option snd (registered carried Map.empty s)) \<and>
      (\<forall>s. registered carried Map.empty s \<noteq> None \<longrightarrow> s \<in> open_fds V (os w')) \<and>
      (dispatch_empty (hs, (d, w')) \<longleftrightarrow> registered carried Map.empty = Map.empty)"
proof -
  note table = de_table [OF ctl cl fds, of hv spm d]
  note fresh = epoll_construct_fresh [OF create start]
  have ok: "de_ok V d ([], (d, w)) \<and> handled_open V ([], (d, w))" and none: "de_interest V ([], (d, w)) = Map.empty"
    using fresh by (auto simp: de_ok_def de_interest_def handled_open_def)
  from fallible_table.run_registrations_prefix [OF table ok, of rs] rs obtain r carried hs d' w' where
    run: "run_registrations (\<lambda>s fe. with_new_fd new s (de_add (epoll_ops P hv spm E) s fe)) (de_change (epoll_ops P hv spm E))
        (dp_remove (epoll_ops P hv spm E)) rs ([], (d, w)) = (r, (hs, (d', w')))"
    and ok0: "de_ok V d (hs, (d', w'))" and ho: "handled_open V (hs, (d', w'))"
    and ended: "ended_at epoll_refusal r carried rs" and i: "de_interest V (hs, (d', w')) = registered carried Map.empty"
    unfolding none by (auto simp: prod_eq_iff)
  have d': "d' = d" and ok': "de_ok V d (hs, (d, w'))" using ok0 by (auto simp: de_ok_def)
  have h: "map_of hs s = map_option fst (registered carried Map.empty s)"
      "watched V (os w') (epoll_fd d) s = map_option snd (registered carried Map.empty s)" for s
    using de_interest_None [OF ok', of s] by (auto simp: de_interest_def d' simp flip: i split: option.splits)
  have o: "\<forall>s. registered carried Map.empty s \<noteq> None \<longrightarrow> s \<in> open_fds V (os w')"
    using ho h(1) by (simp add: handled_open_def)
  have "map_of hs = Map.empty \<longleftrightarrow> registered carried Map.empty = Map.empty"
    using h(1) by (simp add: fun_eq_iff)
  then have "hs = [] \<longleftrightarrow> registered carried Map.empty = Map.empty" by simp
  with h o have "(\<forall>s. map_of hs s = map_option fst (registered carried Map.empty s)) \<and>
      (\<forall>s. watched V (os w') (epoll_fd d) s = map_option snd (registered carried Map.empty s)) \<and>
      (\<forall>s. registered carried Map.empty s \<noteq> None \<longrightarrow> s \<in> open_fds V (os w')) \<and>
      (dispatch_empty (hs, (d, w')) \<longleftrightarrow> registered carried Map.empty = Map.empty)"
    by (simp add: dispatch_empty_def)
  with run d' ended show ?thesis
    unfolding ended_at_def by (intro exI [of _ r] exI [of _ carried] exI [of _ hs] exI [of _ w']) simp
qed

text \<open>A kernel that refuses to add a socket twice and to change or remove one that is not there, and
  nothing else.\<close>

definition strict_ctl :: "int \<Rightarrow> int \<Rightarrow> int \<Rightarrow> epoll_event \<Rightarrow> (sim, int) syscall" where
  "strict_ctl ep cmd s e w =
     (if (cmd = EPOLL_CTL_ADD) = (snd (os w) ep s = None)
      then (0, w\<lparr>os := (fst (os w), (snd (os w))(ep := (snd (os w) ep)(s := watch_update cmd e)))\<rparr>)
      else (-1, w\<lparr>errno := 2\<rparr>))"

definition strict_epoll :: "sim epoll_os" where
  "strict_epoll = \<lparr>sys_epoll_create = (\<lambda>n w. (5, w\<lparr>os := (fst (os w), (snd (os w))(5 := Map.empty))\<rparr>)),
     sys_epoll_ctl = strict_ctl, sys_epoll_wait = sim_wait []\<rparr>"

lemma strict_epoll_laws:
  "epoll_ctl_law sim_view strict_epoll" "epoll_table_law sim_view strict_epoll"
  "epoll_create_law sim_view strict_epoll" "close_unwatches_law sim_view sim_sock"
  by (auto simp: epoll_ctl_law_def epoll_table_law_def epoll_create_law_def close_unwatches_law_def
      strict_epoll_def strict_ctl_def sim_view_def sim_sock_def sim_close_def
      EPOLL_CTL_ADD_def EPOLL_CTL_DEL_def EPOLL_CTL_MOD_def errno_codes split: if_splits)

text \<open>The same kernel out of memory for the descriptor 99.\<close>

definition full_epoll :: "sim epoll_os" where
  "full_epoll = strict_epoll\<lparr>sys_epoll_ctl := (\<lambda>ep cmd s e w.
     if s = 99 \<and> cmd = EPOLL_CTL_ADD then (-1, w\<lparr>errno := 28\<rparr>) else strict_ctl ep cmd s e w)\<rparr>"

lemma full_epoll_laws: "epoll_ctl_law sim_view full_epoll" "epoll_create_law sim_view full_epoll"
  using strict_epoll_laws
  by (auto simp: epoll_ctl_law_def epoll_create_law_def full_epoll_def strict_epoll_def errno_codes split: if_splits)

interpretation full_table: fallible_table "\<lambda>s fe. with_new_fd sim_new s (de_add (epoll_ops sim_sock hv spm full_epoll) s fe)"
    "de_change (epoll_ops sim_sock hv spm full_epoll)" "dp_remove (epoll_ops sim_sock hv spm full_epoll)" "de_interest sim_view"
    "\<lambda>st. de_ok sim_view d0 st \<and> handled_open sim_view st" epoll_refusal for hv spm d0
  by (rule de_table [OF full_epoll_laws(1) sim_laws(2) sim_new_law])

theorem dispatch_epoll_handlers_consistent_witness:
  "\<exists>r carried hs w'. run_registrations
        (\<lambda>s fe. with_new_fd sim_new s (de_add (epoll_ops sim_sock True (\<lambda>_ w. ((0, {}), w)) full_epoll) s fe))
        (de_change (epoll_ops sim_sock True (\<lambda>_ w. ((0, {}), w)) full_epoll))
        (dp_remove (epoll_ops sim_sock True (\<lambda>_ w. ((0, {}), w)) full_epoll))
        [Register 4 (''a'', 1), Register 6 (''b'', 4), Change 4 (''c'', 5), Unregister 6, Register 99 (''d'', 1)]
        ([], (sim_demux, sim_world {})) = (r, (hs, (sim_demux, w'))) \<and>
      map_of hs 4 = map_option fst (registered carried Map.empty 4) \<and>
      watched sim_view (os w') 5 4 = map_option snd (registered carried Map.empty 4)"
proof -
  have start: "epoll_construct full_epoll 10 (sim_world {}) = (Inr sim_demux, sim_world {})"
    by (simp add: epoll_construct_def Let_def full_epoll_def strict_epoll_def sim_demux_def sim_world_def op_simps fun_eq_iff)
  have rs: "registrations_allowed
      [Register 4 (''a'', 1 :: u32), Register 6 (''b'', 4), Change 4 (''c'', 5), Unregister 6, Register 99 (''d'', 1)] {}" by simp
  from dispatch_epoll_handlers_consistent [OF full_epoll_laws sim_laws(2) sim_new_law start rs, of True "\<lambda>_ w. ((0, {}), w)"]
  obtain r carried hs w' where
    "run_registrations
        (\<lambda>s fe. with_new_fd sim_new s (de_add (epoll_ops sim_sock True (\<lambda>_ w. ((0, {}), w)) full_epoll) s fe))
        (de_change (epoll_ops sim_sock True (\<lambda>_ w. ((0, {}), w)) full_epoll))
        (dp_remove (epoll_ops sim_sock True (\<lambda>_ w. ((0, {}), w)) full_epoll))
        [Register 4 (''a'', 1), Register 6 (''b'', 4), Change 4 (''c'', 5), Unregister 6, Register 99 (''d'', 1)]
        ([], (sim_demux, sim_world {})) = (r, (hs, (sim_demux, w')))"
    "\<forall>s. map_of hs s = map_option fst (registered carried Map.empty s)"
    "\<forall>s. watched sim_view (os w') (epoll_fd sim_demux) s = map_option snd (registered carried Map.empty s)" by blast
  then show ?thesis by (intro exI [of _ r] exI [of _ carried] exI [of _ hs] exI [of _ w']) (simp add: sim_demux_def)
qed

end
