(* ===== verification/Ioxx_Loop_Contracts.thy ===== *)
theory Ioxx_Loop_Contracts
  imports Ioxx_Main_Loop Epoll_Table
begin

text \<open>
  The contract of the main loop, \<open>main_loop_contract\<close>, on the three demultiplexers of the library.
\<close>

section \<open>What the demultiplexers leave alone\<close>

text \<open>System calls that leave the part \<open>q\<close> of the kernel's state alone.\<close>

definition quiet_call :: "('k \<Rightarrow> 'q) \<Rightarrow> ('k, 'r) syscall \<Rightarrow> bool" where
  "quiet_call q f \<longleftrightarrow> (\<forall>w. q (os (snd (f w))) = q (os w))"

text \<open>Operations on the world, and of a demultiplexer, that do.\<close>

definition quiet_world :: "('k \<Rightarrow> 'q) \<Rightarrow> ('k world, 'a) op \<Rightarrow> bool" where
  "quiet_world q m \<longleftrightarrow> keeps (\<lambda>w. q (os w)) m"

definition quiet_demux_op :: "('k \<Rightarrow> 'q) \<Rightarrow> ('d \<times> 'k world, 'a) op \<Rightarrow> bool" where
  "quiet_demux_op q m \<longleftrightarrow> keeps (\<lambda>st. q (os (snd st))) m"

named_theorems quiet_intros "operations that leave the resolver's part of the kernel alone"

lemma quiet_worlds [quiet_intros]:
  "quiet_world q m \<Longrightarrow> (\<And>a. quiet_world q (k a)) \<Longrightarrow> quiet_world q (bind_op m k)"
  "quiet_world q (ret a)"
  "quiet_world q m \<Longrightarrow> quiet_world q d \<Longrightarrow> quiet_world q (with_dtor m d)"
  "(b \<Longrightarrow> quiet_world q m) \<Longrightarrow> (\<not> b \<Longrightarrow> quiet_world q n) \<Longrightarrow> quiet_world q (if b then m else n)"
  "quiet_call q f \<Longrightarrow> quiet_world q (throw_errno_if p msg f)"
  "quiet_call q g \<Longrightarrow> quiet_world q (throw_errno_if_minus1 msg g)"
  unfolding quiet_world_def quiet_call_def by (rule keeps_intros; blast)+

lemma quiet_world_call [quiet_intros]: "quiet_call q f \<Longrightarrow> quiet_world q (\<lambda>w. case f w of (r, w') \<Rightarrow> (Inr r, w'))"
  unfolding quiet_world_def keeps_def quiet_call_def by (simp add: case_prod_beta')

lemma quiet_demux_ops [quiet_intros]:
  "quiet_demux_op q m \<Longrightarrow> (\<And>a. quiet_demux_op q (k a)) \<Longrightarrow> quiet_demux_op q (bind_op m k)"
  "quiet_demux_op q m \<Longrightarrow> quiet_demux_op q l \<Longrightarrow> quiet_demux_op q (then_op m l)"
  "quiet_demux_op q (ret a)" "quiet_demux_op q (assert_op b)" "quiet_demux_op q (guard_op b)"
  "quiet_demux_op q m \<Longrightarrow> quiet_demux_op q d \<Longrightarrow> quiet_demux_op q (with_dtor m d)"
  "quiet_demux_op q m \<Longrightarrow> quiet_demux_op q d \<Longrightarrow> quiet_demux_op q (unwind_op m d)"
  "(b \<Longrightarrow> quiet_demux_op q m) \<Longrightarrow> (\<not> b \<Longrightarrow> quiet_demux_op q n) \<Longrightarrow> quiet_demux_op q (if b then m else n)"
  unfolding quiet_demux_op_def by (rule keeps_intros; blast)+

lemma quiet_demux_parts [quiet_intros]:
  "quiet_demux_op q (on_fst f)" "quiet_world q m \<Longrightarrow> quiet_demux_op q (on_snd m)" "quiet_demux_op q (system_socket_construct s c)"
  by (auto simp: quiet_demux_op_def quiet_world_def keeps_def on_fst_def on_snd_def system_socket_construct_def
      split: prod.split) (metis snd_conv)

lemma quiet_demux_pair [quiet_intros]:
  "(\<And>d. quiet_demux_op q (m d)) \<Longrightarrow> quiet_demux_op q (\<lambda>(d, w). m d (d, w))"
  by (simp add: quiet_demux_op_def keeps_def)

lemma quiet_demux_result:
  "(\<And>d w. snd (snd (f (d, w))) = w) \<Longrightarrow> quiet_demux_op q f"
  by (simp add: quiet_demux_op_def keeps_def)

lemma quiet_signal_safe [quiet_intros]:
  assumes spm: "\<And>m. quiet_call q (spm m)" and f: "\<And>m. quiet_call q (f m)"
  shows "quiet_world q (signal_safe_call hv spm f)"
proof -
  have mask: "quiet_world q (call_sigprocmask spm m)" for m
    unfolding call_sigprocmask_def by (intro quiet_intros spm)
  show ?thesis
    unfolding signal_safe_call_def with_signal_unblock_def signal_unblock_construct_def signal_unblock_destruct_def
    by (intro quiet_intros mask f)
qed

lemma quiet_close [quiet_intros]:
  assumes "\<And>s. quiet_call q (sys_close P s)"
  shows "quiet_world q (system_socket_destruct P sk)"
  unfolding system_socket_destruct_def by (intro quiet_intros assms)

lemma demux_keeps_quiet:
  assumes "quiet_demux_op Q (dm_pop_event M)" and "\<And>s ev. quiet_demux_op Q (dm_socket_construct M s ev)"
    and "\<And>sk. quiet_demux_op Q (dm_socket_destruct M sk)" and "\<And>s ev. quiet_demux_op Q (dm_request M s ev)"
    and "\<And>timeout. quiet_demux_op Q (dm_wait M timeout)"
    and "\<And>s ev st sk st'. dm_socket_construct M s ev st = (Inr sk, st') \<Longrightarrow> sock sk = s"
  shows "demux_keeps Q M"
  using assms unfolding demux_keeps_def quiet_demux_op_def by blast

text \<open>The three demultiplexers, on kernels whose calls do.\<close>

lemma demux_keeps_poll:
  assumes "\<And>s. quiet_call Q (sys_close P s)" and "\<And>m. quiet_call Q (spm m)" and "\<And>ps to m. quiet_call Q (sys ps to m)"
  shows "demux_keeps Q (poll_ops P hv spm sys)"
proof (rule demux_keeps_quiet, unfold poll_ops_def demux_ops.simps)
  show "quiet_demux_op Q (poll_socket_construct P s ev)" for s ev
    unfolding poll_socket_construct_def by (intro quiet_intros assms)
  show "quiet_demux_op Q (poll_socket_destruct P sk)" for sk
    unfolding poll_socket_destruct_def by (intro quiet_intros assms)
  show "quiet_demux_op Q (poll_wait hv spm sys timeout)" for timeout
    unfolding poll_wait_def by (intro quiet_intros assms quiet_demux_result) (auto simp: Let_def split: prod.split)
  show "sock sk = s" if "poll_socket_construct P s ev st = (Inr sk, st')" for s ev st sk st'
    using that by (auto simp: poll_socket_construct_def system_socket_construct_def ret_def elim!: bind_op_InrE then_op_InrE split: if_splits)
qed (rule quiet_intros)+

lemma demux_keeps_select:
  assumes "\<And>s. quiet_call Q (sys_close P s)" and "\<And>m. quiet_call Q (spm m)" and "\<And>n fds to m. quiet_call Q (sel n fds to m)"
  shows "demux_keeps Q (select_ops P hv spm sel)"
proof (rule demux_keeps_quiet, unfold select_ops_def demux_ops.simps)
  show "quiet_demux_op Q (select_socket_destruct P sk)" for sk
    unfolding select_socket_destruct_def by (intro quiet_intros assms)
  show "quiet_demux_op Q (select_wait hv spm sel timeout)" for timeout
    unfolding select_wait_def by (intro quiet_intros assms quiet_demux_result) (auto simp: Let_def split: prod.split)
  show "sock sk = s" if "on_fst (select_socket_construct s ev) st = (Inr sk, st')" for s ev st sk st'
    using that by (auto simp: on_fst_def select_socket_construct_def system_socket_construct_def ret_def
        elim!: bind_op_InrE then_op_InrE split: if_splits prod.splits)
qed (rule quiet_intros)+

lemma demux_keeps_epoll:
  assumes "\<And>s. quiet_call Q (sys_close P s)" and "\<And>m. quiet_call Q (spm m)"
    and "\<And>ep cmd s e. quiet_call Q (sys_epoll_ctl E ep cmd s e)" and "\<And>ep n to m. quiet_call Q (sys_epoll_wait E ep n to m)"
  shows "demux_keeps Q (epoll_ops P hv spm E)"
proof (rule demux_keeps_quiet, unfold epoll_ops_def demux_ops.simps)
  show "quiet_demux_op Q (epoll_socket_construct P E s ev)" for s ev
    unfolding epoll_socket_construct_def epoll_register_def by (intro quiet_intros assms)
  show "quiet_demux_op Q (epoll_socket_destruct P E sk)" for sk
    unfolding epoll_socket_destruct_def epoll_unregister_def by (intro quiet_intros assms)
  show "quiet_demux_op Q (epoll_request E s ev)" for s ev
    unfolding epoll_request_def by (intro quiet_intros assms)
  show "quiet_demux_op Q (epoll_wait hv spm E timeout)" for timeout
    unfolding epoll_wait_def by (intro quiet_intros assms quiet_demux_result) (auto simp: Let_def split: prod.split)
  show "sock sk = s" if "epoll_socket_construct P E s ev st = (Inr sk, st')" for s ev st sk st'
    using that by (auto simp: epoll_socket_construct_def system_socket_construct_def ret_def elim!: bind_op_InrE then_op_InrE split: if_splits)
qed (rule quiet_intros)+

section \<open>Programs on \<open>poll\<close>\<close>

lemma poll_ok_same:
  assumes ok: "poll_ok d" and "poll_indices d' = poll_indices d"
    and fd: "map pfd_fd (poll_pfd d') = map pfd_fd (poll_pfd d)" and ev: "map pfd_events (poll_pfd d') = map pfd_events (poll_pfd d)"
  shows "poll_ok d'" and "poll_interest d' = poll_interest d"
proof -
  have len: "length (poll_pfd d') = length (poll_pfd d)" using fd by (rule map_eq_imp_length_eq)
  have at: "pfd_fd (poll_pfd d' ! i) = pfd_fd (poll_pfd d ! i)" "pfd_events (poll_pfd d' ! i) = pfd_events (poll_pfd d ! i)"
    if "i < length (poll_pfd d)" for i
    using that len arg_cong [OF fd, of "\<lambda>l. l ! i"] arg_cong [OF ev, of "\<lambda>l. l ! i"] by simp_all
  show "poll_ok d'" unfolding poll_ok_def using poll_okD [OF ok] at len assms(2) by auto
  show "poll_interest d' = poll_interest d"
  proof (rule ext)
    fix s show "poll_interest d' s = poll_interest d s"
      using at [of "the (poll_indices d s)"] poll_okD(1) [OF ok, of s "the (poll_indices d s)"] assms(2)
      by (cases "poll_indices d s") (simp_all add: poll_interest_def)
  qed
qed

lemma store_revents_steps:
  "store_revents [] rs = []" "store_revents ps [] = ps" "store_revents (p # ps) (r # rs) = p\<lparr>pfd_revents := r\<rparr> # store_revents ps rs"
  by (simp_all add: store_revents_def)

lemma store_revents_fields:
  "map pfd_fd (store_revents ps rs) = map pfd_fd ps" "map pfd_events (store_revents ps rs) = map pfd_events ps"
proof (induction ps arbitrary: rs)
  case (Cons p ps)
  case 1
  show ?case using Cons.IH(1) by (cases rs) (simp_all add: store_revents_steps)
  case 2
  show ?case using Cons.IH(2) by (cases rs) (simp_all add: store_revents_steps)
qed (simp_all add: store_revents_steps)

lemma poll_wait_table:
  assumes "poll_wait hv spm sys timeout (d, w) = (r, (d', w'))"
  shows "poll_indices d' = poll_indices d \<and> map pfd_fd (poll_pfd d') = map pfd_fd (poll_pfd d) \<and>
    map pfd_events (poll_pfd d') = map pfd_events (poll_pfd d)"
  using assms
  by (auto simp: poll_wait_def op_defs on_snd_def Let_def store_revents_fields split: prod.splits sum.splits if_splits)

lemma dp_settled:
  assumes "dp_ok (hs, d, w)"
  shows "dispatch_socket_destruct M sk (hs, d, w) = (r, st') \<Longrightarrow> settled r \<Longrightarrow> map_of hs (sock sk) \<noteq> None"
    and "dispatch_modify (poll_ops P hv spm sys) s f ev (hs, d, w) = (r, st') \<Longrightarrow> settled r \<Longrightarrow> map_of hs s \<noteq> None"
  using dp_interest_None(2) [OF assms, of s]
  by (auto simp: dispatch_socket_destruct_def handlers_erase_def with_dtor_def on_fst_def settled_def poll_interest_def
      dispatch_modify_def poll_ops_def poll_request_def poll_check_consistency_def op_defs on_snd_def split: if_splits)

text \<open>Whatever the operations of the dispatcher on \<open>poll\<close> do, its tables stay consistent.\<close>

lemma dp_close:
  assumes ok: "dp_ok (hs, d, w)" and run: "dispatch_socket_destruct (poll_ops P hv spm sys) sk (hs, d, w) = (r, hs', d', w')" and r: "settled r"
  shows "dp_ok (hs', d', w')"
proof -
  have s: "map_of hs (sock sk) \<noteq> None" by (rule dp_settled(1) [OF ok run r])
  have pok: "poll_ok d" using ok by (simp add: dp_ok_def)
  obtain i where "poll_indices d (sock sk) = Some i" using s dp_interest_None(2) [OF ok, of "sock sk"] by (auto simp: poll_interest_def)
  from poll_unregister_ok [OF pok this] obtain d1 where
    d1: "poll_unregister (sock sk) d = (Inr (), d1)" "poll_ok d1" "poll_interest d1 = (poll_interest d)(sock sk := None)" by blast
  obtain r0 w0 where c: "system_socket_destruct P sk w = (r0, w0)" by (cases "system_socket_destruct P sk w")
  have "poll_socket_destruct P sk (d, w) = (r0, (d1, w0))"
    using d1(1) c by (cases r0) (simp_all add: poll_socket_destruct_def with_dtor_def on_fst_def on_snd_def)
  then have "snd (dispatch_socket_destruct (poll_ops P hv spm sys) sk (hs, d, w)) = (AList.delete (sock sk) hs, (d1, w0))"
    using s by (cases r0; cases "map_of hs (sock sk)")
      (simp_all add: dispatch_socket_destruct_def poll_ops_def handlers_erase_def with_dtor_def on_fst_def on_snd_def)
  with run have "hs' = AList.delete (sock sk) hs" "d' = d1" by simp_all
  with dp_update [OF ok d1(2,3), of hs' None w'] show ?thesis by (simp add: delete_conv')
qed

interpretation poll_loop: main_loop_contract "poll_ops (P :: 'k sock_os) hv spm sys"
  "\<lambda>x :: 'h handler_map \<times> poll_demux \<times> 'k world. dp_ok x \<and> demux_keeps Q (poll_ops P hv spm sys)" "\<lambda>_ _. True" Q
proof
  let ?M = "poll_ops P hv spm sys"
  fix hs hs' :: "'h handler_map" and d d' and w w' :: "'k world" and s ev f sk timeout
  assume "dp_ok (hs, d, w) \<and> demux_keeps Q ?M"
  then have ok: "dp_ok (hs, d, w)" and k: "demux_keeps Q ?M" by simp_all
  show "(dp_ok (hs, d', w') \<and> demux_keeps Q ?M) \<and> Q (os w') = Q (os w)"
    if "dm_pop_event ?M (d, w) = (r, d', w')" "settled r" for r
    using poll_contract.pop_law [OF ok that] k by blast
  show "(dp_ok (hs', d', w') \<and> demux_keeps Q ?M) \<and> Q (os w') = Q (os w) \<and>
      map_of hs' = (case r of Inr _ \<Rightarrow> (map_of hs)(s \<mapsto> f) | Inl _ \<Rightarrow> map_of hs)"
    if "dispatch_socket_construct ?M s f ev (hs, d, w) = (r, hs', d', w')" "settled r" for r
    using poll_contract.construct_law [OF ok that] k by blast
  show close: "(dp_ok (hs', d', w') \<and> demux_keeps Q ?M) \<and> Q (os w') = Q (os w) \<and> map_of hs' = (map_of hs)(sock sk := None)"
    if "dispatch_socket_destruct ?M sk (hs, d, w) = (r, hs', d', w')" "settled r" for r sk
    using dp_close [OF ok that] dispatch_destruct_inv [OF that] demux_keepsD(3) [OF k] k by blast
  show "(dp_ok (hs', d', w') \<and> demux_keeps Q ?M) \<and> Q (os w') = Q (os w) \<and> map_of hs' = (map_of hs)(s := None)"
    if "dispatch_socket_destruct ?M \<lparr>sock = s, close_flag = False\<rparr> (hs, d, w) = (r, hs', d', w')" "settled r" for r
    using close [OF that] by simp
  show "(dp_ok (hs, d', w') \<and> demux_keeps Q ?M) \<and> Q (os w') = Q (os w)"
    if "dm_request ?M s ev (d, w) = (r, d', w')" "settled r" for r
    using poll_contract.request_law [OF ok that] k by blast
  show "(dp_ok (hs', d', w') \<and> demux_keeps Q ?M) \<and> Q (os w') = Q (os w) \<and> dom (map_of hs') = dom (map_of hs)"
    if run: "dispatch_modify ?M s f ev (hs, d, w) = (r, hs', d', w')" "settled r" for r
  proof -
    have "dp_ok (hs', d', w')"
      using dp_modify [OF ok dp_settled(2) [OF ok run], of P hv spm sys f ev] run(1) by auto
    then show ?thesis using dispatch_modify_inv [OF run] demux_keepsD(4) [OF k] k by blast
  qed
  show "(dp_ok (hs', d', w') \<and> demux_keeps Q ?M) \<and> Q (os w') = Q (os w) \<and> dom (map_of hs') = dom (map_of hs)"
    if run: "dispatch_modify_handler s f (hs, d, w) = (r, hs', d', w')" "settled r" for r
  proof -
    have "dom (map_of hs') = dom (map_of hs)" "(d', w') = (d, w)" using dispatch_modify_handler_inv [OF run] by blast+
    moreover from this have "map_of hs' t = None \<longleftrightarrow> map_of hs t = None" for t by (metis domIff)
    then have "dp_ok (hs', d, w)" using ok by (simp add: dp_ok_def)
    ultimately show ?thesis using k by simp
  qed
  show "(dp_ok (hs, d', w') \<and> demux_keeps Q ?M) \<and> Q (os w') = Q (os w)"
    if run: "dm_wait ?M timeout (d, w) = (r, d', w')" "settled r" for r
  proof -
    have "poll_wait hv spm sys timeout (d, w) = (r, d', w')" using run(1) by (simp add: poll_ops_def)
    from poll_wait_table [OF this] ok have "dp_ok (hs, d', w')"
      using poll_ok_same [of d d'] by (simp add: dp_ok_def)
    then show ?thesis using demux_keepsD(5) [OF k run(1)] k by simp
  qed
  show "dp_ok (hs, d, w') \<and> demux_keeps Q ?M"
    using ok k by (simp add: dp_ok_def)
qed simp_all

section \<open>Programs on \<open>epoll\<close>\<close>

text \<open>On \<open>epoll\<close> the table of watched sockets is the kernel's.  What holds of it in every state is that a
  socket in it has a handler.\<close>

definition same_watch :: "'k kernel_view \<Rightarrow> 'k \<Rightarrow> 'k \<Rightarrow> bool" where
  "same_watch V k k' \<longleftrightarrow> watched V k' = watched V k"

definition ep_ok :: "'k kernel_view \<Rightarrow> 'h handler_map \<times> epoll_demux \<times> 'k world \<Rightarrow> bool" where
  "ep_ok V = (\<lambda>(hs, d, w). \<forall>s. watched V (os w) (epoll_fd d) s \<noteq> None \<longrightarrow> map_of hs s \<noteq> None)"

text \<open>What the kernel does, and the contract.\<close>

definition epoll_kernel ::
  "'k kernel_view \<Rightarrow> ('k \<Rightarrow> 'q) \<Rightarrow> 'k sock_os \<Rightarrow> bool \<Rightarrow> 'k sigprocmask \<Rightarrow> 'k epoll_os \<Rightarrow> bool" where
  "epoll_kernel V Q P hv spm E \<longleftrightarrow>
     epoll_ctl_law V E \<and> epoll_table_law V E \<and> close_unwatches_law V P \<and>
     (\<forall>m. quiet_call (watched V) (spm m)) \<and> (\<forall>ep n to m. quiet_call (watched V) (sys_epoll_wait E ep n to m)) \<and>
     demux_keeps Q (epoll_ops P hv spm E)"

lemma epoll_pop_keeps: "epoll_pop_event d = (r, d') \<Longrightarrow> epoll_fd d' = epoll_fd d"
  by (auto simp: epoll_pop_event_def Let_def split: if_splits)

lemma epoll_wait_keeps:
  assumes "\<And>m. quiet_call (watched V) (spm m)" and "\<And>ep n to m. quiet_call (watched V) (sys_epoll_wait E ep n to m)"
    and run: "epoll_wait hv spm E timeout (d, w) = (r, (d', w'))"
  shows "epoll_fd d' = epoll_fd d \<and> watched V (os w') = watched V (os w)"
proof -
  have "quiet_demux_op (watched V) (epoll_wait hv spm E timeout)"
    unfolding epoll_wait_def by (intro quiet_intros assms quiet_demux_result) (auto simp: Let_def split: prod.split)
  with run have "watched V (os w') = watched V (os w)"
    unfolding quiet_demux_op_def using keepsD by fastforce
  moreover have "epoll_fd d' = epoll_fd d"
    using run by (auto simp: epoll_wait_def op_defs on_snd_def Let_def split: prod.splits sum.splits if_splits)
  ultimately show ?thesis by simp
qed

interpretation epoll_loop: main_loop_contract "epoll_ops (P :: 'k sock_os) hv spm E"
  "\<lambda>x :: 'h handler_map \<times> epoll_demux \<times> 'k world. ep_ok V x \<and> epoll_kernel V Q P hv spm E"
  "same_watch V" Q
proof
  let ?M = "epoll_ops P hv spm E" and ?K = "epoll_kernel V Q P hv spm E"
  fix hs hs' :: "'h handler_map" and d d' and w w' :: "'k world" and s ev f timeout
  assume "ep_ok V (hs, d, w) \<and> ?K"
  then have ok: "ep_ok V (hs, d, w)" and K: ?K by simp_all
  then have law: "epoll_ctl_law V E" "epoll_table_law V E" "close_unwatches_law V P" and k: "demux_keeps Q ?M"
    and quiet: "\<And>m. quiet_call (watched V) (spm m)" "\<And>ep n to m. quiet_call (watched V) (sys_epoll_wait E ep n to m)"
    by (simp_all add: epoll_kernel_def)
  have hs: "map_of hs t \<noteq> None" if "watched V (os w) (epoll_fd d) t \<noteq> None" for t
    using ok that by (simp add: ep_ok_def)
  show "(ep_ok V (hs, d', w') \<and> ?K) \<and> Q (os w') = Q (os w)" if "dm_pop_event ?M (d, w) = (r, d', w')" for r
    using that ok K epoll_pop_keeps [of d "fst (epoll_pop_event d)" d'] by (auto simp: epoll_ops_def on_fst_def ep_ok_def split: prod.splits)
  show "(ep_ok V (hs', d', w') \<and> ?K) \<and> Q (os w') = Q (os w) \<and>
      map_of hs' = (case r of Inr _ \<Rightarrow> (map_of hs)(s \<mapsto> f) | Inl _ \<Rightarrow> map_of hs)"
    if run: "dispatch_socket_construct ?M s f ev (hs, d, w) = (r, hs', d', w')" "settled r" for r
    using dispatch_construct_inv [OF run]
  proof
    assume "\<exists>sk. r = Inr sk \<and> dm_socket_construct ?M s ev (d, w) = (Inr sk, (d', w')) \<and> map_of hs (sock sk) = None \<and>
      map_of hs' = (map_of hs)(sock sk \<mapsto> f)"
    then obtain sk where r: "r = Inr sk" and c: "epoll_socket_construct P E s ev (d, w) = (Inr sk, (d', w'))"
      and h: "map_of hs' = (map_of hs)(sock sk \<mapsto> f)" by (auto simp: epoll_ops_def)
    from epoll_construct_table [OF law(1,3) c] have t: "d' = d" "sock sk = s"
      "watched V (os w') (epoll_fd d) = (watched V (os w) (epoll_fd d))(s \<mapsto> ev)" by simp_all
    then have "ep_ok V (hs', d', w')" using hs h by (auto simp: ep_ok_def)
    moreover have "Q (os w') = Q (os w)" using demux_keepsD(2) [OF k, of s ev d w "Inr sk" d' w'] c by (simp add: epoll_ops_def)
    ultimately show ?thesis using K r h t by simp
  next
    assume "\<exists>e. r = Inl e \<and> dm_socket_construct ?M s ev (d, w) = (Inl e, (d', w')) \<and> hs' = hs"
    then obtain e where r: "r = Inl e" and c: "epoll_socket_construct P E s ev (d, w) = (Inl e, (d', w'))" and h: "hs' = hs"
      by (auto simp: epoll_ops_def)
    from epoll_construct_table [OF law(1,3) c] have "ep_ok V (hs', d', w')" using hs h by (auto simp: ep_ok_def)
    moreover have "Q (os w') = Q (os w)" using demux_keepsD(2) [OF k, of s ev d w "Inl e" d' w'] c by (simp add: epoll_ops_def)
    ultimately show ?thesis using K r h by simp
  qed
  show close: "(ep_ok V (hs', d', w') \<and> ?K) \<and> Q (os w') = Q (os w) \<and> map_of hs' = (map_of hs)(sock sk := None)"
    if run: "dispatch_socket_destruct ?M sk (hs, d, w) = (r, hs', d', w')" "settled r" for r sk
  proof -
    from dispatch_destruct_inv [OF run] have h: "map_of hs' = (map_of hs)(sock sk := None)"
      and c: "dm_socket_destruct ?M sk (d, w) = (r, (d', w'))" by simp_all
    from c have "epoll_socket_destruct P E sk (d, w) = (r, (d', w'))" by (simp add: epoll_ops_def)
    from epoll_destruct_table [OF law this] have "ep_ok V (hs', d', w')" using hs h by (auto simp: ep_ok_def)
    with demux_keepsD(3) [OF k c] K h show ?thesis by simp
  qed
  show "(ep_ok V (hs', d', w') \<and> ?K) \<and> Q (os w') = Q (os w) \<and> map_of hs' = (map_of hs)(s := None)"
    if "dispatch_socket_destruct ?M \<lparr>sock = s, close_flag = False\<rparr> (hs, d, w) = (r, hs', d', w')" "settled r" for r
    using close [OF that] by simp
  have request: "ep_ok V (hs1, d', w') \<and> Q (os w') = Q (os w)"
    if run: "dm_request ?M s ev (d, w) = (r, d', w')" and h: "dom (map_of hs1) = dom (map_of hs)" for r and hs1 :: "'h handler_map"
  proof -
    have "epoll_request E s ev (d, w) = (r, d', w')" using run by (simp add: epoll_ops_def)
    from epoll_request_table [OF law(1,2) this] have d: "d' = d" and
      t: "dom (watched V (os w') (epoll_fd d)) = dom (watched V (os w) (epoll_fd d))" by simp_all
    have "map_of hs1 t \<noteq> None" if "watched V (os w') (epoll_fd d) t \<noteq> None" for t
      using that hs [of t] t h by (metis domIff)
    then have "ep_ok V (hs1, d', w')" using d by (simp add: ep_ok_def)
    then show ?thesis using demux_keepsD(4) [OF k run] by simp
  qed
  show "(ep_ok V (hs, d', w') \<and> ?K) \<and> Q (os w') = Q (os w)" if "dm_request ?M s ev (d, w) = (r, d', w')" for r
    using request [OF that refl] K by simp
  show "(ep_ok V (hs', d', w') \<and> ?K) \<and> Q (os w') = Q (os w) \<and> dom (map_of hs') = dom (map_of hs)"
    if run: "dispatch_modify ?M s f ev (hs, d, w) = (r, hs', d', w')" "settled r" for r
    using dispatch_modify_inv [OF run] request K by blast
  show "(ep_ok V (hs', d', w') \<and> ?K) \<and> Q (os w') = Q (os w) \<and> dom (map_of hs') = dom (map_of hs)"
    if run: "dispatch_modify_handler s f (hs, d, w) = (r, hs', d', w')" "settled r" for r
  proof -
    have h: "dom (map_of hs') = dom (map_of hs)" "(d', w') = (d, w)" using dispatch_modify_handler_inv [OF run] by blast+
    then have "map_of hs' t \<noteq> None" if "watched V (os w) (epoll_fd d) t \<noteq> None" for t using hs [OF that] by (metis domIff)
    with h K show ?thesis by (simp add: ep_ok_def)
  qed
  show "(ep_ok V (hs, d', w') \<and> ?K) \<and> Q (os w') = Q (os w)"
    if run: "dm_wait ?M timeout (d, w) = (r, d', w')" for r
  proof -
    have "epoll_wait hv spm E timeout (d, w) = (r, d', w')" using run by (simp add: epoll_ops_def)
    from epoll_wait_keeps [OF quiet this] ok have "ep_ok V (hs, d', w')" by (simp add: ep_ok_def)
    then show ?thesis using demux_keepsD(5) [OF k run] K by simp
  qed
  show "ep_ok V (hs, d, w') \<and> ?K" if "same_watch V (os w) (os w')"
    using ok K that by (simp add: ep_ok_def same_watch_def)
qed (simp_all add: same_watch_def)

section \<open>Programs on \<open>select\<close>\<close>

text \<open>What every operation of the demultiplexer on \<open>select\<close> keeps, whatever it is called with: the
  descriptors with a request are in range, and \<open>_max_fd\<close> bounds them.\<close>

definition sel_bounded :: "select_demux \<Rightarrow> bool" where
  "sel_bounded d \<longleftrightarrow> -1 \<le> max_fd d \<and> (\<forall>s \<in> requested d. fd_ok s \<and> s \<le> max_fd d)"

lemma select_request_bounded:
  assumes ok: "sel_bounded d" and run: "select_request s ev d = (r, d')" and r: "settled r"
  shows "sel_bounded d'"
proof -
  let ?d1 = "d\<lparr>req_read_fds := fd_put (has_event ev (readable select_codes)) s (req_read_fds d),
      req_write_fds := fd_put (has_event ev (writable select_codes)) s (req_write_fds d),
      req_except_fds := fd_put (has_event ev (pridata select_codes)) s (req_except_fds d)\<rparr>"
  have s: "fd_ok s" using run r by (auto simp: select_request_def op_defs settled_def split: if_splits)
  have req: "requested (?d1\<lparr>max_fd := m\<rparr>) = requested ?d1" for m by (simp add: requested_def)
  have sub: "requested ?d1 \<subseteq> insert s (requested d)" by (auto simp: requested_def split: if_splits)
  show ?thesis
  proof (cases "ev = no_events")
    case False
    then have "d' = ?d1\<lparr>max_fd := max (max_fd d) s\<rparr>"
      using run s by (simp add: select_request_def op_simps Let_def)
    moreover have "fd_ok t \<and> t \<le> max (max_fd d) s" if "t \<in> requested ?d1" for t
      using subsetD [OF sub that] ok s by (auto simp: sel_bounded_def le_max_iff_disj)
    ultimately show ?thesis using ok by (simp add: sel_bounded_def req le_max_iff_disj)
  next
    case True
    then have "s \<notin> requested ?d1" by (simp add: requested_def has_event_def no_events_def)
    with sub have sub: "requested ?d1 \<subseteq> requested d" by blast
    show ?thesis
    proof (cases "s = max_fd d")
      case top: True
      then have d': "d' = ?d1\<lparr>max_fd := lower_max_fd (requested ?d1) (max_fd d)\<rparr>"
        using run s True by (simp add: select_request_def op_simps Let_def)
      have "\<forall>t \<in> requested ?d1. 0 \<le> t \<and> t \<le> max_fd d" using sub ok by (auto simp: sel_bounded_def fd_ok_def)
      from lower_max_fd_spec [OF _ this] have
        low: "\<forall>t \<in> requested ?d1. t \<le> lower_max_fd (requested ?d1) (max_fd d)"
          "lower_max_fd (requested ?d1) (max_fd d) = -1 \<or> lower_max_fd (requested ?d1) (max_fd d) \<in> requested ?d1"
        using ok by (simp_all add: sel_bounded_def)
      have "-1 \<le> lower_max_fd (requested ?d1) (max_fd d)"
        using low(2)
      proof
        assume "lower_max_fd (requested ?d1) (max_fd d) \<in> requested ?d1"
        from subsetD [OF sub this] ok have "fd_ok (lower_max_fd (requested ?d1) (max_fd d))" unfolding sel_bounded_def by blast
        then show ?thesis by (simp add: fd_ok_def)
      qed simp
      then show ?thesis using low(1) sub ok unfolding d' sel_bounded_def req by auto
    next
      case False
      then have "d' = ?d1" using run s True by (auto simp: select_request_def op_simps Let_def assert_op_def split: if_splits)
      moreover have "max_fd ?d1 = max_fd d" by simp
      ultimately show ?thesis using sub ok unfolding sel_bounded_def by auto
    qed
  qed
qed

lemma select_pop_requests: "select_pop_event d = (r, d') \<Longrightarrow> requested d' = requested d \<and> max_fd d' = max_fd d"
proof (induction d rule: select_pop_event.induct)
  case (1 d)
  have same: "requested (d\<lparr>current := c, n_events := n\<rparr>) = requested d" "requested (d\<lparr>current := c\<rparr>) = requested d" for c n
    by (simp_all add: requested_def)
  show ?case
    using 1(2) 1(1) [OF _ _ refl refl _ _ refl refl refl refl refl]
    by (subst (asm) select_pop_event.simps) (auto simp: Let_def same split: if_splits)
qed

lemma select_wait_requests:
  assumes "select_wait hv spm sel timeout (d, w) = (r, (d', w'))"
  shows "requested d' = requested d \<and> max_fd d' = max_fd d"
  using assms
  by (auto simp: select_wait_def op_defs on_snd_def on_fst_def Let_def requested_def split: prod.splits sum.splits if_splits)

lemma select_construct_bounded:
  assumes ok: "sel_bounded d" and run: "select_socket_construct s ev d = (r, d')" and r: "settled r"
  shows "sel_bounded d'"
proof -
  obtain r1 d1 where q: "select_request s ev d = (r1, d1)" by (metis surj_pair)
  have "d' = d \<or> d' = d1 \<and> settled r1"
    using run q r by (cases r1)
      (auto simp: select_socket_construct_def system_socket_construct_def op_defs settled_def split: if_splits)
  with ok select_request_bounded [OF ok q] show ?thesis by auto
qed

lemma select_destruct_bounded:
  assumes ok: "sel_bounded d" and run: "select_socket_destruct P sk (d, w) = (r, (d', w'))" and r: "settled r"
  shows "sel_bounded d'"
proof -
  obtain r1 d1 where q: "select_request (sock sk) no_events d = (r1, d1)" by (metis surj_pair)
  obtain r2 w2 where c: "system_socket_destruct P sk w = (r2, w2)" by (metis surj_pair)
  have "r1 = Inr () \<or> (\<exists>e. r1 = Inl e \<and> \<not> is_exception e)"
    using q by (auto simp: select_request_def op_defs Let_def split: if_splits)
  then have "d' = d1 \<and> settled r1"
    using run q c r
    by (cases r2) (auto simp: select_socket_destruct_def with_dtor_def on_fst_def on_snd_def settled_def split: if_splits)
  then show ?thesis using select_request_bounded [OF ok q] by simp
qed

interpretation select_loop: main_loop_contract "select_ops (P :: 'k sock_os) hv spm sel"
  "\<lambda>(hs :: 'h handler_map, d, w :: 'k world). sel_bounded d \<and> demux_keeps Q (select_ops P hv spm sel)" "\<lambda>_ _. True" Q
proof (unfold_locales, unfold prod.case)
  let ?M = "select_ops P hv spm sel"
  fix hs hs' :: "'h handler_map" and d d' and w w' :: "'k world" and s ev f timeout
  assume "sel_bounded d \<and> demux_keeps Q ?M"
  then have ok: "sel_bounded d" and k: "demux_keeps Q ?M" by simp_all
  have same: "sel_bounded d1" if "requested d1 = requested d \<and> max_fd d1 = max_fd d" for d1
    using ok that by (simp add: sel_bounded_def)
  note any = any_demux.construct_law [OF k] any_demux.close_law [OF k]
  show "(sel_bounded d' \<and> demux_keeps Q ?M) \<and> Q (os w') = Q (os w)" if "dm_pop_event ?M (d, w) = (r, d', w')" for r
    using that k select_pop_requests [of d "fst (select_pop_event d)" d'] same
    by (auto simp: select_ops_def on_fst_def split: prod.splits)
  show "(sel_bounded d' \<and> demux_keeps Q ?M) \<and> Q (os w') = Q (os w) \<and>
      map_of hs' = (case r of Inr _ \<Rightarrow> (map_of hs)(s \<mapsto> f) | Inl _ \<Rightarrow> map_of hs)"
    if run: "dispatch_socket_construct ?M s f ev (hs, d, w) = (r, hs', d', w')" "settled r" for r
  proof -
    obtain r0 where "dm_socket_construct ?M s ev (d, w) = (r0, (d', w'))" "settled r0"
      using dispatch_construct_inv [OF run] run(2) by (auto simp: settled_def)
    then have "sel_bounded d'"
      using select_construct_bounded [OF ok, of s ev r0 d'] by (auto simp: select_ops_def on_fst_def split: prod.splits)
    with any(1) [OF run] show ?thesis by simp
  qed
  show close: "(sel_bounded d' \<and> demux_keeps Q ?M) \<and> Q (os w') = Q (os w) \<and> map_of hs' = (map_of hs)(sock sk := None)"
    if run: "dispatch_socket_destruct ?M sk (hs, d, w) = (r, hs', d', w')" "settled r" for r sk
  proof -
    have "select_socket_destruct P sk (d, w) = (r, (d', w'))"
      using dispatch_destruct_inv [OF run] by (simp add: select_ops_def)
    from select_destruct_bounded [OF ok this run(2)] any(2) [OF run] show ?thesis by simp
  qed
  show "(sel_bounded d' \<and> demux_keeps Q ?M) \<and> Q (os w') = Q (os w) \<and> map_of hs' = (map_of hs)(s := None)"
    if "dispatch_socket_destruct ?M \<lparr>sock = s, close_flag = False\<rparr> (hs, d, w) = (r, hs', d', w')" "settled r" for r
    using close [OF that] by simp
  show request: "(sel_bounded d' \<and> demux_keeps Q ?M) \<and> Q (os w') = Q (os w)"
    if run: "dm_request ?M s ev (d, w) = (r, d', w')" "settled r" for r
  proof -
    have "select_request s ev d = (r, d')" using run(1) by (auto simp: select_ops_def on_fst_def split: prod.splits)
    from select_request_bounded [OF ok this run(2)] demux_keepsD(4) [OF k run(1)] k show ?thesis by simp
  qed
  show "(sel_bounded d' \<and> demux_keeps Q ?M) \<and> Q (os w') = Q (os w) \<and> dom (map_of hs') = dom (map_of hs)"
    if run: "dispatch_modify ?M s f ev (hs, d, w) = (r, hs', d', w')" "settled r" for r
    using dispatch_modify_inv [OF run] request by blast
  show "(sel_bounded d' \<and> demux_keeps Q ?M) \<and> Q (os w') = Q (os w) \<and> dom (map_of hs') = dom (map_of hs)"
    if run: "dispatch_modify_handler s f (hs, d, w) = (r, hs', d', w')" "settled r" for r
    using dispatch_modify_handler_inv [OF run] ok k by simp
  show "(sel_bounded d' \<and> demux_keeps Q ?M) \<and> Q (os w') = Q (os w)"
    if run: "dm_wait ?M timeout (d, w) = (r, d', w')" for r
  proof -
    have "select_wait hv spm sel timeout (d, w) = (r, d', w')" using run by (simp add: select_ops_def)
    from same [OF select_wait_requests [OF this]] demux_keepsD(5) [OF k run] k show ?thesis by simp
  qed
  show "sel_bounded d \<and> demux_keeps Q ?M" using ok k by simp
qed simp_all

end
