(* ===== verification/Ioxx_Program.thy ===== *)
theory Ioxx_Program
  imports Ioxx_Loop_Contracts
begin

text \<open>
  What every state satisfies that a program on \<open>core\<close> can reach, on the demultiplexers of the library,
  and programs that show that the hypotheses can hold.
\<close>

section \<open>Properties\<close>

text \<open>
  C3.  Every state a program can reach is consistent, on every demultiplexer.  The program constructs
  the core and then calls \<open>run\<close>, \<open>wait\<close> and the operations on sockets, tasks and queries in any order,
  also from its handlers, tasks and callbacks, and whether or not they throw.  Then, whenever such a
  call has ended: the tasks are queued in the order of their times, each socket the resolver has
  registered has a handler, and the resolver has exactly one callback, of the right kind, for each
  query that the adns library works on.
\<close>

theorem program_stays_consistent:
  fixes st :: "('f core_task, 'h core_handler, 'd, 'u, 'k) core_state" and Q :: "'k \<Rightarrow> int \<rightharpoonup> rrtype"
  assumes law: "adns_submit_law Q L" "adns_check_law Q L" "adns_init_law Q L" "adns_quiet_law (\<lambda>_ _. True) Q L"
      "clock_law (\<lambda>_ _. True) Q gtod"
    and demux: "demux_keeps Q M"
    and app: "\<And>h ev. acts (library_op M L gtod (\<lambda>k k'. Q k' = Q k)) (h_app h ev)"
      "\<And>f. acts (library_op M L gtod (\<lambda>k k'. Q k' = Q k)) (t_app f)"
      "\<And>u x. acts (library_op M L gtod (\<lambda>k k'. Q k' = Q k)) (u_call u x)"
    and reach: "program_reaches M L gtod (\<lambda>k k'. Q k' = Q k) h_app t_app u_call dnew ddel st"
  shows "schedule_wf (core_schedule st) \<and> distinct (registered_sockets (core_dns st)) \<and>
    (\<forall>s \<in> set (registered_sockets (core_dns st)). map_of (fst (core_dispatch st)) s \<noteq> None) \<and> dns_ok Q st"
proof -
  have "core_ok (\<lambda>_. demux_keeps Q M) Q st"
    by (rule program_reaches_ok [OF any_demux.main_loop_contract_axioms law(1,4,5,2,3) _ _ app reach]) (simp_all add: demux)
  then show ?thesis by (simp add: core_ok_def)
qed

text \<open>
  C7.  On \<open>poll\<close>, in every reachable state, the parts agree on the sockets and the queries: the index of
  the \<open>pollfd\<close> vector is right and the sockets in the vector are exactly those with a handler; each socket
  the resolver has registered is one of them, no socket is registered twice, and the resolver has exactly
  one callback, of the right kind, for each query that the adns library works on.
\<close>

theorem poll_program_stays_consistent:
  fixes st :: "('f core_task, 'h core_handler, poll_demux, 'u, 'k) core_state" and Q :: "'k \<Rightarrow> int \<rightharpoonup> rrtype"
  assumes law: "adns_submit_law Q L" "adns_check_law Q L" "adns_init_law Q L" "adns_quiet_law (\<lambda>_ _. True) Q L"
      "clock_law (\<lambda>_ _. True) Q gtod"
    and kernel: "\<And>s. quiet_call Q (sys_close P s)" "\<And>m. quiet_call Q (spm m)" "\<And>ps to m. quiet_call Q (sys ps to m)"
    and app: "\<And>h ev. acts (library_op (poll_ops P hv spm sys) L gtod (\<lambda>k k'. Q k' = Q k)) (h_app h ev)"
      "\<And>f. acts (library_op (poll_ops P hv spm sys) L gtod (\<lambda>k k'. Q k' = Q k)) (t_app f)"
      "\<And>u x. acts (library_op (poll_ops P hv spm sys) L gtod (\<lambda>k k'. Q k' = Q k)) (u_call u x)"
    and reach: "program_reaches (poll_ops P hv spm sys) L gtod (\<lambda>k k'. Q k' = Q k) h_app t_app u_call (ret poll_construct) (\<lambda>_. ret ()) st"
  shows "dp_ok (core_dispatch st) \<and> distinct (registered_sockets (core_dns st)) \<and>
    (\<forall>s \<in> set (registered_sockets (core_dns st)). dp_interest (core_dispatch st) s \<noteq> None) \<and> dns_ok Q st"
proof -
  have k: "demux_keeps Q (poll_ops P hv spm sys)" by (rule demux_keeps_poll) (rule kernel)+
  have new: "dp_ok ([], poll_construct, w)" for w :: "'k world"
    by (simp add: dp_ok_def poll_construct_ok)
  have "core_ok (\<lambda>x. dp_ok x \<and> demux_keeps Q (poll_ops P hv spm sys)) Q st"
    by (rule program_reaches_ok [OF poll_loop.main_loop_contract_axioms law(1,4,5,2,3) _ _
          app reach]) (auto simp: k new ret_def)
  then have ok: "dp_ok (core_dispatch st)" "distinct (registered_sockets (core_dns st))" "dns_ok Q st"
    and handled: "\<forall>s \<in> set (registered_sockets (core_dns st)). map_of (fst (core_dispatch st)) s \<noteq> None"
    unfolding core_ok_def by blast+
  have "dp_interest (core_dispatch st) s \<noteq> None" if "map_of (fst (core_dispatch st)) s \<noteq> None" for s
    using that dp_interest_None [of "fst (core_dispatch st)" "fst (snd (core_dispatch st))" "snd (snd (core_dispatch st))" s] ok(1)
    by (simp only: prod.collapse simp_thms not_False_eq_True)
  with ok handled show ?thesis by blast
qed

text \<open>
  C10.  On \<open>epoll\<close>, in every reachable state, each socket that the kernel watches for the program has a
  handler in the dispatcher.
\<close>

theorem epoll_program_watches_handled:
  fixes st :: "('f core_task, 'h core_handler, epoll_demux, 'u, 'k) core_state" and Q :: "'k \<Rightarrow> int \<rightharpoonup> rrtype"
  assumes law: "adns_submit_law Q L" "adns_check_law Q L" "adns_init_law Q L" "adns_quiet_law (same_watch V) Q L" "clock_law (same_watch V) Q gtod"
    and kernel: "epoll_kernel V Q P hv spm E"
    and create: "epoll_create_law V E"
    and app: "\<And>h ev. acts (library_op (epoll_ops P hv spm E) L gtod (\<lambda>k k'. same_watch V k k' \<and> Q k' = Q k)) (h_app h ev)"
      "\<And>f. acts (library_op (epoll_ops P hv spm E) L gtod (\<lambda>k k'. same_watch V k k' \<and> Q k' = Q k)) (t_app f)"
      "\<And>u x. acts (library_op (epoll_ops P hv spm E) L gtod (\<lambda>k k'. same_watch V k k' \<and> Q k' = Q k)) (u_call u x)"
    and reach: "program_reaches (epoll_ops P hv spm E) L gtod (\<lambda>k k'. same_watch V k k' \<and> Q k' = Q k) h_app t_app u_call
      (epoll_construct E hint) ddel st"
    and st: "core_dispatch st = (hs, d, w)" and s: "watched V (os w) (epoll_fd d) s \<noteq> None"
  shows "map_of hs s \<noteq> None"
proof -
  have "core_ok (\<lambda>x. ep_ok V x \<and> epoll_kernel V Q P hv spm E) Q st"
    by (rule program_reaches_ok [OF epoll_loop.main_loop_contract_axioms law(1,4,5,2,3) _ _
          app reach]) (auto simp: kernel ep_ok_def epoll_construct_fresh [OF create])
  then have "ep_ok V (core_dispatch st)" by (simp add: core_ok_def)
  with st s show ?thesis by (simp add: ep_ok_def)
qed


text \<open>A program on \<open>poll\<close> that sleeps until time 100, runs its loop once, waits for events on descriptor 7
  and asks for the name of an address.  Its handlers do nothing, its task asks to be run again.\<close>

type_synonym poll_program = "(string core_task, string core_handler, poll_demux, string, nat) core_state"

definition wall_clock :: "'k sys_gettimeofday" where
  "wall_clock w = ((0, \<lparr>tv_sec = 40, tv_usec = 0\<rparr>), w)"

definition again :: "string \<Rightarrow> (poll_program, unit) prog" where
  "again f st = Some (bind_op (on_schedule (schedule_at 200 (App_task f))) (\<lambda>_. ret ()) st)"

definition nothing :: "('s, unit) prog" where
  "nothing st = Some (Inr (), st)"

abbreviation demo_op :: "poll_program \<Rightarrow> poll_program \<Rightarrow> bool" where
  "demo_op \<equiv> library_op plain_poll count_adns wall_clock (\<lambda>k k'. count_view k' = count_view k)"

abbreviation demo_reaches :: "poll_program \<Rightarrow> bool" where
  "demo_reaches \<equiv> program_reaches plain_poll count_adns wall_clock (\<lambda>k k'. count_view k' = count_view k)
     (\<lambda>h ev. nothing) again (\<lambda>u x. nothing) (ret poll_construct) (\<lambda>_. ret ())"

definition started :: poll_program where
  "started = \<lparr>core_now = \<lparr>tv_sec = 40, tv_usec = 0\<rparr>, core_schedule = schedule_init,
     core_dispatch = ([], (poll_construct, \<lparr>errno = 0, os = 0\<rparr>)),
     core_dns = \<lparr>adns_timeout = timeout_new, queries = [], registered_sockets = [],
       pfds = replicate 2 \<lparr>pfd_fd = 0, pfd_events = 0, pfd_revents = 0\<rparr>\<rparr>\<rparr>"

definition sleeping :: poll_program where
  "sleeping = started\<lparr>core_schedule := snd (schedule_at 100 (App_task ''tick'') schedule_init)\<rparr>"

definition asking :: poll_program where
  "asking = sleeping\<lparr>core_dispatch := ([(7, App_handler ''h'')], (\<lparr>poll_pfd = [\<lparr>pfd_fd = 7, pfd_events = 1, pfd_revents = 0\<rparr>],
       poll_indices = [7 \<mapsto> 0], poll_n_events = 0, poll_current = 0\<rparr>, \<lparr>errno = 0, os = 1\<rparr>)),
     core_dns := (core_dns sleeping)\<lparr>queries := [(1, Callback_PTR (Some ''h''))]\<rparr>\<rparr>"

lemma demo_run:
  "core_program_run plain_poll count_adns (\<lambda>h ev. nothing) again (\<lambda>u x. nothing) sleeping = Some (Inr 60, sleeping)"
proof -
  have d: "core_dispatch_run plain_poll call sleeping = Some (Inr (), sleeping)" for call
    by (simp add: core_dispatch_run_def dispatch_run.simps plain_poll_def poll_ops_def on_dispatch_def on_snd_def on_fst_def
        poll_pop_event.simps sleeping_def started_def poll_construct_def with_handlers_def)
  have s: "core_schedule_run call sleeping = Some (Inr 60, sleeping)" for call
    by (simp add: core_schedule_run_def schedule_run.simps sleeping_def started_def schedule_at_def schedule_init_def
        with_schedule_def in_time_range_def current_time_t_def)
  have a: "adns_run plain_poll count_adns call task fdh sleeping = Some (Inr (), sleeping)" for call task fdh
    by (simp add: adns_run_def then_prog_def bind_prog_def lift_op_def then_op_def bind_op_def adns_check_consistency_def
        assert_op_def count_adns_def disarm_timeout_def on_schedule_def timeout_cancel_def timeout_new_def on_dns_def
        modify_op_def clear_sockets_def ret_def sleeping_def started_def)
  show ?thesis
    by (simp add: core_program_run_def core_run_def then_prog_def bind_prog_def lift_op_def d s a ret_def)
      (simp add: sleeping_def started_def schedule_empty_def schedule_at_def schedule_init_def)
qed

lemma demo_steps:
  "core_construct wall_clock (ret poll_construct) (\<lambda>_. ret ()) count_adns \<lparr>errno = 0, os = 3\<rparr> = (Inr started, \<lparr>errno = 0, os = 0\<rparr>)"
  "on_schedule (schedule_at 100 (App_task ''tick'')) started = (Inr (100, Some 0), sleeping)"
  "on_dispatch (dispatch_socket_construct plain_poll 7 (App_handler ''h'') 1) sleeping
     = (Inr \<lparr>sock = 7, close_flag = True\<rparr>, asking\<lparr>core_dispatch := ([(7, App_handler ''h'')],
          (fst (snd (core_dispatch asking)), \<lparr>errno = 0, os = 0\<rparr>)), core_dns := core_dns sleeping\<rparr>)"
  "query_ptr count_adns ''1.0.0.127.in-addr.arpa'' (Some ''h'') (asking\<lparr>core_dispatch := ([(7, App_handler ''h'')],
          (fst (snd (core_dispatch asking)), \<lparr>errno = 0, os = 0\<rparr>)), core_dns := core_dns sleeping\<rparr>) = (Inr (), asking)"
proof goal_cases
  case 1
  show ?case
    by (simp add: core_construct_def time_construct_def time_update_def wall_clock_def op_simps adns_construct_def lib_call_def
        count_adns_def throw_rc_if_not_zero_def started_def ADNS_POLLFDS_RECOMMENDED_def unwind_op_def)
next
  case 2
  show ?case by (simp add: on_schedule_def sleeping_def started_def schedule_at_def schedule_init_def)
next
  case 3
  show ?case
    by (simp add: on_dispatch_def dispatch_socket_construct_def plain_poll_def poll_ops_def poll_socket_construct_def
        system_socket_construct_def poll_register_def poll_request_def poll_check_consistency_def handlers_insert_def
        on_fst_def on_snd_def unwind_op_def on_exception_def op_defs sleeping_def started_def asking_def poll_construct_def)
next
  case 4
  show ?case
    by (simp add: query_ptr_def adns_submit_query_def on_world_apply lib_call_def count_adns_def count_submit_def
        throw_rc_if_not_zero_def on_dns_def register_callback_def adns_check_consistency_def op_defs
        sleeping_def started_def asking_def)
qed

lemma demo_laws:
  "adns_init_law count_view count_adns" "adns_quiet_law (\<lambda>_ _. True) count_view count_adns"
  "clock_law (\<lambda>_ _. True) count_view wall_clock"
  "quiet_call count_view (sys_close quiet_sock s)" "quiet_call count_view (\<lambda>w. ((0, {}), w))" "quiet_call count_view (\<lambda>w. ((0, []), w))"
  by (auto simp: adns_init_law_def count_adns_def count_view_def adns_quiet_law_def clock_law_def wall_clock_def quiet_call_def quiet_sock_def)

lemma demo_acts: "acts demo_op nothing" "acts demo_op (again f)"
proof -
  show "acts demo_op nothing" by (simp add: acts_def nothing_def)
  show "acts demo_op (again f)"
    unfolding acts_def
  proof (intro allI impI)
    fix st r st'
    assume "again f st = Some (r, st')"
    moreover obtain r0 st0 where q: "on_schedule (schedule_at 200 (App_task f)) st = (r0, st0)" by (metis surj_pair)
    ultimately have "st' = st0" by (cases r0) (simp_all add: again_def bind_op_def ret_def)
    moreover have "r0 = Inr (200, Some (next_node (core_schedule st)))"
      using q by (auto simp: on_schedule_def schedule_at_def split: prod.splits)
    ultimately show "demo_op\<^sup>*\<^sup>* st st'"
      using op_at [OF q, of plain_poll count_adns wall_clock "\<lambda>k k'. count_view k' = count_view k"]
      by (auto simp: settled_def)
  qed
qed

lemma demo_reaches_asking: "demo_reaches asking"
proof -
  have fine: "settled (Inr a)" for a :: 'a by (simp add: settled_def)
  have "demo_reaches started" by (rule reach_start [OF demo_steps(1)])
  then have "demo_reaches sleeping" by (rule reach_op) (rule op_at [OF demo_steps(2) fine])
  then have "demo_reaches sleeping" by (rule reach_run [OF _ demo_run fine])
  then have "demo_reaches (asking\<lparr>core_dispatch := ([(7, App_handler ''h'')],
          (fst (snd (core_dispatch asking)), \<lparr>errno = 0, os = 0\<rparr>)), core_dns := core_dns sleeping\<rparr>)"
    by (rule reach_op) (rule op_socket [OF demo_steps(3) [folded core_socket_construct_def] fine])
  then show ?thesis
  proof (rule reach_op)
    show "demo_op (asking\<lparr>core_dispatch := ([(7, App_handler ''h'')],
          (fst (snd (core_dispatch asking)), \<lparr>errno = 0, os = 0\<rparr>)), core_dns := core_dns sleeping\<rparr>) asking"
      by (rule op_query [where m = "query_ptr count_adns ''1.0.0.127.in-addr.arpa'' (Some ''h'')" and
            owner = "''1.0.0.127.in-addr.arpa''" and h = "Some ''h''", OF _ demo_steps(4) fine]) simp
  qed
qed

theorem program_stays_consistent_witness:
  "demo_reaches asking \<and> queries (core_dns asking) = [(1, Callback_PTR (Some ''h''))] \<and> dns_ok count_view asking"
proof -
  have "demux_keeps count_view plain_poll"
    unfolding plain_poll_def by (rule demux_keeps_poll) (simp_all add: demo_laws)
  from program_stays_consistent [OF count_laws(2,1) demo_laws(1-3) this demo_acts(1) demo_acts(2) demo_acts(1) demo_reaches_asking]
  show ?thesis using demo_reaches_asking by (simp add: asking_def)
qed

theorem poll_program_stays_consistent_witness:
  "demo_reaches asking \<and> fst (core_dispatch asking) = [(7, App_handler ''h'')] \<and> dp_ok (core_dispatch asking) \<and> dns_ok count_view asking"
proof -
  have "dp_ok (core_dispatch asking) \<and> distinct (registered_sockets (core_dns asking)) \<and>
      (\<forall>s \<in> set (registered_sockets (core_dns asking)). dp_interest (core_dispatch asking) s \<noteq> None) \<and> dns_ok count_view asking"
    by (rule poll_program_stays_consistent [OF count_laws(2,1) demo_laws(1-3) _ _ _
          demo_acts(1,2,1) [unfolded plain_poll_def] demo_reaches_asking [unfolded plain_poll_def]])
      (simp_all add: demo_laws)
  then show ?thesis using demo_reaches_asking by (simp add: asking_def)
qed

text \<open>A program on \<open>epoll\<close> that waits for descriptor 7.\<close>

definition no_answers :: "sim \<Rightarrow> int \<rightharpoonup> rrtype" where
  "no_answers k = Map.empty"

type_synonym epoll_program = "(string core_task, string core_handler, epoll_demux, string, sim) core_state"

abbreviation strict_ops :: "(epoll_demux \<times> sim world) demux_ops" where
  "strict_ops \<equiv> epoll_ops sim_sock True (\<lambda>_ w. ((0, {}), w)) strict_epoll"

abbreviation strict_reaches :: "epoll_program \<Rightarrow> bool" where
  "strict_reaches \<equiv> program_reaches strict_ops quiet_adns wall_clock (\<lambda>k k'. same_watch sim_view k k' \<and> no_answers k' = no_answers k)
     (\<lambda>h ev. nothing) (\<lambda>f. nothing) (\<lambda>u x. nothing) (epoll_construct strict_epoll 10) (\<lambda>d w. map_prod id snd (epoll_destruct sim_sock (d, w)))"

definition epoll_started :: epoll_program where
  "epoll_started = \<lparr>core_now = \<lparr>tv_sec = 40, tv_usec = 0\<rparr>, core_schedule = schedule_init,
     core_dispatch = ([], (sim_demux, \<lparr>errno = 0, os = ({7}, \<lambda>_. Map.empty)\<rparr>)),
     core_dns = \<lparr>adns_timeout = timeout_new, queries = [], registered_sockets = [],
       pfds = replicate 2 \<lparr>pfd_fd = 0, pfd_events = 0, pfd_revents = 0\<rparr>\<rparr>\<rparr>"

definition epoll_waiting :: epoll_program where
  "epoll_waiting = epoll_started\<lparr>core_dispatch :=
     ([(7, App_handler ''h'')], (sim_demux, \<lparr>errno = 0, os = ({7}, (\<lambda>_. Map.empty)(5 := [7 \<mapsto> 1]))\<rparr>))\<rparr>"

lemma epoll_steps:
  "core_construct wall_clock (epoll_construct strict_epoll 10) (\<lambda>d w. map_prod id snd (epoll_destruct sim_sock (d, w))) quiet_adns
     \<lparr>errno = 0, os = ({7}, \<lambda>_. Map.empty)\<rparr> = (Inr epoll_started, \<lparr>errno = 0, os = ({7}, \<lambda>_. Map.empty)\<rparr>)"
  "on_dispatch (dispatch_socket_construct strict_ops 7 (App_handler ''h'') 1) epoll_started
     = (Inr \<lparr>sock = 7, close_flag = True\<rparr>, epoll_waiting)"
proof goal_cases
  case 1
  have "epoll_construct strict_epoll 10 \<lparr>errno = 0, os = ({7}, \<lambda>_. Map.empty)\<rparr> = (Inr sim_demux, \<lparr>errno = 0, os = ({7}, \<lambda>_. Map.empty)\<rparr>)"
    by (simp add: epoll_construct_def Let_def strict_epoll_def sim_demux_def op_simps fun_eq_iff)
  then show ?case
    by (simp add: core_construct_def time_construct_def time_update_def wall_clock_def op_simps adns_construct_def lib_call_def
        quiet_adns_def throw_rc_if_not_zero_def epoll_started_def ADNS_POLLFDS_RECOMMENDED_def unwind_op_def)
next
  case 2
  show ?case
    by (simp add: on_dispatch_def dispatch_socket_construct_def epoll_ops_def epoll_socket_construct_def
        system_socket_construct_def epoll_register_def handlers_insert_def strict_epoll_def strict_ctl_def sim_demux_def
        on_fst_def on_snd_def unwind_op_def op_simps epoll_started_def epoll_waiting_def watch_update_def
        EPOLL_CTL_ADD_def EPOLL_CTL_DEL_def fun_eq_iff)
qed

lemma strict_laws:
  "adns_submit_law no_answers quiet_adns" "adns_check_law no_answers quiet_adns" "adns_init_law no_answers quiet_adns"
  "adns_quiet_law (same_watch sim_view) no_answers quiet_adns" "clock_law (same_watch sim_view) no_answers wall_clock"
  by (auto simp: adns_submit_law_def adns_check_law_def adns_init_law_def adns_quiet_law_def clock_law_def
      quiet_adns_def no_answers_def same_watch_def wall_clock_def errno_codes)

lemma strict_kernel: "epoll_kernel sim_view no_answers sim_sock True (\<lambda>_ w. ((0, {}), w)) strict_epoll"
proof -
  have "demux_keeps no_answers strict_ops"
    by (rule demux_keeps_epoll) (simp_all add: quiet_call_def no_answers_def)
  then show ?thesis
    using strict_epoll_laws by (simp add: epoll_kernel_def quiet_call_def strict_epoll_def sim_wait_def)
qed

lemma strict_reaches_waiting: "strict_reaches epoll_waiting"
proof -
  have "strict_reaches epoll_started" by (rule reach_start [OF epoll_steps(1)])
  then show ?thesis by (rule reach_op) (rule op_socket [OF epoll_steps(2) [folded core_socket_construct_def]], simp add: settled_def)
qed

theorem epoll_program_watches_handled_witness:
  "strict_reaches epoll_waiting \<and> watched sim_view (os (the_world epoll_waiting)) 5 7 = Some 1 \<and>
   map_of (fst (core_dispatch epoll_waiting)) 7 \<noteq> None"
proof -
  have st: "core_dispatch epoll_waiting = ([(7, App_handler ''h'')], sim_demux,
      \<lparr>errno = 0, os = ({7}, (\<lambda>_. Map.empty)(5 := [7 \<mapsto> 1]))\<rparr>)" by (simp add: epoll_waiting_def)
  have acts: "acts r nothing" for r by (simp add: acts_def nothing_def)
  have "map_of (fst (core_dispatch epoll_waiting)) 7 \<noteq> None"
    unfolding st fst_conv
    by (rule epoll_program_watches_handled [OF strict_laws(1-5) strict_kernel strict_epoll_laws(3) acts acts acts strict_reaches_waiting st])
      (simp add: sim_view_def sim_demux_def)
  with strict_reaches_waiting st show ?thesis by (simp add: sim_view_def)
qed







end
