(* ===== verification/Ioxx_Client.thy ===== *)
theory Ioxx_Client
  imports Ioxx_Adns_Sockets Ioxx_Acceptor Ioxx_Core_Invariant
begin

text \<open>
  What the clients of the library under \<open>test/\<close> share: exception handlers, the documented behaviour of
  the kernel's streams with what it means for \<open>read\<close>, \<open>write\<close> and \<open>send_to\<close>, and the effect of the
  operations of \<open>core\<close> that an object with a socket and a time-out uses, on the \<open>poll\<close> demultiplexer.
\<close>

text \<open>\<open>try { ... } catch (std::exception const &) { ... }\<close>\<close>

definition catch_op :: "('s, 'a) op \<Rightarrow> ('s, 'a) op \<Rightarrow> ('s, 'a) op" where
  "catch_op m h s = (case m s of (Inl e, t) \<Rightarrow> (if is_exception e then h t else (Inl e, t)) | (Inr a, t) \<Rightarrow> (Inr a, t))"

section \<open>The acceptor of a server\<close>

text \<open>The acceptor hands a connection to the program; the world it acts on is the program's.\<close>

definition on_accept ::
  "(int \<Rightarrow> address \<Rightarrow> (('f, 'h, 'd, 'u, 'k, 'm) core_state_scheme, unit) op) \<Rightarrow> int \<Rightarrow> address \<Rightarrow>
   (('f, 'h, 'd, 'u, 'k, 'm) core_state_scheme \<times> 'k world, unit) prog" where
  "on_accept accept s peer = (\<lambda>(st, w). case accept s peer (with_world w st) of (r, st') \<Rightarrow> Some (r, (st', the_world st')))"

text \<open>\<open>acceptor::run\<close> as a handler of the dispatcher, for the acceptor with the socket \<open>ls\<close>.\<close>

definition acceptor_handler ::
  "'k sock_os \<Rightarrow> (int \<Rightarrow> address \<Rightarrow> (('f, 'h, 'd, 'u, 'k, 'm) core_state_scheme, unit) op) \<Rightarrow> system_socket \<Rightarrow>
   (('f, 'h, 'd, 'u, 'k, 'm) core_state_scheme, unit) prog" where
  "acceptor_handler P accept ls st =
     map_option (\<lambda>(r, (st', w)). (r, with_world w st')) (acceptor_run P (on_accept accept) ls address_default (st, the_world st))"

section \<open>What was read and what was written\<close>

text \<open>The documented behaviour of \<open>read(2)\<close> and \<open>write(2)\<close> on streams: \<open>rx\<close> and \<open>tx\<close> are all the bytes the
  program has read from, and written to, a descriptor.\<close>

definition stream_law :: "('k \<Rightarrow> int \<Rightarrow> u8 list) \<Rightarrow> ('k \<Rightarrow> int \<Rightarrow> u8 list) \<Rightarrow> 'k kernel_view \<Rightarrow> 'k sock_os \<Rightarrow> bool" where
  "stream_law rx tx V P \<longleftrightarrow>
     (\<forall>s n w rc bytes w'. sys_read P s n w = ((rc, bytes), w') \<longrightarrow> (rc \<le> 0 \<longrightarrow> bytes = []) \<and>
        rx (os w') = (rx (os w))(s := rx (os w) s @ bytes) \<and> tx (os w') = tx (os w) \<and> open_fds V (os w') = open_fds V (os w)) \<and>
     (\<forall>s bytes w rc w'. sys_write P s bytes w = (rc, w') \<longrightarrow> -1 \<le> rc \<and> rc \<le> int (length bytes) \<and>
        tx (os w') = (tx (os w))(s := tx (os w) s @ take (nat rc) bytes) \<and> rx (os w') = rx (os w) \<and>
        open_fds V (os w') = open_fds V (os w)) \<and>
     (\<forall>s w. rx (os (snd (sys_close P s w))) = rx (os w) \<and> tx (os (snd (sys_close P s w))) = tx (os w))"

lemma stream_lawD:
  assumes "stream_law rx tx V P"
  shows "sys_read P s n w = ((rc, bytes), w') \<Longrightarrow> (rc \<le> 0 \<longrightarrow> bytes = []) \<and>
      rx (os w') = (rx (os w))(s := rx (os w) s @ bytes) \<and> tx (os w') = tx (os w) \<and> open_fds V (os w') = open_fds V (os w)"
    and "sys_write P s bytes w = (rc, w') \<Longrightarrow> -1 \<le> rc \<and> rc \<le> int (length bytes) \<and>
      tx (os w') = (tx (os w))(s := tx (os w) s @ take (nat rc) bytes) \<and> rx (os w') = rx (os w) \<and>
      open_fds V (os w') = open_fds V (os w)"
    and "rx (os (snd (sys_close P s w))) = rx (os w)" and "tx (os (snd (sys_close P s w))) = tx (os w)"
  using assms unfolding stream_law_def by (simp_all del: split_paired_All)

lemma socket_read_streams:
  assumes law: "stream_law rx tx V P" "read_law P" and range: "b < e"
    and run: "socket_read P sk buf b e w = (r, w')"
  shows "open_fds V (os w') = open_fds V (os w) \<and> tx (os w') = tx (os w) \<and>
    ((\<exists>ec. r = Inl (System_error ec ''read(2)'')) \<and> rx (os w') = rx (os w) \<or>
     r = Inr (None, buf) \<and> rx (os w') = rx (os w) \<or>
     (\<exists>bytes. r = Inr (Some (b + int (length bytes)), store_bytes buf b bytes) \<and> int (length bytes) \<le> e - b \<and>
        rx (os w') = (rx (os w))(sock sk := rx (os w) (sock sk) @ bytes)))"
proof -
  let ?f = "sys_read P (sock sk) (e - b)" and ?q = "\<lambda>w. (rx (os w), tx (os w), open_fds V (os w))"
  obtain x w1 where call: "nonblocking_call ''read(2)'' ?f w = (x, w1)" by (metis surj_pair)
  have quiet: "?q v' = ?q v" if "?f v = (y, v')" "not_ewould_block (fst y) (errno v')" for v y v'
    using stream_lawD(1) [OF law(1), of "sock sk" "e - b" v "fst y" "snd y" v'] that by (auto simp: not_ewould_block_def)
  have last: "case x of Inl _ \<Rightarrow> ?q w1 = ?q w | Inr y \<Rightarrow> \<exists>w0. ?q w0 = ?q w \<and> ?f w0 = (y, w1) \<and> \<not> not_ewould_block (fst y) (errno w1)"
    by (rule throw_errno_if_last [where q = ?q, OF _ call [unfolded nonblocking_call_def]]) (rule quiet)
  show ?thesis
  proof (cases x)
    case (Inl z)
    with nonblocking_call_cases [OF call] obtain ec where "z = System_error ec ''read(2)''" by auto
    with Inl last run range call show ?thesis by (auto simp: socket_read_def op_simps)
  next
    case (Inr y)
    obtain rc bytes where y: "y = (rc, bytes)" by (cases y)
    with last Inr obtain w0 where w0: "?q w0 = ?q w" "?f w0 = ((rc, bytes), w1)" "\<not> not_ewould_block rc (errno w1)" by auto
    note k = stream_lawD(1) [OF law(1) w0(2)]
    have rc: "rc = -1 \<or> 0 \<le> rc \<and> rc \<le> e - b \<and> int (length bytes) = rc" using law(2) w0(2) unfolding read_law_def by blast
    have "socket_read P sk buf b e w =
        (if rc = -1 then (Inr (Some b, buf), w1) else if rc = 0 then (Inr (None, buf), w1)
         else (Inr (Some (b + rc), store_bytes buf b bytes), w1))"
      using range call Inr y w0(3) by (auto simp: socket_read_def op_simps not_ewould_block_def)
    with run rc k w0(1) range show ?thesis by (auto simp: store_bytes_def fun_upd_idem split: if_splits)
  qed
qed

text \<open>A call that takes some of the bytes it is given, or would block, or fails.\<close>

lemma stream_call:
  assumes k: "\<And>v y v'. f v = (y, v') \<Longrightarrow> -1 \<le> fst y \<and> fst y \<le> int (length bytes) \<and> Q v' = Q v \<and>
      tx (os v') = (tx (os v))(s := tx (os v) s @ take (nat (fst y)) bytes)"
    and call: "nonblocking_call msg f w = (x, w')"
  shows "Q w' = Q w \<and> (case x of
      Inl e \<Rightarrow> (\<exists>ec. e = System_error ec msg) \<and> tx (os w') = tx (os w)
    | Inr y \<Rightarrow> -1 \<le> fst y \<and> fst y \<le> int (length bytes) \<and> \<not> not_ewould_block (fst y) (errno w') \<and>
        tx (os w') = (tx (os w))(s := tx (os w) s @ take (nat (fst y)) bytes))"
proof -
  let ?q = "\<lambda>w. (tx (os w), Q w)"
  have quiet: "?q v' = ?q v" if "f v = (y, v')" "not_ewould_block (fst y) (errno v')" for v y v'
    using k [OF that(1)] that(2) by (auto simp: not_ewould_block_def)
  have last: "case x of Inl _ \<Rightarrow> ?q w' = ?q w | Inr y \<Rightarrow> \<exists>w0. ?q w0 = ?q w \<and> f w0 = (y, w') \<and> \<not> not_ewould_block (fst y) (errno w')"
    by (rule throw_errno_if_last [where q = ?q, OF _ call [unfolded nonblocking_call_def]]) (rule quiet)
  show ?thesis
  proof (cases x)
    case (Inl e)
    with nonblocking_call_cases [OF call] last show ?thesis by auto
  next
    case (Inr y)
    with last obtain w0 where w0: "?q w0 = ?q w" "f w0 = (y, w')" "\<not> not_ewould_block (fst y) (errno w')" by auto
    with k [OF w0(2)] Inr show ?thesis by auto
  qed
qed

text \<open>The pointer that \<open>write\<close> and \<open>send_to\<close> make of it.\<close>

lemma stream_pointer:
  assumes eff: "case x of
      Inl e \<Rightarrow> (\<exists>ec. e = System_error ec msg) \<and> T' = T
    | Inr y \<Rightarrow> -1 \<le> fst y \<and> fst y \<le> int (length bytes) \<and> \<not> not_ewould_block (fst y) err \<and> T' = T(s := T s @ take (nat (fst y)) bytes)"
    and r: "r = (case x of Inl z \<Rightarrow> Inl z | Inr y \<Rightarrow> Inr (if fst y < 0 then Some b else if fst y = 0 then None else Some (b + fst y)))"
  shows "(\<exists>ec. r = Inl (System_error ec msg)) \<and> T' = T \<or> r = Inr None \<and> T' = T \<or>
    (\<exists>n. r = Inr (Some (b + int n)) \<and> n \<le> length bytes \<and> T' = T(s := T s @ take n bytes))"
proof (cases x)
  case (Inl e)
  with eff r show ?thesis by auto
next
  case (Inr y)
  show ?thesis
  proof (cases "fst y = 0")
    case True
    with Inr eff r show ?thesis by (simp add: fun_upd_idem)
  next
    case False
    with Inr eff r have "r = Inr (Some (b + int (nat (fst y))))" "nat (fst y) \<le> length bytes" by auto
    with Inr eff show ?thesis by (intro disjI2 exI [of _ "nat (fst y)"]) simp
  qed
qed

lemma socket_write_streams:
  assumes law: "stream_law rx tx V P" and range: "b < e"
    and run: "socket_write P sk buf b e w = (r, w')"
  shows "open_fds V (os w') = open_fds V (os w) \<and> rx (os w') = rx (os w) \<and>
    ((\<exists>ec. r = Inl (System_error ec ''write(2)'')) \<and> tx (os w') = tx (os w) \<or>
     r = Inr None \<and> tx (os w') = tx (os w) \<or>
     (\<exists>n. r = Inr (Some (b + int n)) \<and> n \<le> length (load_bytes buf b e) \<and>
        tx (os w') = (tx (os w))(sock sk := tx (os w) (sock sk) @ take n (load_bytes buf b e))))"
proof -
  let ?bytes = "load_bytes buf b e" and ?Q = "\<lambda>w. (rx (os w), open_fds V (os w))"
  let ?f = "\<lambda>w. case sys_write P (sock sk) ?bytes w of (rc, w') \<Rightarrow> ((rc, ()), w')"
  have k: "-1 \<le> fst y \<and> fst y \<le> int (length ?bytes) \<and> ?Q v' = ?Q v \<and>
      tx (os v') = (tx (os v))(sock sk := tx (os v) (sock sk) @ take (nat (fst y)) ?bytes)" if "?f v = (y, v')" for v y v'
    using stream_lawD(2) [OF law, of "sock sk" ?bytes v "fst y" v'] that by (auto split: prod.splits)
  obtain x w1 where call: "nonblocking_call ''write(2)'' ?f w = (x, w1)" by (metis surj_pair)
  note eff = stream_call [of ?f ?bytes ?Q tx "sock sk", OF k call]
  have "socket_write P sk buf b e w = (case x of Inl z \<Rightarrow> Inl z
      | Inr y \<Rightarrow> Inr (if fst y < 0 then Some b else if fst y = 0 then None else Some (b + fst y)), w1)"
    using range call eff by (auto simp: socket_write_def op_simps not_ewould_block_def split: sum.split)
  with run have r: "r = (case x of Inl z \<Rightarrow> Inl z
      | Inr y \<Rightarrow> Inr (if fst y < 0 then Some b else if fst y = 0 then None else Some (b + fst y)))" and w: "w' = w1" by simp_all
  show ?thesis using stream_pointer [OF conjunct2 [OF eff] r] eff unfolding w by simp
qed

text \<open>\<open>sendmsg(2)\<close> on a stream is \<open>write(2)\<close> with several buffers.\<close>

definition send_law :: "('k \<Rightarrow> int \<Rightarrow> u8 list) \<Rightarrow> 'k kernel_view \<Rightarrow> 'k sock_os \<Rightarrow> bool" where
  "send_law tx V P \<longleftrightarrow>
     (\<forall>s chunks addr fl w rc w'. sys_sendmsg P s chunks addr fl w = (rc, w') \<longrightarrow> -1 \<le> rc \<and> rc \<le> int (length (concat chunks)) \<and>
        tx (os w') = (tx (os w))(s := tx (os w) s @ take (nat rc) (concat chunks)) \<and> open_fds V (os w') = open_fds V (os w)) \<and>
     (\<forall>s w. tx (os (snd (sys_close P s w))) = tx (os w))"

lemma send_lawD:
  assumes "send_law tx V P"
  shows "sys_sendmsg P s chunks addr fl w = (rc, w') \<Longrightarrow> -1 \<le> rc \<and> rc \<le> int (length (concat chunks)) \<and>
      tx (os w') = (tx (os w))(s := tx (os w) s @ take (nat rc) (concat chunks)) \<and> open_fds V (os w') = open_fds V (os w)"
    and "tx (os (snd (sys_close P s w))) = tx (os w)"
  using assms unfolding send_law_def by (simp_all del: split_paired_All)

lemma send_to_streams:
  assumes law: "send_law tx V P" and range: "b < e"
    and run: "send_to P sk buf b e addr w = (r, w')"
  shows "open_fds V (os w') = open_fds V (os w) \<and>
    ((\<exists>ec. r = Inl (System_error ec ''sendmsg(2)'')) \<and> tx (os w') = tx (os w) \<or>
     r = Inr None \<and> tx (os w') = tx (os w) \<or>
     (\<exists>n. r = Inr (Some (b + int n)) \<and> n \<le> length (load_bytes buf b e) \<and>
        tx (os w') = (tx (os w))(sock sk := tx (os w) (sock sk) @ take n (load_bytes buf b e))))"
proof -
  let ?bytes = "load_bytes buf b e" and ?Q = "\<lambda>w. open_fds V (os w)"
  let ?f = "\<lambda>w. case sys_sendmsg P (sock sk) [?bytes] addr MSG_DONTWAIT w of (rc, w') \<Rightarrow> ((rc, ()), w')"
  have k: "-1 \<le> fst y \<and> fst y \<le> int (length ?bytes) \<and> ?Q v' = ?Q v \<and>
      tx (os v') = (tx (os v))(sock sk := tx (os v) (sock sk) @ take (nat (fst y)) ?bytes)" if "?f v = (y, v')" for v y v'
    using send_lawD(1) [OF law, of "sock sk" "[?bytes]" addr MSG_DONTWAIT v "fst y" v'] that by (auto split: prod.splits)
  obtain x w1 where call: "nonblocking_call ''sendmsg(2)'' ?f w = (x, w1)" by (metis surj_pair)
  note eff = stream_call [of ?f ?bytes ?Q tx "sock sk", OF k call]
  have "send_to P sk buf b e addr w = (case x of Inl z \<Rightarrow> Inl z
      | Inr y \<Rightarrow> Inr (if fst y < 0 then Some b else if fst y = 0 then None else Some (b + fst y)), w1)"
    using range call by (auto simp: send_to_def send_to_iov_def op_simps split: sum.split)
  with run have r: "r = (case x of Inl z \<Rightarrow> Inl z
      | Inr y \<Rightarrow> Inr (if fst y < 0 then Some b else if fst y = 0 then None else Some (b + fst y)))" and w: "w' = w1" by simp_all
  show ?thesis using stream_pointer [OF conjunct2 [OF eff] r] eff unfolding w by simp
qed

text \<open>The kernel takes none of the bytes: the last call of \<open>sendmsg(2)\<close> that \<open>send_to\<close> makes, which
  follows \<open>i\<close> interrupted ones, answers 0, or fails for a reason of its own or in the sixth attempt.\<close>

definition takes_no_byte :: "'k sock_os \<Rightarrow> int \<Rightarrow> u8 list \<Rightarrow> address \<Rightarrow> 'k world \<Rightarrow> bool" where
  "takes_no_byte P s bytes addr w \<longleftrightarrow>
     (let f = sys_sendmsg P s [bytes] addr MSG_DONTWAIT in
      \<exists>i \<le> 5. (\<forall>j < i. interrupted not_ewould_block j f w) \<and> nth_result i f w < 1 \<and>
        (i = 5 \<or> \<not> interrupted not_ewould_block i f w))"

lemma paired_call:
  fixes f :: "('k, int) syscall"
  defines "g \<equiv> \<lambda>w. case f w of (rc, w') \<Rightarrow> ((rc, ()), w')"
  shows "world_after i g w = world_after i f w" "fst (nth_result i g w) = nth_result i f w"
    "interrupted (\<lambda>r e. not_ewould_block (fst r) e) i g w = interrupted not_ewould_block i f w"
proof -
  have w: "world_after i g w = world_after i f w" for i
    by (induction i arbitrary: w) (simp_all add: g_def case_prod_beta)
  then show "world_after i g w = world_after i f w" .
  show n: "fst (nth_result i g w) = nth_result i f w"
    unfolding nth_result_def w by (simp add: g_def case_prod_beta)
  show "interrupted (\<lambda>r e. not_ewould_block (fst r) e) i g w = interrupted not_ewould_block i f w"
    unfolding interrupted_def n w ..
qed

lemma send_to_stuck:
  assumes range: "b < e" and run: "send_to P sk buf b e addr w = (r, w')" and stuck: "\<And>p. b < p \<Longrightarrow> r \<noteq> Inr (Some p)"
  shows "takes_no_byte P (sock sk) (load_bytes buf b e) addr w"
proof -
  let ?s = "sys_sendmsg P (sock sk) [load_bytes buf b e] addr MSG_DONTWAIT"
  let ?f = "\<lambda>w. case ?s w of (rc, w') \<Rightarrow> ((rc, ()), w')" and ?p = "\<lambda>r e. not_ewould_block (fst r) e"
  from nonblocking_call_attempt [of ?f w "''sendmsg(2)''"] obtain i where
    i: "i \<le> 5" "\<forall>j < i. interrupted ?p j ?f w" "i = 5 \<or> \<not> interrupted ?p i ?f w"
      "nonblocking_call ''sendmsg(2)'' ?f w = attempt ?p ''sendmsg(2)'' i ?f w" by blast
  have "nth_result i ?s w < 1"
  proof (rule ccontr)
    assume "\<not> nth_result i ?s w < 1"
    then have rc: "1 \<le> fst (nth_result i ?f w)" by (simp add: paired_call(2))
    then have "nonblocking_call ''sendmsg(2)'' ?f w = (Inr (nth_result i ?f w), world_after (Suc i) ?f w)"
      unfolding i(4) attempt_def by (simp add: not_ewould_block_def)
    with run range rc have "r = Inr (Some (b + fst (nth_result i ?f w)))"
      by (simp add: send_to_def send_to_iov_def op_simps case_prod_beta)
    with stuck [of "b + fst (nth_result i ?f w)"] rc show False by simp
  qed
  with i(1-3) show ?thesis unfolding takes_no_byte_def Let_def paired_call(3) by blast
qed

section \<open>Time-outs and sockets of an object\<close>

lemma cancel_timeout:
  assumes wf: "schedule_wf s" and t: "fst tid = 0 \<or> (\<exists>ts n. tid = (ts, Some n) \<and> timers s n = Some (ts, f))"
  obtains r tid' s' where "schedule_cancel tid s = (Inr (r, tid'), s')" "schedule_wf s'" "fst tid' = 0"
    "\<And>ts g. \<exists>n s''. schedule_at ts g s' = (Inr (ts, Some n), s'') \<and> timers s'' n = Some (ts, g) \<and> schedule_wf s''"
proof -
  have "\<exists>r tid' s'. schedule_cancel tid s = (Inr (r, tid'), s') \<and> schedule_wf s' \<and> fst tid' = 0"
  proof (cases "fst tid = 0")
    case True
    with wf show ?thesis using sched.cancel_null_law [of "snd tid" s] by (cases tid) auto
  next
    case False
    with t obtain ts n where "tid = (ts, Some n)" "timers s n = Some (ts, f)" "ts \<noteq> 0" by auto
    with sched.cancel_law [OF wf, of n ts f] show ?thesis by auto
  qed
  then obtain r tid' s' where c: "schedule_cancel tid s = (Inr (r, tid'), s')" "schedule_wf s'" "fst tid' = 0" by blast
  show thesis
    by (rule that [OF c]) (use sched.at_law [OF c(2)] in fastforce)
qed

lemma dp_world: "dp_ok (hs, d, w') \<longleftrightarrow> dp_ok (hs, d, w)" "dp_interest (hs, d, w') = dp_interest (hs, d, w)"
  by (simp_all add: dp_ok_def dp_interest_def fun_eq_iff)

lemma load_store: "length buf = n \<Longrightarrow> length bytes \<le> n \<Longrightarrow> load_bytes (store_bytes buf 0 bytes) 0 (int (length bytes)) = bytes"
  by (simp add: load_bytes_def store_bytes_def)

lemma load_bytes_drop: "0 \<le> b \<Longrightarrow> n \<le> length (load_bytes buf b e) \<Longrightarrow> load_bytes buf (b + int n) e = drop n (load_bytes buf b e)"
proof -
  assume "0 \<le> b"
  then have "nat (b + int n) = n + nat b" "nat (e - (b + int n)) = nat (e - b) - n" by linarith+
  then show ?thesis by (simp add: load_bytes_def drop_take)
qed

lemma bind_ret [simp]: "bind_op (ret a) k = k a"
  by (simp add: fun_eq_iff op_defs)

text \<open>The identifier of a time-out that is idle, or runs with the task \<open>f\<close>.\<close>

definition owns_timer :: "'f \<Rightarrow> task_id \<Rightarrow> 'f schedule \<Rightarrow> bool" where
  "owns_timer f tid s \<longleftrightarrow> fst tid = 0 \<or> (\<exists>ts n. tid = (ts, Some n) \<and> timers s n = Some (ts, f))"

lemma timer_cancelled:
  assumes "schedule_wf (core_schedule st)" "owns_timer f tid (core_schedule st)"
  obtains r tid' sch where "on_schedule (timeout_cancel tid) st = (Inr (r, tid'), st\<lparr>core_schedule := sch\<rparr>)"
    "fst tid' = 0" "schedule_wf sch"
proof -
  obtain r tid' sch where "schedule_cancel tid (core_schedule st) = (Inr (r, tid'), sch)" "schedule_wf sch" "fst tid' = 0"
    by (rule cancel_timeout [OF assms [unfolded owns_timer_def]])
  then show thesis by (intro that) (simp_all add: on_schedule_def timeout_cancel_def)
qed

lemma timer_armed:
  assumes "schedule_wf (core_schedule st)" "owns_timer f tid (core_schedule st)"
    and range: "in_time_range (current_time_t (core_now st) + uint to)"
  obtains r n sch where "on_schedule (timeout_in (current_time_t (core_now st)) to f tid) st
      = (Inr (r, (current_time_t (core_now st) + uint to, Some n)), st\<lparr>core_schedule := sch\<rparr>)"
    "timers sch n = Some (current_time_t (core_now st) + uint to, f)" "schedule_wf sch"
proof -
  let ?ts = "current_time_t (core_now st) + uint to"
  obtain r tid' s1 where cancel: "schedule_cancel tid (core_schedule st) = (Inr (r, tid'), s1)"
    and new: "\<exists>n s2. schedule_at ?ts f s1 = (Inr (?ts, Some n), s2) \<and> timers s2 n = Some (?ts, f) \<and> schedule_wf s2"
    by (rule cancel_timeout [OF assms(1,2) [unfolded owns_timer_def]]) blast
  from new obtain n s2 where n: "schedule_at ?ts f s1 = (Inr (?ts, Some n), s2)" "timers s2 n = Some (?ts, f)" "schedule_wf s2" by blast
  show thesis
    by (rule that [OF _ n(2,3)]) (use cancel n(1) range in \<open>simp add: op_defs on_schedule_def timeout_in_def timeout_at_def\<close>)
qed

text \<open>The destructor of the socket with descriptor \<open>s\<close>.\<close>

lemma socket_released:
  assumes law: "close_law V P" and keeps: "\<And>w. q (os (snd (sys_close P s w))) = q (os w)"
    and at: "dp_ok (core_dispatch st)" "sock_view st s \<noteq> None" "s \<in> open_fds V (os (the_world st))"
  obtains x where "on_dispatch (dispatch_socket_destruct (poll_ops P hv spm sys) \<lparr>sock = s, close_flag = True\<rparr>) st
      = (Inr (), st\<lparr>core_dispatch := x\<rparr>)"
    "dp_ok x" "dp_interest x s = None" "open_fds V (os (snd (snd x))) = open_fds V (os (the_world st)) - {s}"
    "q (os (snd (snd x))) = q (os (the_world st))"
proof -
  let ?sk = "\<lparr>sock = s, close_flag = True\<rparr>"
  obtain hs d w where disp: "core_dispatch st = (hs, d, w)" by (cases "core_dispatch st")
  obtain w' where close: "system_socket_destruct P ?sk w = (Inr (), w')" and gone: "open_fds V (os w') = open_fds V (os w) - {s}"
    by (rule close_cases [OF law, of ?sk w]) (use at disp in auto)
  have "keeps (\<lambda>w. q (os w)) (system_socket_destruct P ?sk)"
    unfolding system_socket_destruct_def by (auto intro!: keeps_intros simp: keeps)
  from keepsD [OF this close] have kept: "q (os w') = q (os w)" by simp
  have ok: "dp_ok (hs, d, w)" and "map_of hs s \<noteq> None" using at sock_view_None [of st s] disp by auto
  from dp_destruct [OF this close, of hv spm sys] obtain hs' d' where
    "dispatch_socket_destruct (poll_ops P hv spm sys) ?sk (hs, d, w) = (Inr (), (hs', d', w'))" "dp_ok (hs', d', w')"
      "dp_interest (hs', d', w') s = None" by auto
  with disp gone kept show thesis by (intro that [of "(hs', d', w')"]) (simp_all add: on_dispatch_def)
qed

text \<open>\<open>modify\<close> with a handler and events.\<close>

lemma socket_modified:
  assumes at: "dp_ok (core_dispatch st)" "sock_view st s \<noteq> None"
  obtains hs d where "on_dispatch (dispatch_modify (poll_ops P hv spm sys) s h ev) st
      = (Inr (), st\<lparr>core_dispatch := (hs, d, the_world st)\<rparr>)"
    "dp_ok (hs, d, the_world st)" "dp_interest (hs, d, the_world st) = (sock_view st)(s \<mapsto> (h, ucast ev))"
proof -
  obtain hs d w where disp: "core_dispatch st = (hs, d, w)" by (cases "core_dispatch st")
  have "dp_ok (hs, d, w)" "map_of hs s \<noteq> None" using at sock_view_None [of st s] disp by auto
  from dp_modify [OF this, of P hv spm sys h ev] obtain hs' d' where
    "dispatch_modify (poll_ops P hv spm sys) s h ev (hs, d, w) = (Inr (), (hs', d', w))" "dp_ok (hs', d', w)"
    "dp_interest (hs', d', w) = (dp_interest (hs, d, w))(s \<mapsto> (h, ucast ev))" by blast
  with disp show thesis by (intro that [of hs' d']) (simp_all add: on_dispatch_def)
qed

lemma socket_registered:
  assumes ok: "dp_ok (core_dispatch st)" and s: "0 \<le> s" "sock_view st s = None"
  obtains hs d where "core_socket_construct (poll_ops P hv spm sys) s h ev st
      = (Inr \<lparr>sock = s, close_flag = True\<rparr>, st\<lparr>core_dispatch := (hs, d, the_world st)\<rparr>)"
    "dp_ok (hs, d, the_world st)" "dp_interest (hs, d, the_world st) = (sock_view st)(s \<mapsto> (h, ucast ev))"
proof -
  obtain hs d w where disp: "core_dispatch st = (hs, d, w)" by (cases "core_dispatch st")
  have "map_of hs s = None" using s(2) sock_view_None [OF ok, of s] disp by simp
  from dp_construct [OF ok [unfolded disp] s(1) this, of P hv spm sys h ev] obtain hs' d' where
    "dispatch_socket_construct (poll_ops P hv spm sys) s h ev (hs, d, w)
      = (Inr \<lparr>sock = s, close_flag = True\<rparr>, (hs', d', w))" "dp_ok (hs', d', w)"
    "dp_interest (hs', d', w) = (dp_interest (hs, d, w))(s \<mapsto> (h, ucast ev))" by blast
  with disp show thesis by (intro that [of hs' d']) (simp_all add: core_socket_construct_def on_dispatch_def)
qed

section \<open>A kernel for the examples\<close>

text \<open>A kernel that always has two bytes to read and takes all that is written.\<close>

type_synonym streams = "int set \<times> (int \<Rightarrow> u8 list) \<times> (int \<Rightarrow> u8 list)"

definition streams_view :: "streams kernel_view" where
  "streams_view = \<lparr>watched = \<lambda>_ _. Map.empty, open_fds = fst\<rparr>"

definition streams_sock :: "streams sock_os" where
  "streams_sock = quiet_sock\<lparr>
     sys_close := (\<lambda>s w. if s \<in> fst (os w) then (0, w\<lparr>os := (fst (os w) - {s}, snd (os w))\<rparr>) else (-1, w\<lparr>errno := 9\<rparr>)),
     sys_read := (\<lambda>s n w. if 2 \<le> n
       then ((2, [104, 105]), w\<lparr>os := (fst (os w), (fst (snd (os w)))(s := fst (snd (os w)) s @ [104, 105]), snd (snd (os w)))\<rparr>)
       else ((-1, []), w)),
     sys_write := (\<lambda>s b w.
       (int (length b), w\<lparr>os := (fst (os w), fst (snd (os w)), (snd (snd (os w)))(s := snd (snd (os w)) s @ b))\<rparr>)),
     sys_sendmsg := (\<lambda>s b a f w.
       (int (length (concat b)), w\<lparr>os := (fst (os w), fst (snd (os w)), (snd (snd (os w)))(s := snd (snd (os w)) s @ concat b))\<rparr>))\<rparr>"

lemma streams_laws: "close_law streams_view streams_sock" "read_law streams_sock"
    "stream_law (fst \<circ> snd) (snd \<circ> snd) streams_view streams_sock" "send_law (snd \<circ> snd) streams_view streams_sock"
  by (auto simp: close_law_def streams_view_def streams_sock_def read_law_def stream_law_def send_law_def split: if_splits)


end
