(* ===== verification/Ioxx_Echo.thy ===== *)
theory Ioxx_Echo
  imports Ioxx_Client
begin

text \<open>
  The echo server of \<open>test/echo.hpp\<close>, a client of the library: for each connection an object with a
  socket, a time-out and a buffer, whose member functions are the handler of the socket, the task of the
  time-out and the callback of a reverse query for the peer's name.

  The state of the program is the state of its \<open>core\<close> and the connection objects, by an identifier that
  stands for \<open>this\<close>.  The binding \<open>boost::bind(&echo::run, shared_from_this(), _1)\<close> is the value
  \<open>Echo_run i\<close>.  An object that nothing refers to any longer keeps its identifier; it has no members left
  that hold anything.  \<open>shutdown\<close>, when \<open>run\<close> calls it, erases the function object through which the
  dispatcher is calling \<open>run\<close>; a comment in \<open>dispatch::run\<close> warns of it.  The dispatcher's model passes
  handlers by value, so the theorems hold where \<open>boost::function\<close> survives that.
\<close>

section \<open>Connections\<close>

datatype echo_handler = Empty_handler | Echo_run nat | Acceptor_run
datatype echo_task = Echo_shutdown nat
datatype echo_answer = Echo_start nat

record echo =
  conn_sock :: "system_socket option"
  conn_timeout :: task_id
  conn_peer :: address
  conn_buf :: "u8 list"
  data_begin :: "int option"
  data_end :: "int option"

record ('f, 'h, 'd, 'u, 'k) echo_state = "('f, 'h, 'd, 'u, 'k) core_state" +
  conns :: "nat \<rightharpoonup> echo"
  next_conn :: nat

type_synonym ('d, 'k) echo_program = "(echo_task core_task, echo_handler core_handler, 'd, echo_answer, 'k) echo_state"

text \<open>Pointers into the buffer are offsets from its start, the null pointer is \<^const>\<open>None\<close>.\<close>

fun ptr_less :: "int option \<Rightarrow> int option \<Rightarrow> bool" where
  "ptr_less (Some a) (Some b) \<longleftrightarrow> a < b"
| "ptr_less _ _ \<longleftrightarrow> False"

definition ptr_le :: "int option \<Rightarrow> int option \<Rightarrow> bool" where
  "ptr_le p q \<longleftrightarrow> p = q \<or> ptr_less p q"

definition ECHO_BUF_SIZE :: nat where
  "ECHO_BUF_SIZE = 1024"

text \<open>Access to the members through \<open>this\<close>, and \<open>_sock->\<close>, which asserts that there is a socket.\<close>

definition with_conn :: "nat \<Rightarrow> (echo \<Rightarrow> (('d, 'k) echo_program, 'a) op) \<Rightarrow> (('d, 'k) echo_program, 'a) op" where
  "with_conn i f st = (case conns st i of None \<Rightarrow> (Inl Undefined_behaviour, st) | Some c \<Rightarrow> f c st)"

definition upd_conn :: "nat \<Rightarrow> (echo \<Rightarrow> echo) \<Rightarrow> (('d, 'k) echo_program, unit) op" where
  "upd_conn i g st = (Inr (), st\<lparr>conns := (conns st)(i := map_option g (conns st i))\<rparr>)"

definition with_sock :: "nat \<Rightarrow> (system_socket \<Rightarrow> (('d, 'k) echo_program, 'a) op) \<Rightarrow> (('d, 'k) echo_program, 'a) op" where
  "with_sock i f = with_conn i (\<lambda>c. case conn_sock c of None \<Rightarrow> raise_op Assertion_failed | Some sk \<Rightarrow> f sk)"

section \<open>Member functions\<close>

definition conn_timeout_in :: "nat \<Rightarrow> u32 \<Rightarrow> (('d, 'k) echo_program, unit) op" where
  "conn_timeout_in i to = with_conn i
     (\<lambda>c st. bind_op (on_schedule (timeout_in (current_time_t (core_now st)) to (App_task (Echo_shutdown i)) (conn_timeout c)))
        (\<lambda>(_, tid). upd_conn i (\<lambda>c. c\<lparr>conn_timeout := tid\<rparr>)) st)"

definition conn_timeout_cancel :: "nat \<Rightarrow> (('d, 'k) echo_program, unit) op" where
  "conn_timeout_cancel i = with_conn i
     (\<lambda>c. bind_op (on_schedule (timeout_cancel (conn_timeout c))) (\<lambda>(_, tid). upd_conn i (\<lambda>c. c\<lparr>conn_timeout := tid\<rparr>)))"

text \<open>\<open>scoped_ptr::reset\<close>, and the destructor of a \<open>scoped_ptr\<close>.\<close>

definition conn_sock_reset :: "('d \<times> 'k world) demux_ops \<Rightarrow> nat \<Rightarrow> (('d, 'k) echo_program, unit) op" where
  "conn_sock_reset M i = with_conn i
     (\<lambda>c. case conn_sock c of
        None \<Rightarrow> ret ()
      | Some sk \<Rightarrow> then_op (upd_conn i (\<lambda>c. c\<lparr>conn_sock := None\<rparr>)) (on_dispatch (dispatch_socket_destruct M sk)))"

definition echo_shutdown :: "('d \<times> 'k world) demux_ops \<Rightarrow> nat \<Rightarrow> (('d, 'k) echo_program, unit) op" where
  "echo_shutdown M i = then_op (conn_timeout_cancel i) (conn_sock_reset M i)"

text \<open>The constructor.  The buffer is not initialised.\<close>

definition echo_construct ::
  "('d \<times> 'k world) demux_ops \<Rightarrow> int \<Rightarrow> address \<Rightarrow> (('d, 'k) echo_program, nat) op" where
  "echo_construct M s peer =
     bind_op (core_socket_construct M s (App_handler Empty_handler) no_events)
       (\<lambda>sk st. let i = next_conn st in
          (Inr i, st\<lparr>next_conn := i + 1, conns := (conns st)(i \<mapsto>
             \<lparr>conn_sock = Some sk, conn_timeout = core_timeout_new, conn_peer = peer, conn_buf = replicate ECHO_BUF_SIZE 0,
              data_begin = Some 0, data_end = Some 0\<rparr>)\<rparr>))"

text \<open>The implicit destructor: the members in reverse order.\<close>

definition echo_destruct :: "('d \<times> 'k world) demux_ops \<Rightarrow> nat \<Rightarrow> (('d, 'k) echo_program, unit) op" where
  "echo_destruct M i = with_dtor
     (with_conn i (\<lambda>c. on_schedule (timeout_destroy (conn_timeout c))))
     (then_op (conn_sock_reset M i) (modify_op (\<lambda>st. st\<lparr>conns := (conns st)(i := None)\<rparr>)))"

text \<open>The handler of the acceptor.  When \<open>query_ptr\<close> throws, the local pointer is the only owner of the
  new object.\<close>

definition echo_accept ::
  "('d \<times> 'k world) demux_ops \<Rightarrow> 'k adns_lib \<Rightarrow> int \<Rightarrow> address \<Rightarrow> (('d, 'k) echo_program, unit) op" where
  "echo_accept M L s peer =
     bind_op (echo_construct M s peer)
       (\<lambda>i. unwind_op (query_ptr_address L peer (Some (Echo_start i))) (echo_destruct M i))"

definition echo_start :: "('d \<times> 'k world) demux_ops \<Rightarrow> nat \<Rightarrow> (('d, 'k) echo_program, unit) op" where
  "echo_start M i =
     then_op (with_sock i (\<lambda>sk. on_dispatch (dispatch_modify M (sock sk) (App_handler (Echo_run i)) (readable (dm_codes M)))))
       (conn_timeout_in i 10)"

text \<open>The two halves of \<open>run\<close>; the result is \<^const>\<open>False\<close> when the function has returned early.\<close>

definition echo_read :: "('d \<times> 'k world) demux_ops \<Rightarrow> 'k sock_os \<Rightarrow> nat \<Rightarrow> (('d, 'k) echo_program, bool) op" where
  "echo_read M P i = with_conn i
     (\<lambda>c. then_op (assert_op (data_begin c = data_end c))
       (then_op (upd_conn i (\<lambda>c. c\<lparr>data_begin := Some 0\<rparr>))
         (with_sock i (\<lambda>sk. bind_op (on_world (socket_read P sk (conn_buf c) 0 (int ECHO_BUF_SIZE)))
           (\<lambda>(p, buf). then_op (upd_conn i (\<lambda>c. c\<lparr>data_end := p, conn_buf := buf\<rparr>))
             (if p = None then then_op (echo_shutdown M i) (ret False)
              else then_op (assert_op (ptr_le (Some 0) p))
                (if p \<noteq> Some 0
                 then then_op (with_sock i (\<lambda>sk. on_dispatch (on_snd (dm_request M (sock sk) (writable (dm_codes M)))))) (ret True)
                 else ret True)))))))"

definition echo_write :: "('d \<times> 'k world) demux_ops \<Rightarrow> 'k sock_os \<Rightarrow> nat \<Rightarrow> (('d, 'k) echo_program, bool) op" where
  "echo_write M P i = with_conn i
     (\<lambda>c. then_op (assert_op (ptr_less (data_begin c) (data_end c)))
       (with_sock i (\<lambda>sk. bind_op (on_world (socket_write P sk (conn_buf c) (the (data_begin c)) (the (data_end c))))
         (\<lambda>p. then_op (upd_conn i (\<lambda>c. c\<lparr>data_begin := p\<rparr>))
           (if p = None then then_op (echo_shutdown M i) (ret False)
            else then_op (assert_op (ptr_le p (data_end c)))
              (if p = data_end c
               then then_op (upd_conn i (\<lambda>c. c\<lparr>data_begin := Some 0, data_end := Some 0\<rparr>))
                 (then_op (with_sock i (\<lambda>sk. on_dispatch (on_snd (dm_request M (sock sk) (readable (dm_codes M)))))) (ret True))
               else ret True))))))"

definition echo_run :: "('d \<times> 'k world) demux_ops \<Rightarrow> 'k sock_os \<Rightarrow> nat \<Rightarrow> u32 \<Rightarrow> (('d, 'k) echo_program, unit) op" where
  "echo_run M P i ev =
     catch_op
       (bind_op (if has_event ev (readable (dm_codes M)) then echo_read M P i else ret True)
         (\<lambda>go. if \<not> go then ret ()
            else bind_op (if has_event ev (writable (dm_codes M)) then echo_write M P i else ret True)
              (\<lambda>go. if \<not> go then ret () else conn_timeout_in i 5)))
       (echo_shutdown M i)"

section \<open>The program\<close>

text \<open>What the dispatcher, the schedule and the resolver call; \<open>ls\<close> is the socket of the acceptor.\<close>

fun echo_handlers ::
  "('d \<times> 'k world) demux_ops \<Rightarrow> 'k sock_os \<Rightarrow> 'k adns_lib \<Rightarrow> system_socket \<Rightarrow> echo_handler \<Rightarrow> u32 \<Rightarrow>
   (('d, 'k) echo_program, unit) prog" where
  "echo_handlers M P L ls Empty_handler ev = lift_op (raise_op (Runtime_error ''call to empty boost::function''))"
| "echo_handlers M P L ls (Echo_run i) ev = lift_op (echo_run M P i ev)"
| "echo_handlers M P L ls Acceptor_run ev = acceptor_handler P (echo_accept M L) ls"

fun echo_tasks :: "('d \<times> 'k world) demux_ops \<Rightarrow> echo_task \<Rightarrow> (('d, 'k) echo_program, unit) prog" where
  "echo_tasks M (Echo_shutdown i) = lift_op (echo_shutdown M i)"

fun echo_answers :: "('d \<times> 'k world) demux_ops \<Rightarrow> (('d, 'k) echo_program, echo_answer) dns_call" where
  "echo_answers M (Echo_start i) x = lift_op (echo_start M i)"

definition echo_accept_call ::
  "('d \<times> 'k world) demux_ops \<Rightarrow> 'k adns_lib \<Rightarrow> int \<Rightarrow> address \<Rightarrow> (('d, 'k) echo_program \<times> 'k world, unit) prog" where
  "echo_accept_call M L = on_accept (echo_accept M L)"

section \<open>A connection on \<open>poll\<close>\<close>

text \<open>The connection \<open>i\<close> owns the open descriptor \<open>s\<close>, which is registered with its handler, and its
  time-out, when it is running, with its task.\<close>

definition conn_at :: "'k kernel_view \<Rightarrow> nat \<Rightarrow> int \<Rightarrow> echo \<Rightarrow> (poll_demux, 'k) echo_program \<Rightarrow> bool" where
  "conn_at V i s c st \<longleftrightarrow> conns st i = Some c \<and> conn_sock c = Some \<lparr>sock = s, close_flag = True\<rparr> \<and>
     dp_ok (core_dispatch st) \<and> sock_view st s \<noteq> None \<and> s \<in> open_fds V (os (the_world st)) \<and> schedule_wf (core_schedule st) \<and>
     (fst (conn_timeout c) = 0 \<or>
      (\<exists>ts n. conn_timeout c = (ts, Some n) \<and> timers (core_schedule st) n = Some (ts, App_task (Echo_shutdown i))))"

definition conn_closed :: "'k kernel_view \<Rightarrow> nat \<Rightarrow> int \<Rightarrow> (poll_demux, 'k) echo_program \<Rightarrow> bool" where
  "conn_closed V i s st \<longleftrightarrow> (\<exists>c. conns st i = Some c \<and> conn_sock c = None \<and> fst (conn_timeout c) = 0) \<and>
     dp_ok (core_dispatch st) \<and> sock_view st s = None \<and> s \<notin> open_fds V (os (the_world st)) \<and> schedule_wf (core_schedule st)"

lemma conn_shutdown:
  assumes law: "close_law V P" "stream_law rx tx V P" and at: "conn_at V i s c st"
  shows "\<exists>st'. echo_shutdown (poll_ops P hv spm sys) i st = (Inr (), st') \<and> conn_closed V i s st' \<and>
    rx (os (the_world st')) = rx (os (the_world st)) \<and> tx (os (the_world st')) = tx (os (the_world st)) \<and>
    (\<forall>j. j \<noteq> i \<longrightarrow> conns st' j = conns st j) \<and> core_now st' = core_now st"
proof -
  let ?task = "App_task (Echo_shutdown i)" and ?q = "\<lambda>k. (rx k, tx k)"
  note at = at [unfolded conn_at_def, folded owns_timer_def]
  have wf: "schedule_wf (core_schedule st)" and t: "owns_timer ?task (conn_timeout c) (core_schedule st)" using at by blast+
  obtain r tid sch where cancel: "on_schedule (timeout_cancel (conn_timeout c)) st = (Inr (r, tid), st\<lparr>core_schedule := sch\<rparr>)"
    and sch: "fst tid = 0" "schedule_wf sch"
    by (rule timer_cancelled [OF wf t])
  let ?mid = "st\<lparr>core_schedule := sch, conns := (conns st)(i \<mapsto> c\<lparr>conn_timeout := tid, conn_sock := None\<rparr>)\<rparr>"
  have keeps: "?q (os (snd (sys_close P s w))) = ?q (os w)" for w by (simp add: stream_lawD(3,4) [OF law(2)])
  obtain x where x: "on_dispatch (dispatch_socket_destruct (poll_ops P hv spm sys) \<lparr>sock = s, close_flag = True\<rparr>) ?mid
      = (Inr (), ?mid\<lparr>core_dispatch := x\<rparr>)"
    "dp_ok x" "dp_interest x s = None" "open_fds V (os (snd (snd x))) = open_fds V (os (the_world ?mid)) - {s}"
    "?q (os (snd (snd x))) = ?q (os (the_world ?mid))"
    by (rule socket_released [OF law(1) keeps, of ?mid hv spm sys]) (use at in auto)
  have "echo_shutdown (poll_ops P hv spm sys) i st = (Inr (), ?mid\<lparr>core_dispatch := x\<rparr>)"
    using at cancel x(1)
    by (simp add: echo_shutdown_def conn_timeout_cancel_def conn_sock_reset_def with_conn_def upd_conn_def op_defs)
  moreover have "conn_closed V i s (?mid\<lparr>core_dispatch := x\<rparr>)" using x(2-4) sch by (simp add: conn_closed_def)
  ultimately show ?thesis using x(5) by (intro exI [of _ "?mid\<lparr>core_dispatch := x\<rparr>"]) simp
qed

lemma conn_rearm:
  assumes at: "conn_at V i s c st" and range: "in_time_range (current_time_t (core_now st) + uint to)"
  shows "\<exists>n sch. conn_timeout_in i to st = (Inr (), st\<lparr>core_schedule := sch,
      conns := (conns st)(i \<mapsto> c\<lparr>conn_timeout := (current_time_t (core_now st) + uint to, Some n)\<rparr>)\<rparr>) \<and>
    timers sch n = Some (current_time_t (core_now st) + uint to, App_task (Echo_shutdown i)) \<and> schedule_wf sch"
proof -
  let ?ts = "current_time_t (core_now st) + uint to" and ?f = "App_task (Echo_shutdown i)"
  note at = at [unfolded conn_at_def, folded owns_timer_def]
  have wf: "schedule_wf (core_schedule st)" and t: "owns_timer ?f (conn_timeout c) (core_schedule st)" using at by blast+
  obtain r n sch where n: "on_schedule (timeout_in (current_time_t (core_now st)) to ?f (conn_timeout c)) st
      = (Inr (r, (?ts, Some n)), st\<lparr>core_schedule := sch\<rparr>)"
    "timers sch n = Some (?ts, ?f)" "schedule_wf sch"
    by (rule timer_armed [OF wf t range])
  have "conn_timeout_in i to st = (Inr (), st\<lparr>core_schedule := sch, conns := (conns st)(i \<mapsto> c\<lparr>conn_timeout := (?ts, Some n)\<rparr>)\<rparr>)"
    using at n(1) by (simp add: conn_timeout_in_def with_conn_def upd_conn_def op_defs)
  with n(2,3) show ?thesis by blast
qed

lemma conn_request:
  assumes at: "conn_at V i s c st" and view: "sock_view st s = Some (f, e)"
  shows "\<exists>d'. with_sock i (\<lambda>sk. on_dispatch (on_snd (dm_request (poll_ops P hv spm sys) (sock sk) ev))) st
      = (Inr (), st\<lparr>core_dispatch := (fst (core_dispatch st), d', the_world st)\<rparr>) \<and>
    dp_ok (fst (core_dispatch st), d', the_world st) \<and>
    dp_interest (fst (core_dispatch st), d', the_world st) = (sock_view st)(s \<mapsto> (f, ucast ev))"
proof -
  note at = at [unfolded conn_at_def]
  obtain hs d w where disp: "core_dispatch st = (hs, d, w)" by (cases "core_dispatch st")
  have "dp_ok (hs, d, w)" using at disp by simp
  from dp_request [OF this view [unfolded disp], of P hv spm sys ev] show ?thesis
    using at disp by (auto simp: with_sock_def with_conn_def on_dispatch_def on_snd_def)
qed

section \<open>Relaying\<close>

text \<open>What was read and not been written yet is in the buffer between the two pointers, and the connection
  waits for what it can do next.\<close>

definition relay_ok ::
  "'k kernel_view \<Rightarrow> ('k \<Rightarrow> int \<Rightarrow> u8 list) \<Rightarrow> ('k \<Rightarrow> int \<Rightarrow> u8 list) \<Rightarrow> nat \<Rightarrow> int \<Rightarrow> (poll_demux, 'k) echo_program \<Rightarrow> bool" where
  "relay_ok V rx tx i s st \<longleftrightarrow> (\<exists>c b e. conn_at V i s c st \<and> data_begin c = Some b \<and> data_end c = Some e \<and>
     0 \<le> b \<and> b \<le> e \<and> e \<le> int ECHO_BUF_SIZE \<and> length (conn_buf c) = ECHO_BUF_SIZE \<and>
     rx (os (the_world st)) s = tx (os (the_world st)) s @ load_bytes (conn_buf c) b e \<and>
     sock_view st s = Some (App_handler (Echo_run i), ucast (if b < e then writable poll_codes else readable poll_codes)))"

definition relayed :: "('k \<Rightarrow> int \<Rightarrow> u8 list) \<Rightarrow> ('k \<Rightarrow> int \<Rightarrow> u8 list) \<Rightarrow> int \<Rightarrow> (poll_demux, 'k) echo_program \<Rightarrow> bool" where
  "relayed rx tx s st \<longleftrightarrow> (\<exists>rest. rx (os (the_world st)) s = tx (os (the_world st)) s @ rest)"

text \<open>How a half of \<open>run\<close> may end.\<close>

definition half_ok ::
  "'k kernel_view \<Rightarrow> ('k \<Rightarrow> int \<Rightarrow> u8 list) \<Rightarrow> ('k \<Rightarrow> int \<Rightarrow> u8 list) \<Rightarrow> nat \<Rightarrow> int \<Rightarrow> (poll_demux, 'k) echo_program \<Rightarrow>
   (fault + bool) \<times> (poll_demux, 'k) echo_program \<Rightarrow> bool" where
  "half_ok V rx tx i s st x \<longleftrightarrow> core_now (snd x) = core_now st \<and> relayed rx tx s (snd x) \<and>
     (case fst x of
        Inl e \<Rightarrow> is_exception e \<and> (\<exists>c. conn_at V i s c (snd x))
      | Inr go \<Rightarrow> if go then relay_ok V rx tx i s (snd x) else conn_closed V i s (snd x))"

lemma relay_ok_relayed: "relay_ok V rx tx i s st \<Longrightarrow> relayed rx tx s st"
  by (auto simp: relay_ok_def relayed_def)

lemma conn_at_step:
  assumes at: "conn_at V i s c st" and same: "open_fds V (os w') = open_fds V (os (the_world st))"
    "conn_sock c' = conn_sock c" "conn_timeout c' = conn_timeout c"
  shows "conn_at V i s c' ((with_world w' st)\<lparr>conns := (conns st)(i \<mapsto> c')\<rparr>)"
    and "sock_view ((with_world w' st)\<lparr>conns := (conns st)(i \<mapsto> c')\<rparr>) = sock_view st"
proof -
  obtain hs d w where disp: "core_dispatch st = (hs, d, w)" by (cases "core_dispatch st")
  show "conn_at V i s c' ((with_world w' st)\<lparr>conns := (conns st)(i \<mapsto> c')\<rparr>)"
    "sock_view ((with_world w' st)\<lparr>conns := (conns st)(i \<mapsto> c')\<rparr>) = sock_view st"
    using at same dp_world [of hs d w' w] by (auto simp: conn_at_def disp)
qed

lemma half_closed:
  assumes law: "close_law V P" "stream_law rx tx V P" and at: "conn_at V i s c st'" and rel: "relayed rx tx s st'"
    and now: "core_now st' = core_now st"
  shows "half_ok V rx tx i s st (then_op (echo_shutdown (poll_ops P hv spm sys) i) (ret False) st')"
  using conn_shutdown [OF law at, of hv spm sys] rel now by (auto simp: half_ok_def op_simps relayed_def)

lemma conn_ask:
  assumes at: "conn_at V i s c st" and ptrs: "data_begin c = Some b" "data_end c = Some e" "0 \<le> b" "b \<le> e" "e \<le> int ECHO_BUF_SIZE"
    and len: "length (conn_buf c) = ECHO_BUF_SIZE"
    and rest: "rx (os (the_world st)) s = tx (os (the_world st)) s @ load_bytes (conn_buf c) b e"
    and view: "sock_view st s = Some (App_handler (Echo_run i), e0)"
    and ev: "ev = (if b < e then writable poll_codes else readable poll_codes)"
  shows "half_ok V rx tx i s st
    (then_op (with_sock i (\<lambda>sk. on_dispatch (on_snd (dm_request (poll_ops P hv spm sys) (sock sk) ev)))) (ret True) st)"
proof -
  from conn_request [OF at view, of P hv spm sys ev] obtain d' where
    q: "with_sock i (\<lambda>sk. on_dispatch (on_snd (dm_request (poll_ops P hv spm sys) (sock sk) ev))) st
      = (Inr (), st\<lparr>core_dispatch := (fst (core_dispatch st), d', the_world st)\<rparr>)" (is "_ = (_, ?st)")
    "dp_ok (fst (core_dispatch st), d', the_world st)"
    "dp_interest (fst (core_dispatch st), d', the_world st) = (sock_view st)(s \<mapsto> (App_handler (Echo_run i), ucast ev))"
    by auto
  have "relay_ok V rx tx i s ?st"
    unfolding relay_ok_def using at q(2,3) ptrs len rest ev
    by (intro exI [of _ c] exI [of _ b] exI [of _ e]) (auto simp: conn_at_def)
  with q(1) show ?thesis by (simp add: half_ok_def op_simps relay_ok_relayed)
qed

lemma echo_read_ok:
  assumes law: "close_law V P" "stream_law rx tx V P" "read_law P"
    and at: "conn_at V i s c st" and buf: "data_begin c = data_end c" "length (conn_buf c) = ECHO_BUF_SIZE"
    and rel: "rx (os (the_world st)) s = tx (os (the_world st)) s"
    and view: "sock_view st s = Some (App_handler (Echo_run i), ucast (readable poll_codes))"
  shows "half_ok V rx tx i s st (echo_read (poll_ops P hv spm sys) P i st)"
proof -
  let ?M = "poll_ops P hv spm sys" and ?sk = "\<lparr>sock = s, close_flag = True\<rparr>"
  obtain r w' where read: "socket_read P ?sk (conn_buf c) 0 (int ECHO_BUF_SIZE) (the_world st) = (r, w')" by (metis surj_pair)
  have "(0 :: int) < int ECHO_BUF_SIZE" by (simp add: ECHO_BUF_SIZE_def)
  note k = socket_read_streams [OF law(2,3) this read]
  let ?c1 = "c\<lparr>data_begin := Some 0\<rparr>" and ?c2 = "\<lambda>p buf. c\<lparr>data_begin := Some 0, data_end := p, conn_buf := buf\<rparr>"
  let ?at = "\<lambda>c. (with_world w' st)\<lparr>conns := (conns st)(i \<mapsto> c)\<rparr>"
  have c: "conns st i = Some c" "conn_sock c = Some ?sk" using at by (simp_all add: conn_at_def)
  have M: "dm_codes ?M = poll_codes" by (simp add: poll_ops_def)
  have run: "echo_read ?M P i st = (case r of
      Inl e \<Rightarrow> (Inl e, ?at ?c1)
    | Inr (p, buf) \<Rightarrow>
        if p = None then then_op (echo_shutdown ?M i) (ret False) (?at (?c2 p buf))
        else then_op (assert_op (ptr_le (Some 0) p))
          (if p \<noteq> Some 0
           then then_op (with_sock i (\<lambda>sk. on_dispatch (on_snd (dm_request ?M (sock sk) (writable poll_codes))))) (ret True)
           else ret True) (?at (?c2 p buf)))"
    using c buf(1) read
    by (cases r) (auto simp: echo_read_def with_conn_def with_sock_def upd_conn_def op_defs on_world_apply M split: prod.split)
  have here: "conn_at V i s c' (?at c')" "sock_view (?at c') = sock_view st" if "conn_sock c' = conn_sock c" "conn_timeout c' = conn_timeout c" for c'
    using conn_at_step [OF at _ that] k by simp_all
  consider (thrown) e where "r = Inl e" "is_exception e" "rx (os w') = rx (os (the_world st))"
    | (closed) "r = Inr (None, conn_buf c)" "rx (os w') = rx (os (the_world st))"
    | (data) bytes where "r = Inr (Some (int (length bytes)), store_bytes (conn_buf c) 0 bytes)" "int (length bytes) \<le> int ECHO_BUF_SIZE"
        "rx (os w') = (rx (os (the_world st)))(s := rx (os (the_world st)) s @ bytes)"
    using k by fastforce
  then show ?thesis
  proof cases
    case thrown
    with run k rel here(1) [of ?c1] show ?thesis by (auto simp: half_ok_def relayed_def)
  next
    case closed
    have "relayed rx tx s (?at (?c2 None (conn_buf c)))" using closed k rel by (simp add: relayed_def)
    from half_closed [OF law(1,2) here(1) this] closed run show ?thesis by simp
  next
    case data
    let ?c = "?c2 (Some (int (length bytes))) (store_bytes (conn_buf c) 0 bytes)"
    have len: "length (conn_buf ?c) = ECHO_BUF_SIZE" using data(2) buf(2) by (simp add: store_bytes_def)
    have load: "load_bytes (conn_buf ?c) 0 (int (length bytes)) = bytes" using load_store [OF buf(2)] data(2) by simp
    have rest: "rx (os w') s = tx (os w') s @ load_bytes (conn_buf ?c) 0 (int (length bytes))"
      using data(3) k rel load by simp
    have at': "conn_at V i s ?c (?at ?c)" by (rule here) simp_all
    show ?thesis
    proof (cases "bytes = []")
      case True
      then have "relay_ok V rx tx i s (?at ?c)"
        using at' len rest here(2) [of ?c] view by (auto simp: relay_ok_def intro!: exI [of _ ?c])
      with True run data(1) show ?thesis
        by (simp add: half_ok_def ptr_le_def op_simps relay_ok_relayed)
    next
      case False
      have view': "sock_view (?at ?c) s = Some (App_handler (Echo_run i), ucast (readable poll_codes))" using here(2) [of ?c] view by simp
      have "half_ok V rx tx i s (?at ?c)
        (then_op (with_sock i (\<lambda>sk. on_dispatch (on_snd (dm_request ?M (sock sk) (writable poll_codes))))) (ret True) (?at ?c))"
        by (rule conn_ask [OF at' _ _ _ _ _ len _ view']) (use data(2) rest False in auto)
      with run data(1) False show ?thesis by (simp add: half_ok_def ptr_le_def op_simps)
    qed
  qed
qed

lemma echo_write_ok:
  assumes law: "close_law V P" "stream_law rx tx V P"
    and at: "conn_at V i s c st" and ptrs: "data_begin c = Some b" "data_end c = Some e" "0 \<le> b" "b < e" "e \<le> int ECHO_BUF_SIZE"
    and len: "length (conn_buf c) = ECHO_BUF_SIZE"
    and rel: "rx (os (the_world st)) s = tx (os (the_world st)) s @ load_bytes (conn_buf c) b e"
    and view: "sock_view st s = Some (App_handler (Echo_run i), ucast (writable poll_codes))"
  shows "half_ok V rx tx i s st (echo_write (poll_ops P hv spm sys) P i st)"
proof -
  let ?M = "poll_ops P hv spm sys" and ?sk = "\<lparr>sock = s, close_flag = True\<rparr>"
  obtain r w' where wr: "socket_write P ?sk (conn_buf c) b e (the_world st) = (r, w')" by (metis surj_pair)
  note k = socket_write_streams [OF law(2) ptrs(4) wr]
  let ?c = "\<lambda>p. c\<lparr>data_begin := p\<rparr>" and ?at = "\<lambda>c. (with_world w' st)\<lparr>conns := (conns st)(i \<mapsto> c)\<rparr>"
  have c: "conns st i = Some c" "conn_sock c = Some ?sk" using at by (simp_all add: conn_at_def)
  have M: "dm_codes ?M = poll_codes" by (simp add: poll_ops_def)
  let ?ask = "then_op (with_sock i (\<lambda>sk. on_dispatch (on_snd (dm_request ?M (sock sk) (readable poll_codes))))) (ret True)"
  have run: "echo_write ?M P i st = (case r of
      Inl e \<Rightarrow> (Inl e, with_world w' st)
    | Inr p \<Rightarrow>
        if p = None then then_op (echo_shutdown ?M i) (ret False) (?at (?c p))
        else then_op (assert_op (ptr_le p (data_end c)))
          (if p = data_end c then then_op (upd_conn i (\<lambda>c. c\<lparr>data_begin := Some 0, data_end := Some 0\<rparr>)) ?ask else ret True) (?at (?c p)))"
    using c ptrs wr
    by (cases r) (auto simp: echo_write_def with_conn_def with_sock_def upd_conn_def op_defs on_world_apply M split: prod.split)
  have here: "conn_at V i s c' (?at c')" "sock_view (?at c') = sock_view st" if "conn_sock c' = conn_sock c" "conn_timeout c' = conn_timeout c" for c'
    using conn_at_step [OF at _ that] k by simp_all
  have self: "?at c = with_world w' st" using c(1) by (simp add: fun_upd_idem)
  consider (thrown) x where "r = Inl x" "is_exception x" "tx (os w') = tx (os (the_world st))"
    | (reset) "r = Inr None" "tx (os w') = tx (os (the_world st))"
    | (data) n where "r = Inr (Some (b + int n))" "n \<le> length (load_bytes (conn_buf c) b e)"
        "tx (os w') = (tx (os (the_world st)))(s := tx (os (the_world st)) s @ take n (load_bytes (conn_buf c) b e))"
    using k by fastforce
  then show ?thesis
  proof cases
    case thrown
    with run k rel here(1) [of c] self show ?thesis by (auto simp: half_ok_def relayed_def)
  next
    case reset
    have "relayed rx tx s (?at (?c None))" using reset k rel by (simp add: relayed_def)
    from half_closed [OF law here(1) this] reset run show ?thesis by simp
  next
    case data
    let ?b = "b + int n"
    have "length (load_bytes (conn_buf c) b e) = nat (e - b)" using ptrs len by (simp add: load_bytes_def)
    then have le: "?b \<le> e" using data(2) ptrs by linarith
    have rest: "rx (os w') s = tx (os w') s @ load_bytes (conn_buf c) ?b e"
      using data(3) k rel load_bytes_drop [OF ptrs(3) data(2)] by simp
    show ?thesis
    proof (cases "?b = e")
      case False
      have "relay_ok V rx tx i s (?at (?c (Some ?b)))"
        unfolding relay_ok_def using here [of "?c (Some ?b)"] ptrs len le rest False view
        by (intro exI [of _ "?c (Some ?b)"] exI [of _ ?b] exI [of _ e]) auto
      with run data(1) ptrs False le show ?thesis by (simp add: half_ok_def ptr_le_def op_simps relay_ok_relayed)
    next
      case True
      let ?c0 = "c\<lparr>data_begin := Some 0, data_end := Some 0\<rparr>"
      have "half_ok V rx tx i s (?at ?c0) (?ask (?at ?c0))"
        by (rule conn_ask [OF here(1)]) (use here(2) [of ?c0] rest True view len in \<open>auto simp: load_bytes_def\<close>)
      with run data(1) ptrs True show ?thesis by (simp add: half_ok_def ptr_le_def op_simps upd_conn_def)
    qed
  qed
qed

text \<open>The time-out of a connection that goes on.\<close>

definition idle_timer :: "nat \<Rightarrow> int \<Rightarrow> (poll_demux, 'k) echo_program \<Rightarrow> bool" where
  "idle_timer i ts st \<longleftrightarrow> (\<exists>c n. conns st i = Some c \<and> conn_timeout c = (ts, Some n) \<and>
     timers (core_schedule st) n = Some (ts, App_task (Echo_shutdown i)))"

lemma relay_rearm:
  assumes ok: "relay_ok V rx tx i s st" and range: "in_time_range (current_time_t (core_now st) + uint to)"
  shows "\<exists>st'. conn_timeout_in i to st = (Inr (), st') \<and> relay_ok V rx tx i s st' \<and>
    idle_timer i (current_time_t (core_now st) + uint to) st'"
proof -
  let ?ts = "current_time_t (core_now st) + uint to"
  obtain c b e where c: "conn_at V i s c st" "data_begin c = Some b" "data_end c = Some e" "0 \<le> b" "b \<le> e" "e \<le> int ECHO_BUF_SIZE"
    "length (conn_buf c) = ECHO_BUF_SIZE" "rx (os (the_world st)) s = tx (os (the_world st)) s @ load_bytes (conn_buf c) b e"
    "sock_view st s = Some (App_handler (Echo_run i), ucast (if b < e then writable poll_codes else readable poll_codes))"
    using ok unfolding relay_ok_def by blast
  from conn_rearm [OF c(1) range] obtain n sch where run: "conn_timeout_in i to st = (Inr (), st\<lparr>core_schedule := sch,
      conns := (conns st)(i \<mapsto> c\<lparr>conn_timeout := (?ts, Some n)\<rparr>)\<rparr>)" (is "_ = (_, ?st)")
    and n: "timers sch n = Some (?ts, App_task (Echo_shutdown i))" "schedule_wf sch" by blast
  have "conn_at V i s (c\<lparr>conn_timeout := (?ts, Some n)\<rparr>) ?st" using c(1) n by (simp add: conn_at_def)
  with c have "relay_ok V rx tx i s ?st"
    unfolding relay_ok_def by (intro exI [of _ "c\<lparr>conn_timeout := (?ts, Some n)\<rparr>"] exI [of _ b] exI [of _ e]) simp
  with run n(1) show ?thesis by (simp add: idle_timer_def)
qed

lemma echo_finish:
  assumes law: "close_law V P" "stream_law rx tx V P" and half: "half_ok V rx tx i s st (m st)"
    and range: "in_time_range (current_time_t (core_now st) + 5)"
  shows "\<exists>st'. catch_op (bind_op m (\<lambda>go. if \<not> go then ret () else conn_timeout_in i 5)) (echo_shutdown (poll_ops P hv spm sys) i) st
      = (Inr (), st') \<and> relayed rx tx s st' \<and>
    (conn_closed V i s st' \<or> relay_ok V rx tx i s st' \<and> idle_timer i (current_time_t (core_now st) + 5) st')"
proof -
  obtain r st1 where m: "m st = (r, st1)" by (cases "m st")
  note half = half [unfolded m half_ok_def fst_conv snd_conv]
  show ?thesis
  proof (cases r)
    case (Inl x)
    with half obtain c where at: "conn_at V i s c st1" and x: "is_exception x" by auto
    from conn_shutdown [OF law at, of hv spm sys] half m Inl x show ?thesis
      by (auto simp: catch_op_def op_simps relayed_def)
  next
    case (Inr go)
    show ?thesis
    proof (cases go)
      case True
      with half Inr range relay_rearm [of V rx tx i s st1 5] m show ?thesis
        by (auto simp: catch_op_def op_simps relay_ok_relayed)
    next
      case False
      with half Inr m show ?thesis by (auto simp: catch_op_def op_simps)
    qed
  qed
qed

section \<open>Properties\<close>

text \<open>
  C8.  An echo server echoes.  A connection sends back exactly the bytes it has received, in their order,
  and keeps in its buffer those that it has not sent back yet; it waits for input when there are none
  and for room otherwise.  A call of \<open>echo::run\<close> with events that the connection has asked for fails no
  assertion and lets no exception escape: afterwards the connection goes on in this way, with a timer
  that will close it after five idle seconds, or it has been shut down: its descriptor is closed, its
  handler is gone and its timer is cancelled, and what it has sent is the beginning of what it has
  received.
\<close>

theorem echo_relays:
  fixes st :: "(poll_demux, 'k) echo_program"
  assumes law: "close_law V P" "stream_law rx tx V P" "read_law P"
    and ok: "relay_ok V rx tx i s st"
    and asked: "sock_view st s = Some (f, e)" "\<forall>x \<in> {readable poll_codes, writable poll_codes}. has_event ev x \<longrightarrow> has_event (ucast e) x"
    and range: "in_time_range (current_time_t (core_now st) + 5)"
  shows "\<exists>st'. echo_run (poll_ops P hv spm sys) P i ev st = (Inr (), st') \<and> relayed rx tx s st' \<and>
    (conn_closed V i s st' \<or> relay_ok V rx tx i s st' \<and> idle_timer i (current_time_t (core_now st) + 5) st')"
proof -
  let ?M = "poll_ops P hv spm sys"
  have codes: "dm_codes ?M = poll_codes" by (simp add: poll_ops_def)
  obtain c b z where c: "conn_at V i s c st" "data_begin c = Some b" "data_end c = Some z" "0 \<le> b" "b \<le> z" "z \<le> int ECHO_BUF_SIZE"
    "length (conn_buf c) = ECHO_BUF_SIZE" "rx (os (the_world st)) s = tx (os (the_world st)) s @ load_bytes (conn_buf c) b z"
    "sock_view st s = Some (App_handler (Echo_run i), ucast (if b < z then writable poll_codes else readable poll_codes))"
    using ok unfolding relay_ok_def by blast
  have only: "\<not> (has_event ev (readable poll_codes) \<and> b < z)" "\<not> (has_event ev (writable poll_codes) \<and> \<not> b < z)"
    using asked c(9) by (auto simp: poll_codes_def has_event_def split: if_splits)
  let ?m = "if has_event ev (readable poll_codes) then echo_read ?M P i else
      if has_event ev (writable poll_codes) then echo_write ?M P i else ret True"
  have "half_ok V rx tx i s st (echo_read ?M P i st)" if "\<not> b < z"
    by (rule echo_read_ok [OF law c(1)]) (use c that in \<open>auto simp: load_bytes_def\<close>)
  moreover have "half_ok V rx tx i s st (echo_write ?M P i st)" if "b < z"
    by (rule echo_write_ok [OF law(1,2) c(1)]) (use c that in auto)
  ultimately have "half_ok V rx tx i s st (?m st)"
    using only ok by (auto simp: half_ok_def relay_ok_relayed op_simps)
  moreover have "echo_run ?M P i ev = catch_op (bind_op ?m (\<lambda>go. if \<not> go then ret () else conn_timeout_in i 5)) (echo_shutdown ?M i)"
    using only by (cases "b < z") (simp_all add: echo_run_def codes cong: if_cong)
  ultimately show ?thesis using echo_finish [OF law(1,2) _ range, of i s ?m hv spm sys] by simp
qed

definition fresh_conn :: "int \<Rightarrow> address \<Rightarrow> echo" where
  "fresh_conn s peer = \<lparr>conn_sock = Some \<lparr>sock = s, close_flag = True\<rparr>, conn_timeout = core_timeout_new, conn_peer = peer,
     conn_buf = replicate ECHO_BUF_SIZE 0, data_begin = Some 0, data_end = Some 0\<rparr>"

definition one_connection :: "(poll_demux, streams) echo_program" where
  "one_connection = \<lparr>core_now = \<lparr>tv_sec = 40, tv_usec = 0\<rparr>, core_schedule = schedule_init,
     core_dispatch = ([(5, App_handler (Echo_run 0))], (\<lparr>poll_pfd = [\<lparr>pfd_fd = 5, pfd_events = 1, pfd_revents = 0\<rparr>],
        poll_indices = [5 \<mapsto> 0], poll_n_events = 0, poll_current = 0\<rparr>, \<lparr>errno = 0, os = ({5}, \<lambda>_. [], \<lambda>_. [])\<rparr>)),
     core_dns = \<lparr>adns_timeout = timeout_new, queries = [], registered_sockets = [], pfds = []\<rparr>,
     conns = [0 \<mapsto> fresh_conn 5 address_default], next_conn = 1\<rparr>"

lemma one_connection_ok: "relay_ok streams_view (fst \<circ> snd) (snd \<circ> snd) 0 5 one_connection"
    "sock_view one_connection 5 = Some (App_handler (Echo_run 0), 1)"
proof -
  have view: "sock_view one_connection 5 = Some (App_handler (Echo_run 0), 1)"
    by (simp add: one_connection_def dp_interest_def poll_interest_def)
  moreover have "dp_ok (core_dispatch one_connection)"
    by (auto simp: one_connection_def dp_ok_def poll_ok_def poll_interest_def split: if_splits)
  ultimately have "conn_at streams_view 0 5 (fresh_conn 5 address_default) one_connection"
    by (simp add: conn_at_def) (simp add: one_connection_def fresh_conn_def streams_view_def schedule_wf_init core_timeout_new_def timeout_new_def)
  with view show "relay_ok streams_view (fst \<circ> snd) (snd \<circ> snd) 0 5 one_connection"
    unfolding relay_ok_def
    by (intro exI [of _ "fresh_conn 5 address_default"] exI [of _ 0])
      (simp add: poll_codes_def, simp add: one_connection_def fresh_conn_def load_bytes_def)
qed (simp add: one_connection_def dp_interest_def poll_interest_def)

theorem echo_relays_witness:
  "\<exists>st'. echo_run (poll_ops streams_sock True (\<lambda>_ w. ((0, {}), w)) (\<lambda>ps to m w. ((0, []), w))) streams_sock 0 1 one_connection
      = (Inr (), st') \<and> relayed (fst \<circ> snd) (snd \<circ> snd) 5 st' \<and>
    (conn_closed streams_view 0 5 st' \<or>
     relay_ok streams_view (fst \<circ> snd) (snd \<circ> snd) 0 5 st' \<and> idle_timer 0 (current_time_t (core_now one_connection) + 5) st')"
  by (rule echo_relays [OF streams_laws(1,3,2) one_connection_ok])
    (simp_all add: poll_codes_def has_event_def one_connection_def current_time_t_def in_time_range_def)

section \<open>A new connection\<close>

lemma echo_construct_ok:
  assumes ok: "dp_ok (core_dispatch st)" and s: "0 \<le> s" "sock_view st s = None"
  shows "\<exists>hs' d'. echo_construct (poll_ops P hv spm sys) s peer st = (Inr (next_conn st),
      st\<lparr>core_dispatch := (hs', d', the_world st), next_conn := next_conn st + 1,
         conns := (conns st)(next_conn st \<mapsto> fresh_conn s peer)\<rparr>) \<and>
    dp_ok (hs', d', the_world st) \<and>
    dp_interest (hs', d', the_world st) = (sock_view st)(s \<mapsto> (App_handler Empty_handler, ucast no_events))"
proof -
  obtain hs d where "core_socket_construct (poll_ops P hv spm sys) s (App_handler Empty_handler) no_events st
      = (Inr \<lparr>sock = s, close_flag = True\<rparr>, st\<lparr>core_dispatch := (hs, d, the_world st)\<rparr>)"
    "dp_ok (hs, d, the_world st)"
    "dp_interest (hs, d, the_world st) = (sock_view st)(s \<mapsto> (App_handler Empty_handler, ucast no_events))"
    by (rule socket_registered [OF ok s])
  then show ?thesis
    by (intro exI [of _ hs] exI [of _ d]) (simp add: echo_construct_def op_defs fresh_conn_def Let_def)
qed

text \<open>
  From the answer on, a connection relays.  When the resolver calls \<open>start\<close> for a connection that has
  not been used yet, the connection waits for input, with a timer that closes it after ten seconds.
\<close>

theorem echo_start_relays:
  fixes st :: "(poll_demux, 'k) echo_program"
  assumes at: "conn_at V i s c st" and buf: "data_begin c = Some 0" "data_end c = Some 0" "length (conn_buf c) = ECHO_BUF_SIZE"
    and new: "rx (os (the_world st)) s = tx (os (the_world st)) s"
    and range: "in_time_range (current_time_t (core_now st) + 10)"
  shows "\<exists>st'. echo_start (poll_ops P hv spm sys) i st = (Inr (), st') \<and> relay_ok V rx tx i s st' \<and>
    idle_timer i (current_time_t (core_now st) + 10) st'"
proof -
  let ?M = "poll_ops P hv spm sys"
  note at = at [unfolded conn_at_def]
  obtain hs d where
    q: "on_dispatch (dispatch_modify ?M s (App_handler (Echo_run i)) (readable poll_codes)) st
      = (Inr (), st\<lparr>core_dispatch := (hs, d, the_world st)\<rparr>)" (is "_ = (_, ?st)")
    "dp_ok (hs, d, the_world st)"
    "dp_interest (hs, d, the_world st) = (sock_view st)(s \<mapsto> (App_handler (Echo_run i), ucast (readable poll_codes)))"
    by (rule socket_modified [of st s]) (use at in auto)
  have "conn_at V i s c ?st" using at q(2,3) by (simp add: conn_at_def)
  with buf new q(3) have "relay_ok V rx tx i s ?st"
    by (auto simp: relay_ok_def ECHO_BUF_SIZE_def load_bytes_def intro!: exI [of _ c])
  from relay_rearm [OF this, of 10] range obtain st' where
    st': "conn_timeout_in i 10 ?st = (Inr (), st')" "relay_ok V rx tx i s st'" "idle_timer i (current_time_t (core_now st) + 10) st'"
    by auto
  have "dm_codes ?M = poll_codes" by (simp add: poll_ops_def)
  then have "echo_start ?M i st = (Inr (), st')"
    using at q(1) st'(1) by (simp add: echo_start_def with_sock_def with_conn_def op_defs)
  with st' show ?thesis by blast
qed

theorem echo_start_relays_witness:
  "\<exists>st'. echo_start (poll_ops streams_sock True (\<lambda>_ w. ((0, {}), w)) (\<lambda>ps to m w. ((0, []), w))) 0 one_connection = (Inr (), st') \<and>
    relay_ok streams_view (fst \<circ> snd) (snd \<circ> snd) 0 5 st' \<and> idle_timer 0 (current_time_t (core_now one_connection) + 10) st'"
proof (rule echo_start_relays)
  show "conn_at streams_view 0 5 (fresh_conn 5 address_default) one_connection"
    using one_connection_ok(1) by (auto simp: relay_ok_def conn_at_def one_connection_def)
qed (simp_all add: fresh_conn_def one_connection_def current_time_t_def in_time_range_def)

text \<open>When the query for the name cannot be submitted, the new object goes, and closes the descriptor.\<close>

lemma echo_accept_refused:
  assumes close: "close_law V P" and ok: "dp_ok (core_dispatch st)"
    and s: "0 \<le> s" "sock_view st s = None" "s \<in> open_fds V (os (the_world st))"
    and submit: "adns_submit_reverse L peer adns_r_ptr adns_qf_none (the_world st) = ((rc, q), w3)" "rc \<noteq> 0"
      "open_fds V (os w3) = open_fds V (os (the_world st))"
  shows "\<exists>st'. echo_accept (poll_ops P hv spm sys) L s peer st = (Inl (System_error rc ''adns_submit_reverse()''), st') \<and>
    s \<notin> open_fds V (os (the_world st'))"
proof -
  let ?M = "poll_ops P hv spm sys" and ?sk = "\<lparr>sock = s, close_flag = True\<rparr>"
  from echo_construct_ok [OF ok s(1,2), of P hv spm sys peer] obtain hs' d' where
    new: "echo_construct ?M s peer st = (Inr (next_conn st), st\<lparr>core_dispatch := (hs', d', the_world st), next_conn := next_conn st + 1,
      conns := (conns st)(next_conn st \<mapsto> fresh_conn s peer)\<rparr>)"
    "dp_ok (hs', d', the_world st)" "dp_interest (hs', d', the_world st) s \<noteq> None" by auto
  obtain w4 where w4: "system_socket_destruct P ?sk w3 = (Inr (), w4)" "open_fds V (os w4) = open_fds V (os w3) - {s}"
    by (rule close_cases [OF close, of ?sk w3]) (use s submit in auto)
  have "dp_ok (hs', d', w3)" "map_of hs' s \<noteq> None"
    using new(2,3) dp_world [of hs' d' w3 "the_world st"] dp_interest_None [OF new(2), of s] by auto
  from dp_destruct [OF this w4(1), of hv spm sys] obtain hs4 d4 where
    "dispatch_socket_destruct ?M ?sk (hs', d', w3) = (Inr (), (hs4, d4, w4))" by blast
  with new(1) submit have "fst (echo_accept ?M L s peer st) = Inl (System_error rc ''adns_submit_reverse()'') \<and>
      the_world (snd (echo_accept ?M L s peer st)) = w4"
    by (simp add: echo_accept_def query_ptr_address_def unwind_op_def on_world_apply lib_call_def throw_rc_if_not_zero_def
        echo_destruct_def with_dtor_def with_conn_def conn_sock_reset_def upd_conn_def fresh_conn_def core_timeout_new_def timeout_new_def
        timeout_destroy_def on_schedule_def on_dispatch_def op_defs)
  with w4(2) show ?thesis by (cases "echo_accept ?M L s peer st") auto
qed

lemma set_options_done:
  fixes P :: "'k sock_os"
  assumes "options_law V P" "\<And>s x a w. fst (sys_fcntl P s x a w) \<noteq> -1" "\<And>s l n v w. fst (sys_setsockopt P s l n v w) \<noteq> -1"
  shows "\<exists>w1 w2. set_nonblocking P sk True w = (Inr (), w1) \<and> set_linger_timeout P sk 0 w1 = (Inr (), w2) \<and>
    open_fds V (os w2) = open_fds V (os w)"
proof -
  let ?q = "\<lambda>w. open_fds V (os w)"
  have once: "throw_errno_if_minus1 msg f v = (Inr (fst (f v)), snd (f v))" if "\<And>v. fst (f v) \<noteq> -1" for msg v and f :: "('k, int) syscall"
    using that [of v] by (cases "f v") (simp add: op_simps)
  have "\<exists>w1. set_nonblocking P sk True w = (Inr (), w1)"
    by (simp add: set_nonblocking_def bind_op_def once assms Let_def ret_def)
  then obtain w1 where 1: "set_nonblocking P sk True w = (Inr (), w1)" ..
  have "\<exists>w2. set_linger_timeout P sk 0 w1 = (Inr (), w2)"
    by (simp add: set_linger_timeout_def bind_op_def once assms ret_def)
  then obtain w2 where 2: "set_linger_timeout P sk 0 w1 = (Inr (), w2)" ..
  have "keeps ?q (set_nonblocking P sk True)" "keeps ?q (set_linger_timeout P sk 0)"
    using assms(1) by (auto intro!: keeps_intros simp: options_law_def set_nonblocking_def set_linger_timeout_def Let_def)
  from keepsD [OF this(1) 1] keepsD [OF this(2) 2] 1 2 show ?thesis by auto
qed

text \<open>
  C36.  A connection whose name cannot be looked up ends the program.  The connection object owns the
  descriptor, and so does the guard of the acceptor.  When the query cannot be submitted, the object is
  destroyed and closes the descriptor; the exception goes on to the acceptor, whose guard closes it
  again, which fails, and a destructor throws while an exception is in flight.
\<close>

theorem echo_accept_closes_twice:
  fixes st :: "(poll_demux, 'k) echo_program"
  assumes close: "close_law V P" "\<And>s w. s \<notin> open_fds V (os w) \<Longrightarrow> \<exists>w'. sys_close P s w = (-1, w') \<and> errno w' \<noteq> EINTR"
    and options: "options_law V P" "\<And>s x a w. fst (sys_fcntl P s x a w) \<noteq> -1" "\<And>s l n v w. fst (sys_setsockopt P s l n v w) \<noteq> -1"
    and ok: "dp_ok (core_dispatch st)" and s: "0 \<le> s" "sock_view st s = None" "s \<in> open_fds V (os w)"
    and fails: "\<And>w. \<exists>rc q w'. adns_submit_reverse L peer adns_r_ptr adns_qf_none w = ((rc, q), w') \<and> rc \<noteq> 0 \<and>
      open_fds V (os w') = open_fds V (os w)"
  shows "\<exists>st'. accept_connection P (echo_accept_call (poll_ops P hv spm sys) L) s peer (st, w) = Some (Inl Terminated, st')"
proof -
  let ?sk = "\<lparr>sock = s, close_flag = True\<rparr>"
  obtain w1 w2 where set: "set_nonblocking P ?sk True w = (Inr (), w1)" "set_linger_timeout P ?sk 0 w1 = (Inr (), w2)"
    "open_fds V (os w2) = open_fds V (os w)" using set_options_done [OF options] by blast
  let ?st = "with_world w2 st"
  obtain hs d w0 where disp: "core_dispatch st = (hs, d, w0)" by (cases "core_dispatch st")
  have here: "dp_ok (core_dispatch ?st)" "sock_view ?st s = None" "s \<in> open_fds V (os (the_world ?st))"
    using ok s dp_world [of hs d w2 w0] disp set(3) by simp_all
  obtain rc q w3 where "adns_submit_reverse L peer adns_r_ptr adns_qf_none (the_world ?st) = ((rc, q), w3)" "rc \<noteq> 0"
    "open_fds V (os w3) = open_fds V (os (the_world ?st))" using fails by blast
  from echo_accept_refused [OF close(1) here(1) s(1) here(2,3) this, of hv spm sys] obtain st4 where
    "echo_accept (poll_ops P hv spm sys) L s peer ?st = (Inl (System_error rc ''adns_submit_reverse()''), st4)"
    "s \<notin> open_fds V (os (the_world st4))" by blast
  moreover from close(2) [OF this(2)] obtain w5 where "sys_close P s (the_world st4) = (-1, w5)" "errno w5 \<noteq> EINTR" by blast
  then have "\<exists>e. system_socket_destruct P ?sk (the_world st4) = (Inl (System_error e ''close(2)''), w5)"
    by (simp add: system_socket_destruct_def throw_errno_if_minus1_def throw_errno_if_loop throw_errno_loop.simps op_defs)
  ultimately show ?thesis
    using set by (auto simp: accept_connection_cases [OF s(1)] unwind_op_def on_snd_def echo_accept_call_def on_accept_def)
qed

theorem echo_accept_closes_twice_witness:
  "\<exists>st'. accept_connection streams_sock (echo_accept_call (poll_ops streams_sock True (\<lambda>_ w. ((0, {}), w)) (\<lambda>ps to m w. ((0, []), w))) quiet_adns)
     7 address_default (one_connection, \<lparr>errno = 0, os = ({5, 7}, \<lambda>_. [], \<lambda>_. [])\<rparr>) = Some (Inl Terminated, st')"
proof (rule echo_accept_closes_twice [OF streams_laws(1)])
  show "dp_ok (core_dispatch one_connection)" using one_connection_ok(1) by (auto simp: relay_ok_def conn_at_def)
  show "sock_view one_connection 7 = None" by (simp add: one_connection_def dp_interest_def)
qed (auto simp: options_law_def streams_sock_def streams_view_def quiet_sock_def quiet_adns_def EINTR_def)

end
