(* ===== verification/Ioxx_Adns_Life.thy ===== *)
theory Ioxx_Adns_Life
  imports Ioxx_Main_Loop
begin

text \<open>
  What a whole call of the resolver's \<open>run\<close>, and its destructor, leave behind
  (\<open>include/ioxx/detail/adns.hpp\<close>), on any demultiplexer.
\<close>

section \<open>What the operations on sockets leave alone\<close>

text \<open>The schedule, the clock, the timer and the queries.\<close>

definition rest_of :: "('f, 'h, 'd, 'u, 'k, 'm) core_state_scheme \<Rightarrow> 'f schedule \<times> timeval \<times> task_id \<times> (int \<times> 'u callback) list" where
  "rest_of st = (core_schedule st, core_now st, adns_timeout (core_dns st), queries (core_dns st))"

definition sockets_only :: "(('f, 'h, 'd, 'u, 'k, 'm) core_state_scheme, 'a) op \<Rightarrow> bool" where
  "sockets_only m \<longleftrightarrow> keeps rest_of m"

named_theorems sockets_only_intros "operations on the resolver's sockets"

lemma sockets_only_ops [sockets_only_intros]:
  "sockets_only m \<Longrightarrow> sockets_only n \<Longrightarrow> sockets_only (then_op m n)"
  "sockets_only (ret a)" "sockets_only (assert_op b)" "sockets_only (guard_op b)"
  "sockets_only m' \<Longrightarrow> sockets_only n' \<Longrightarrow> sockets_only (if b then m' else n')"
  "sockets_only (on_dispatch d)"
proof -
  show "sockets_only m \<Longrightarrow> sockets_only n \<Longrightarrow> sockets_only (then_op m n)" unfolding sockets_only_def by (rule keeps_then)
  show "sockets_only (on_dispatch d)"
    by (simp add: sockets_only_def keeps_def on_dispatch_def rest_of_def split: prod.split)
qed (simp_all add: sockets_only_def keeps_simple)

lemma sockets_only_dns [sockets_only_intros]:
  "(\<And>a. adns_timeout (f a) = adns_timeout a \<and> queries (f a) = queries a) \<Longrightarrow> sockets_only (on_dns (modify_op f))"
  by (simp add: sockets_only_def keeps_def on_dns_def modify_op_def rest_of_def)

lemma sockets_only_state: "(\<And>x. sockets_only (m x)) \<Longrightarrow> sockets_only (\<lambda>s. m s s)"
  by (simp add: sockets_only_def keeps_def)

lemma sockets_only_destroy [sockets_only_intros]: "sockets_only (destroy_sockets M ss)"
  by (induction ss) (auto intro!: sockets_only_intros)

lemma sockets_only_register [sockets_only_intros]: "sockets_only (register_fd M fdh p)"
proof -
  have "sockets_only (\<lambda>st. then_op (on_dns (modify_op (\<lambda>a. a\<lparr>registered_sockets :=
      (if pfd_fd p \<in> set (registered_sockets a) then registered_sockets a else insort (pfd_fd p) (registered_sockets a))\<rparr>)))
      (assert_op (pfd_fd p \<notin> set (registered_sockets (core_dns st)))) st)"
    by (rule sockets_only_state, intro sockets_only_intros) simp
  then show ?thesis unfolding register_fd_def by (intro sockets_only_intros)
qed

lemma sockets_only_merge: "sockets_only (adns_merge M fdh ps reg)"
  by (induction M fdh ps reg rule: adns_merge.induct) (auto intro!: sockets_only_intros simp del: destroy_sockets.simps)

lemma sockets_only_reregister: "sockets_only (adns_reregister M fdh n)"
proof -
  have merge: "sockets_only (\<lambda>st. adns_merge M fdh (take (nat n) (pfds (core_dns st))) (registered_sockets (core_dns st)) st)"
    by (rule sockets_only_state) (rule sockets_only_merge)
  have "sockets_only (then_op (on_dns (modify_op (\<lambda>a. a\<lparr>pfds := sort_key pfd_fd (take (nat n) (pfds a)) @ drop (nat n) (pfds a)\<rparr>)))
      (\<lambda>st. adns_merge M fdh (take (nat n) (pfds (core_dns st))) (registered_sockets (core_dns st)) st))"
    by (rule sockets_only_ops(1) [OF sockets_only_dns merge]) simp
  then have "sockets_only (then_op (assert_op (0 \<le> n)) (then_op (guard_op b)
      (then_op (on_dns (modify_op (\<lambda>a. a\<lparr>pfds := sort_key pfd_fd (take (nat n) (pfds a)) @ drop (nat n) (pfds a)\<rparr>)))
        (\<lambda>st. adns_merge M fdh (take (nat n) (pfds (core_dns st))) (registered_sockets (core_dns st)) st))))" for b
    by (rule sockets_only_ops(1) [OF sockets_only_ops(3) sockets_only_ops(1) [OF sockets_only_ops(4)]])
  then show ?thesis
    unfolding adns_reregister_def sockets_only_def keeps_def by blast
qed

section \<open>Destroying the resolver's sockets\<close>

lemma destroy_registered:
  "destroy_sockets M ss st = (Inr (), st') \<Longrightarrow> registered_sockets (core_dns st') = fold remove1 ss (registered_sockets (core_dns st))"
proof (induction ss arbitrary: st)
  case (Cons s ss)
  then show ?case
    by (auto simp: on_dns_def modify_op_def on_dispatch_def elim!: then_op_InrE split: prod.splits)
qed (simp add: ret_def)

lemma fold_remove1_self: "fold remove1 xs xs = []"
  by (induction xs) auto

lemma clear_registered: "clear_sockets M st = (Inr (), st') \<Longrightarrow> registered_sockets (core_dns st') = []"
  unfolding clear_sockets_def by (simp add: destroy_registered fold_remove1_self)

context demux_contract
begin

lemma destroy_handlers:
  "core_ok dok Q st \<Longrightarrow> destroy_sockets M ss st = (Inr (), st') \<Longrightarrow>
   core_ok dok Q st' \<and> map_of (fst (core_dispatch st')) = map_of (fst (core_dispatch st)) |` (- set ss)"
proof (induction ss arbitrary: st)
  case Nil
  then show ?case by (simp add: ret_def)
next
  case (Cons s ss)
  let ?one = "then_op (on_dns (modify_op (\<lambda>a. a\<lparr>registered_sockets := remove1 s (registered_sockets a)\<rparr>)))
       (on_dispatch (dispatch_socket_destruct M \<lparr>sock = s, close_flag = False\<rparr>))"
  have "then_op ?one (destroy_sockets M ss) st = (Inr (), st')"
    using Cons.prems(2) by (simp add: then_op_assoc)
  then obtain st1 where one: "?one st = (Inr (), st1)" and rest: "destroy_sockets M ss st1 = (Inr (), st')"
    by (auto elim: then_op_InrE)
  have ok: "core_ok dok Q st1" by (rule ensuresD(2) [OF destroy_one_ensures Cons.prems(1) one])
  obtain hs d w where st: "core_dispatch st = (hs, d, w)" by (cases "core_dispatch st")
  obtain hs' d' w' where q: "dispatch_socket_destruct M \<lparr>sock = s, close_flag = False\<rparr> (hs, d, w) = (Inr (), hs', d', w')"
    and st1: "core_dispatch st1 = (hs', d', w')"
    using one st by (auto simp: then_op_def bind_op_def on_dns_def modify_op_def on_dispatch_def split: prod.splits)
  have "dok (hs, d, w)" using Cons.prems(1) st by (simp add: core_ok_def)
  from destruct_law [OF this q] have "map_of hs' = (map_of hs)(s := None)" by (simp add: settled_def)
  with Cons.IH [OF ok rest] st st1 show ?case
    by (auto simp: restrict_map_def fun_eq_iff)
qed

end

section \<open>Arming the timer\<close>

lemma schedule_cancel_ends: "schedule_cancel tid s = (Inr (c, tid'), s') \<Longrightarrow> schedule_wf s \<Longrightarrow> schedule_wf s'"
  using schedule_cancel_wf [of s tid] by simp

lemma timeout_in_timer:
  assumes wf: "schedule_wf s" and run: "timeout_in now to f tid s = (Inr (c, tid'), s')"
  shows "\<exists>n. tid' = (now + uint to, Some n) \<and> timers s' n = Some (now + uint to, f)"
proof -
  obtain c0 tid0 s0 where c: "schedule_cancel tid s = (Inr (c0, tid0), s0)"
    and at: "schedule_at (now + uint to) f s0 = (Inr tid', s')"
    using run unfolding timeout_in_def timeout_at_def by (auto simp: ret_def elim!: then_op_InrE bind_op_InrE split: prod.splits)
  from sched.at_law [OF schedule_cancel_ends [OF c wf], of "now + uint to" f] at show ?thesis by auto
qed

text \<open>The state in which the resolver sleeps: a timer of its is pending for the first whole second at which
  the time-out that the library has asked for, in milliseconds, has passed since the second of the clock.\<close>

definition timer_armed :: "'f \<Rightarrow> int \<Rightarrow> ('f, 'h, 'd, 'u, 'k, 'm) core_state_scheme \<Rightarrow> bool" where
  "timer_armed task timeout st \<longleftrightarrow>
     (\<exists>n ts. adns_timeout (core_dns st) = (ts, Some n) \<and> timers (core_schedule st) n = Some (ts, task) \<and>
        1000 * tv_sec (core_now st) + timeout \<le> 1000 * ts \<and> 1000 * ts < 1000 * tv_sec (core_now st) + timeout + 1000)"

lemma timer_armed_rest: "rest_of st' = rest_of st \<Longrightarrow> timer_armed task timeout st' = timer_armed task timeout st"
  by (simp add: rest_of_def timer_armed_def)

lemma arm_timer:
  assumes wf: "schedule_wf (core_schedule st)" and timeout: "0 < timeout" "timeout \<le> INT_MAX"
    and run: "arm_timeout task (adns_delay timeout) st = (Inr (), st')"
  shows "timer_armed task timeout st' \<and> core_now st' = core_now st \<and> pfds (core_dns st') = pfds (core_dns st) \<and> the_world st' = the_world st"
proof -
  obtain r s' where t: "timeout_in (tv_sec (core_now st)) (adns_delay timeout) task (adns_timeout (core_dns st)) (core_schedule st) = (r, s')"
    by (metis surj_pair)
  with run obtain c tid' where r: "r = Inr (c, tid')"
    by (cases r) (auto simp: arm_timeout_def on_schedule_def bind_op_def)
  from run t r have st': "st' = st\<lparr>core_schedule := s', core_dns := (core_dns st)\<lparr>adns_timeout := tid'\<rparr>\<rparr>"
    by (simp add: arm_timeout_def on_schedule_def bind_op_def on_dns_def modify_op_def)
  from timeout_in_timer [OF wf t [unfolded r]] obtain n where
    n: "tid' = (tv_sec (core_now st) + uint (adns_delay timeout), Some n)" "timers s' n = Some (tv_sec (core_now st) + uint (adns_delay timeout), task)"
    by blast
  with adns_delay_rounds_up [OF timeout] show ?thesis unfolding timer_armed_def st' by simp
qed

text \<open>What the library has answered, and the world in which it did.  The time-out is an \<open>int\<close>.\<close>

definition library_waits :: "'k adns_lib \<Rightarrow> timeval \<Rightarrow> pollfd list \<Rightarrow> int \<Rightarrow> int \<Rightarrow> 'k world \<Rightarrow> bool" where
  "library_waits L now ps nfds timeout w' \<longleftrightarrow> (\<exists>ps0 n0 w. adns_beforepoll L ps0 n0 (-1) now w = ((0, ps, nfds, timeout), w'))"

definition adns_int_law :: "'k adns_lib \<Rightarrow> bool" where
  "adns_int_law L \<longleftrightarrow>
     (\<forall>ps0 n0 now w rc ps n timeout w'. adns_beforepoll L ps0 n0 (-1) now w = ((rc, ps, n, timeout), w') \<longrightarrow> timeout \<le> INT_MAX)"

context demux_contract
begin

lemma prepare_arms_timer:
  fixes call :: "(('f, 'h, 'd, 'u, 'k, 'm) core_state_scheme, 'u) dns_call"
  assumes law: "adns_check_law Q L" "adns_quiet_law same Q L" "adns_int_law L"
    and call: "\<And>u x. p_ensures (core_ok dok Q) (or_aborts (core_ok dok Q)) (call u x)"
    and ok: "core_ok dok Q st"
    and run: "adns_prepare M L call task nfds st = Some (Inr n, st')"
  shows "\<exists>timeout. 0 < timeout \<and> library_waits L (core_now st') (pfds (core_dns st')) n timeout (the_world st') \<and> timer_armed task timeout st'"
proof -
  let ?J = "core_ok dok Q"
  let ?G = "\<lambda>p. \<forall>n st'. p = (Inr n, st') \<longrightarrow> (\<exists>timeout. 0 < timeout \<and>
    library_waits L (core_now st') (pfds (core_dns st')) n timeout (the_world st') \<and> timer_armed task timeout st')"
  have pte: "p_ensures ?J (or_aborts ?J) (process_timeout M L call)"
    by (rule process_timeout_ensures [OF law(1,2) call])
  have "M = M \<longrightarrow> L = L \<longrightarrow> call = call \<longrightarrow> task = task \<longrightarrow> ?J st \<longrightarrow> ?G p"
    if run: "adns_prepare M L call task nfds st = Some p" for nfds st p
  proof (rule adns_prepare.raw_induct [where P = "\<lambda>M' L' call' task' nfds st p.
      M' = M \<longrightarrow> L' = L \<longrightarrow> call' = call \<longrightarrow> task' = task \<longrightarrow> ?J st \<longrightarrow> ?G p", OF _ run], intro impI, goal_cases)
    case (1 rec M' L' call' task' nfds st p)
    have rec: "?G y" if "rec M L call task n s = Some y" "?J s" for n s y
      using 1(1) [OF that(1)] that(2) 1(3-6) by blast
    obtain rc ps nfds1 timeout w' where b: "adns_beforepoll L (pfds (core_dns st)) nfds (-1) (core_now st) (the_world st)
        = ((rc, ps, nfds1, timeout), w')" by (metis surj_pair)
    let ?st0 = "with_world w' st"
    have x: "on_world (lib_call (adns_beforepoll L (pfds (core_dns st)) nfds (-1) (core_now st))) st = (Inr (rc, ps, nfds1, timeout), ?st0)"
      by (simp add: on_world_apply lib_call_def b)
    have en: "ensures ?J (or_aborts ?J) (on_world (lib_call (adns_beforepoll L (pfds (core_dns st)) nfds (-1) (core_now st))))"
      using law(2) by (intro world_ensures) (auto simp: adns_quiet_law_def)
    have J0: "?J ?st0" by (rule ensuresD(2) [OF en 1(7) x])
    have upd: "?J (st\<lparr>core_dns := (core_dns st)\<lparr>pfds := q\<rparr>\<rparr>)" if "?J st" for st :: "('f, 'h, 'd, 'u, 'k, 'm) core_state_scheme" and q
      using that by (simp add: core_ok_def dns_ok_def)
    let ?st1 = "?st0\<lparr>core_dns := (core_dns ?st0)\<lparr>pfds := ps\<rparr>\<rparr>"
    have J1: "?J ?st1" by (rule upd [OF J0])
    note step = 1(2) [unfolded 1(3-6) x prod.case sum.case Let_def]
    show "?G p"
    proof (intro allI impI)
      fix n st'
      assume p: "p = (Inr n, st')"
      consider (range) "rc = ERANGE" | (again) "rc = 0" "timeout = 0" | (arm) "rc = 0" "0 < timeout"
        using step p by (force split: if_splits)
      then show "\<exists>timeout. 0 < timeout \<and> library_waits L (core_now st') (pfds (core_dns st')) n timeout (the_world st') \<and> timer_armed task timeout st'"
      proof cases
        case range
        have J2: "?J (?st1\<lparr>core_dns := (core_dns ?st1)\<lparr>pfds := q\<rparr>\<rparr>)" for q by (rule upd [OF J1])
        have "rec M L call task nfds1 (?st1\<lparr>core_dns := (core_dns ?st1)\<lparr>pfds := resize_pfds (nat nfds1) ps\<rparr>\<rparr>) = Some p"
          using step range p by (simp split: if_splits)
        from rec [OF this J2] p show ?thesis by simp
      next
        case again
        with step p obtain st2 where t: "process_timeout M L call ?st1 = Some (Inr (), st2)" and r: "rec M L call task nfds1 st2 = Some p"
          by (simp add: ERANGE_def split: option.splits prod.splits sum.splits)
        from rec [OF r p_ensuresD(2) [OF pte J1 t]] p show ?thesis by simp
      next
        case arm
        then have a: "then_op (arm_timeout task (adns_delay timeout)) (ret nfds1) ?st1 = (Inr n, st')"
          using step p by (simp add: ERANGE_def)
        then have arm': "arm_timeout task (adns_delay timeout) ?st1 = (Inr (), st')" and n: "n = nfds1"
          by (auto simp: ret_def elim!: then_op_InrE)
        have "schedule_wf (core_schedule ?st1)" using J1 by (simp add: core_ok_def)
        moreover have "timeout \<le> INT_MAX" using law(3) b unfolding adns_int_law_def by blast
        ultimately have armed: "timer_armed task timeout st'" and
          now: "core_now st' = core_now st" "pfds (core_dns st') = ps" "the_world st' = w'"
          using arm_timer [OF _ arm(2) _ arm'] by simp_all
        have "library_waits L (core_now st') (pfds (core_dns st')) n timeout (the_world st')"
          unfolding library_waits_def now n using b arm(1) by blast
        with armed arm(2) show ?thesis by blast
      qed
    qed
  qed
  from this [OF run] ok show ?thesis by blast
qed

lemma adns_run_outcome:
  fixes call :: "(('f, 'h, 'd, 'u, 'k, 'm) core_state_scheme, 'u) dns_call"
  assumes law: "adns_check_law Q L" "adns_quiet_law same Q L" "adns_int_law L"
    and call: "\<And>u x. p_ensures (core_ok dok Q) (or_aborts (core_ok dok Q)) (call u x)"
    and ok: "core_ok dok Q st"
    and run: "adns_run M L call task fdh st = Some (Inr (), st')"
  shows "queries (core_dns st') = [] \<and> registered_sockets (core_dns st') = [] \<or>
    (\<exists>timeout n st2. 0 < timeout \<and> library_waits L (core_now st') (pfds (core_dns st2)) n timeout (the_world st2) \<and>
       adns_reregister M fdh n st2 = (Inr (), st') \<and> timer_armed task timeout st')"
proof -
  let ?J = "core_ok dok Q"
  obtain st1 where first: "then_op (adns_check_consistency L) disarm_timeout st = (Inr (), st1)"
    and rest: "(if queries (core_dns st1) = [] then lift_op (clear_sockets M) st1
      else bind_prog (adns_prepare M L call task (int (length (pfds (core_dns st1))))) (\<lambda>nfds. lift_op (adns_reregister M fdh nfds)) st1)
        = Some (Inr (), st')"
    using run unfolding adns_run_def by (auto simp: lift_op_def elim!: then_prog_InrE)
  have check: "ensures ?J (or_aborts ?J) (adns_check_consistency L)"
    by (rule ensures_or_aborts) (auto simp: adns_check_consistency_def assert_op_def)
  have J1: "?J st1" by (rule ensuresD(2) [OF ensures_then [OF check disarm_ensures] ok first])
  show ?thesis
  proof (cases "queries (core_dns st1) = []")
    case True
    with rest have c: "clear_sockets M st1 = (Inr (), st')" by (simp add: lift_op_def)
    have "queries (core_dns st') = queries (core_dns st1)"
      using keepsD [OF sockets_only_destroy [unfolded sockets_only_def] c [unfolded clear_sockets_def]] by (simp add: rest_of_def)
    with True clear_registered [OF c] show ?thesis by simp
  next
    case False
    with rest obtain n st2 where p: "adns_prepare M L call task (int (length (pfds (core_dns st1)))) st1 = Some (Inr n, st2)"
      and r: "adns_reregister M fdh n st2 = (Inr (), st')"
      by (auto simp: lift_op_def elim!: bind_prog_InrE)
    have same: "rest_of st' = rest_of st2"
      by (rule keepsD [OF sockets_only_reregister [unfolded sockets_only_def] r])
    then have now: "core_now st' = core_now st2" by (simp add: rest_of_def)
    from prepare_arms_timer [OF law call J1 p] timer_armed_rest [OF same] r show ?thesis unfolding now by blast
  qed
qed

end

section \<open>Queries that have been answered\<close>

lemma length_delete_less: "k \<in> fst ` set xs \<Longrightarrow> length (AList.delete k xs) < length xs"
proof (induction xs)
  case (Cons x xs)
  then show ?case using length_delete_le [of k xs] by (cases "fst x = k") (auto simp: less_Suc_eq_le)
qed simp

section \<open>Properties\<close>

text \<open>
  C14.  The resolver never sleeps through a time-out of the library.  When \<open>run\<close> has returned, either no
  query is outstanding and no socket is registered; or \<open>adns_beforepoll\<close> has answered, at the time of the
  clock and in the world from which the sockets were then registered, the sockets to wait for and a
  time-out of so many milliseconds, and a task that calls \<open>process_timeout\<close> is pending: not before that
  many milliseconds have passed since the second the clock shows, and less than a second later.
\<close>

theorem adns_run_arms_timer:
  fixes st :: "('f, 'h, 'd, 'u, 'k, 'm) core_state_scheme" and Q :: "'k \<Rightarrow> int \<rightharpoonup> rrtype"
  assumes law: "adns_check_law Q L" "adns_quiet_law (\<lambda>_ _. True) Q L" "adns_int_law L" and demux: "demux_keeps Q M"
    and call: "\<And>u x. p_ensures (core_ok (\<lambda>_. demux_keeps Q M) Q) (or_aborts (core_ok (\<lambda>_. demux_keeps Q M) Q)) (call u x)"
    and ok: "core_ok (\<lambda>_. demux_keeps Q M) Q st"
    and run: "adns_run M L call task fdh st = Some (Inr (), st')"
  shows "queries (core_dns st') = [] \<and> registered_sockets (core_dns st') = [] \<or>
    (\<exists>timeout nfds st2 ps0 n0 w. 0 < timeout \<and>
       adns_beforepoll L ps0 n0 (-1) (core_now st') w = ((0, pfds (core_dns st2), nfds, timeout), the_world st2) \<and>
       adns_reregister M fdh nfds st2 = (Inr (), st') \<and>
       (\<exists>n ts. adns_timeout (core_dns st') = (ts, Some n) \<and> timers (core_schedule st') n = Some (ts, task) \<and>
          1000 * tv_sec (core_now st') + timeout \<le> 1000 * ts \<and> 1000 * ts < 1000 * tv_sec (core_now st') + timeout + 1000))"
  using any_demux.adns_run_outcome [OF law call ok run] unfolding library_waits_def timer_armed_def by blast

text \<open>
  C21.  Destroying the resolver releases what it holds.  No socket is registered any longer, its handlers
  are gone from the dispatcher and no others, and its timer, when it is pending, is no longer in the
  schedule, so that nothing calls into the destroyed object.
\<close>

theorem adns_destruct_releases:
  fixes st :: "('f, 'h, 'd, 'u, 'k, 'm) core_state_scheme" and Q :: "'k \<Rightarrow> int \<rightharpoonup> rrtype"
  assumes demux: "demux_keeps Q M" and ok: "core_ok (\<lambda>_. demux_keeps Q M) Q st"
    and timer: "adns_timeout (core_dns st) = (ts, Some n)" "timers (core_schedule st) n = Some (ts, task)" "ts \<noteq> 0"
    and run: "adns_destruct M L st = (Inr (), st')"
  shows "registered_sockets (core_dns st') = [] \<and>
    map_of (fst (core_dispatch st')) = map_of (fst (core_dispatch st)) |` (- set (registered_sockets (core_dns st))) \<and>
    timers (core_schedule st') = (timers (core_schedule st))(n := None)"
proof -
  obtain st1 st2 where c: "clear_sockets M st = (Inr (), st1)" and f: "on_world (lib_call (adns_finish L)) st1 = (Inr (), st2)"
    and d: "disarm_timeout st2 = (Inr (), st')"
    using run by (auto simp: adns_destruct_def with_dtor_def elim!: then_op_InrE split: prod.splits sum.splits if_splits)
  have rest: "rest_of st1 = rest_of st"
    by (rule keepsD [OF sockets_only_destroy [unfolded sockets_only_def] c [unfolded clear_sockets_def]])
  have hs: "map_of (fst (core_dispatch st1)) = map_of (fst (core_dispatch st)) |` (- set (registered_sockets (core_dns st)))"
    using any_demux.destroy_handlers [OF ok c [unfolded clear_sockets_def]] by simp
  obtain w where st2: "st2 = with_world w st1"
    using f by (auto simp: on_world_apply lib_call_def split: prod.splits)
  have wf: "schedule_wf (core_schedule st)" using ok by (simp add: core_ok_def)
  from sched.cancel_law [OF wf timer(2,3)] obtain s' where
    s': "schedule_cancel (ts, Some n) (core_schedule st) = (Inr (True, 0, Some n), s')" "timers s' = (timers (core_schedule st))(n := None)"
    by blast
  have "st' = st2\<lparr>core_schedule := s', core_dns := (core_dns st2)\<lparr>adns_timeout := (0, Some n)\<rparr>\<rparr>"
    using d rest s'(1) timer(1) unfolding st2
    by (simp add: disarm_timeout_def rest_of_def timeout_cancel_def on_schedule_def on_dns_def modify_op_def bind_op_def)
  with s'(2) clear_registered [OF c] hs show ?thesis by (simp add: st2)
qed

fun result_type :: "dns_result \<Rightarrow> rrtype" where
  "result_type (Addresses x) = adns_r_a"
| "result_type (Exchangers x) = adns_r_mx"
| "result_type (Name x) = adns_r_ptr"

text \<open>
  C22.  Answers are typed.  When the resolver is consistent, the callback it has stored for an outstanding
  query decodes the answers of that query's type: on a well-formed answer no assertion of the decoders
  fails, and the application's handler is called with addresses for an address query, mail exchangers
  for a mail exchanger query and a name for a query for a name.
\<close>

theorem answers_are_typed:
  assumes ok: "dns_ok Q st" and query: "Q (os (the_world st)) qid = Some t" and a: "answer_wf a" "an_type a = t"
  shows "\<exists>f x. map_of (queries (core_dns st)) qid = Some f \<and> callback_type f = t \<and>
    call_callback call f a = call_handler call (callback_handler f) (Inr x) \<and> result_type x = t"
proof -
  obtain f where f: "map_of (queries (core_dns st)) qid = Some f" "callback_type f = t"
    using ok query by (auto simp: dns_ok_def)
  then have "\<exists>x. call_callback call f a = call_handler call (callback_handler f) (Inr x) \<and> result_type x = t"
    using handle_ok [OF a(1)] a(2) by (cases f) force+
  with f show ?thesis by blast
qed

theorem answers_are_typed_witness:
  "\<exists>f x. map_of (queries (core_dns one_query)) 1 = Some f \<and> callback_type f = adns_r_ptr \<and>
    call_callback (\<lambda>u x st. Some (Inr (), st :: nat)) f host_answer =
      call_handler (\<lambda>u x st. Some (Inr (), st)) (callback_handler f) (Inr x) \<and> result_type x = adns_r_ptr"
proof (rule answers_are_typed)
  show "dns_ok count_view one_query" by (auto simp: dns_ok_def one_query_def count_view_def fun_eq_iff)
  show "count_view (os (the_world one_query)) 1 = Some adns_r_ptr" by (simp add: one_query_def count_view_def)
qed (simp_all add: answer_wf_def host_answer_def)

text \<open>A library that waits for two seconds and a millisecond, and a program with one query.\<close>

definition slow_adns :: "nat adns_lib" where
  "slow_adns = count_adns\<lparr>adns_beforepoll := (\<lambda>ps n to now w. ((0, ps, 0, if os w = 0 then to else 2001), w))\<rparr>"

definition slow_query :: "(string, string, unit, string, nat) core_state" where
  "slow_query = one_query\<lparr>core_dns := (core_dns one_query)\<lparr>pfds := [\<lparr>pfd_fd = 0, pfd_events = 0, pfd_revents = 0\<rparr>]\<rparr>\<rparr>"

definition slow_armed :: "(string, string, unit, string, nat) core_state" where
  "slow_armed = slow_query\<lparr>core_schedule := snd (schedule_at 43 ''timeout'' schedule_init),
     core_dns := (core_dns slow_query)\<lparr>adns_timeout := (43, Some 0)\<rparr>\<rparr>"

lemma slow_laws: "adns_check_law count_view slow_adns" "adns_quiet_law (\<lambda>_ _. True) count_view slow_adns" "demux_keeps count_view quiet_demux"
proof -
  have "adns_check slow_adns = adns_check count_adns" "adns_queries slow_adns = adns_queries count_adns"
    by (simp_all add: slow_adns_def)
  then show "adns_check_law count_view slow_adns" using count_laws(1) by (simp add: adns_check_law_def)
  show "adns_quiet_law (\<lambda>_ _. True) count_view slow_adns" by (simp add: adns_quiet_law_def slow_adns_def count_adns_def)
  show "demux_keeps count_view quiet_demux" by (auto simp: demux_keeps_def keeps_def quiet_demux_def ret_def)
qed

lemma slow_ok:
  "core_ok (\<lambda>_. demux_keeps count_view quiet_demux) count_view slow_query"
  "core_ok (\<lambda>_. demux_keeps count_view quiet_demux) count_view slow_armed"
  using slow_laws(3) schedule_at_wf [OF schedule_wf_init, of 43 "''timeout''"]
  by (auto simp: core_ok_def dns_ok_def slow_query_def slow_armed_def one_query_def count_view_def fun_eq_iff schedule_wf_init)

lemma slow_run:
  "adns_run quiet_demux slow_adns (\<lambda>u x st. None) ''timeout'' (\<lambda>fd. ''fd'') slow_query = Some (Inr (), slow_armed)"
proof -
  have delay: "adns_delay 2001 = 3" by (simp add: adns_delay_def)
  have first: "then_op (adns_check_consistency slow_adns) disarm_timeout slow_query = (Inr (), slow_query)"
    by (simp add: then_op_def bind_op_def adns_check_consistency_def assert_op_def slow_adns_def count_adns_def disarm_timeout_def
        on_schedule_def timeout_cancel_def timeout_new_def on_dns_def modify_op_def slow_query_def one_query_def)
  have prepare: "adns_prepare quiet_demux slow_adns (\<lambda>u x st. None) ''timeout'' 1 slow_query = Some (Inr 0, slow_armed)"
    by (subst adns_prepare.simps)
      (simp add: on_world_apply lib_call_def slow_adns_def slow_query_def slow_armed_def one_query_def ERANGE_def delay arm_timeout_def
        on_schedule_def timeout_in_def timeout_at_def in_time_range_def timeout_new_def schedule_at_def schedule_init_def on_dns_def
        op_defs)
  have "adns_reregister quiet_demux (\<lambda>fd. ''fd'') 0 slow_armed = (Inr (), slow_armed)"
    by (simp add: adns_reregister_def op_defs on_dns_def slow_armed_def slow_query_def one_query_def)
  moreover have "queries (core_dns slow_query) \<noteq> []" "length (pfds (core_dns slow_query)) = 1"
    by (simp_all add: slow_query_def one_query_def)
  ultimately show ?thesis
    using first prepare by (simp add: adns_run_def then_prog_def bind_prog_def lift_op_def)
qed

theorem adns_run_arms_timer_witness:
  "adns_run quiet_demux slow_adns (\<lambda>u x st. None) ''timeout'' (\<lambda>fd. ''fd'') slow_query = Some (Inr (), slow_armed) \<and>
   (\<exists>timeout nfds st2 ps0 n0 w. 0 < timeout \<and>
      adns_beforepoll slow_adns ps0 n0 (-1) (core_now slow_armed) w = ((0, pfds (core_dns st2), nfds, timeout), the_world st2) \<and>
      adns_reregister quiet_demux (\<lambda>fd. ''fd'') nfds st2 = (Inr (), slow_armed) \<and>
      (\<exists>n ts. adns_timeout (core_dns slow_armed) = (ts, Some n) \<and> timers (core_schedule slow_armed) n = Some (ts, ''timeout'') \<and>
         1000 * tv_sec (core_now slow_armed) + timeout \<le> 1000 * ts \<and> 1000 * ts < 1000 * tv_sec (core_now slow_armed) + timeout + 1000))"
proof -
  have int: "adns_int_law slow_adns" by (auto simp: adns_int_law_def slow_adns_def INT_MAX_def)
  have "\<And>u x. p_ensures (core_ok (\<lambda>_. demux_keeps count_view quiet_demux) count_view)
      (or_aborts (core_ok (\<lambda>_. demux_keeps count_view quiet_demux) count_view)) (\<lambda>st. None)"
    by (simp add: p_ensures_outcome)
  note outcome = adns_run_arms_timer [OF slow_laws(1,2) int slow_laws(3) this slow_ok(1) slow_run]
  moreover have "queries (core_dns slow_armed) \<noteq> []" by (simp add: slow_armed_def slow_query_def one_query_def)
  ultimately show ?thesis using slow_run by (simp only: simp_thms)
qed

theorem adns_destruct_releases_witness:
  "\<exists>st'. adns_destruct quiet_demux slow_adns slow_armed = (Inr (), st') \<and> timers (core_schedule st') = Map.empty"
proof -
  have t: "timers (core_schedule slow_armed) = [0 \<mapsto> (43, ''timeout'')]"
    by (simp add: slow_armed_def timers_def schedule_at_def schedule_init_def)
  have "\<exists>st'. adns_destruct quiet_demux slow_adns slow_armed = (Inr (), st')"
    by (simp add: adns_destruct_def clear_sockets_def with_dtor_def slow_armed_def slow_query_def one_query_def on_world_apply
        lib_call_def slow_adns_def count_adns_def disarm_timeout_def on_schedule_def timeout_cancel_def schedule_cancel_def
        schedule_at_def schedule_init_def schedule_unsafe_cancel_def queue_erase_def on_dns_def op_defs)
  then obtain st' where run: "adns_destruct quiet_demux slow_adns slow_armed = (Inr (), st')" ..
  have "adns_timeout (core_dns slow_armed) = (43, Some 0)" "timers (core_schedule slow_armed) 0 = Some (43, ''timeout'')"
    by (simp_all add: t) (simp add: slow_armed_def)
  from adns_destruct_releases [OF slow_laws(3) slow_ok(2) this _ run] run show ?thesis by (auto simp: t)
qed

end
