(* ===== verification/Ioxx_Returns.thy ===== *)
theory Ioxx_Returns
  imports Ioxx_Loop_Contracts Ioxx_Adns_Life
begin

text \<open>
  When \<open>core::run\<close> gives control back to the main loop: its four phases come to an end, with a bound for
  each on the work that the callbacks of the application may leave behind.
\<close>

section \<open>Programs that come to an end\<close>

text \<open>\<open>completes R p\<close>: from every state \<open>p\<close> returns, normally or by an exception, in a state that is
  related to the first one; \<open>within R m\<close> says the same of an operation.\<close>

definition completes :: "('s \<Rightarrow> 's \<Rightarrow> bool) \<Rightarrow> ('s, 'a) prog \<Rightarrow> bool" where
  "completes R p \<longleftrightarrow> (\<forall>s. \<exists>r t. p s = Some (r, t) \<and> R s t)"

definition within :: "('s \<Rightarrow> 's \<Rightarrow> bool) \<Rightarrow> ('s, 'a) op \<Rightarrow> bool" where
  "within R m \<longleftrightarrow> (\<forall>s. R s (snd (m s)))"

named_theorems completes_intros "programs that come to an end"

lemma completesE:
  assumes "completes R p"
  obtains r t where "p s = Some (r, t)" and "R s t"
  using assms unfolding completes_def by blast

lemma completes_mono: "completes R p \<Longrightarrow> (\<And>s t. R s t \<Longrightarrow> R' s t) \<Longrightarrow> completes R' p"
  unfolding completes_def by blast

lemma completes_lift [completes_intros]: "within R m \<Longrightarrow> completes R (lift_op m)"
  by (auto simp: within_def completes_def lift_op_def) (metis prod.exhaust_sel)

lemma completes_then [completes_intros]:
  assumes "completes R p" and "completes R q" and "transp R"
  shows "completes R (then_prog p q)"
  unfolding completes_def
proof
  fix s
  obtain r t where p: "p s = Some (r, t)" and "R s t" by (rule completesE [OF assms(1)])
  moreover obtain r' t' where "q t = Some (r', t')" and "R t t'" by (rule completesE [OF assms(2)])
  ultimately show "\<exists>r t. then_prog p q s = Some (r, t) \<and> R s t"
    using transpD [OF assms(3)] by (cases r) (auto simp: op_simps)
qed

lemma within_ops [completes_intros]:
  "reflp R \<Longrightarrow> within R (ret a)" "reflp R \<Longrightarrow> within R (raise_op e)" "reflp R \<Longrightarrow> within R (assert_op b)"
  by (simp_all add: within_def op_defs reflpD)

lemma within_bind [completes_intros]:
  assumes "within R m" and "\<And>a. within R (k a)" and "transp R"
  shows "within R (bind_op m k)"
  unfolding within_def
proof
  fix s
  obtain r t where m: "m s = (r, t)" by (cases "m s")
  then have "R s t" using assms(1) unfolding within_def by (metis snd_conv)
  with m show "R s (snd (bind_op m k s))"
    using assms(2) transpD [OF assms(3) \<open>R s t\<close>] unfolding within_def by (cases r) (auto simp: op_simps)
qed

lemma within_then [completes_intros]:
  "within R m \<Longrightarrow> within R n \<Longrightarrow> transp R \<Longrightarrow> within R (then_op m n)"
  unfolding then_op_def by (rule within_bind)

section \<open>Work\<close>

text \<open>What keeps \<open>run\<close> busy: events that the demultiplexer has not delivered yet, tasks that are due,
  queries that are open, and what the resolver has to do at once because a time-out has passed.\<close>

definition due :: "('f, 'h, 'd, 'u, 'k, 'm) core_state_scheme \<Rightarrow> nat" where
  "due st = due_count (\<lambda>st. current_time_t (core_now st)) (core_schedule st, st)"

abbreviation the_demux :: "('f, 'h, 'd, 'u, 'k, 'm) core_state_scheme \<Rightarrow> 'd" where
  "the_demux st \<equiv> fst (snd (core_dispatch st))"

definition no_more_work ::
  "('d \<Rightarrow> nat) \<Rightarrow> ('k \<Rightarrow> timeval \<Rightarrow> nat) \<Rightarrow> ('f, 'h, 'd, 'u, 'k, 'm) core_state_scheme \<Rightarrow> ('f, 'h, 'd, 'u, 'k, 'm) core_state_scheme \<Rightarrow> bool" where
  "no_more_work pending D s t \<longleftrightarrow> core_now t = core_now s \<and> pending (the_demux t) \<le> pending (the_demux s) \<and> due t \<le> due s \<and>
     length (queries (core_dns t)) \<le> length (queries (core_dns s)) \<and>
     D (os (the_world t)) (core_now s) \<le> D (os (the_world s)) (core_now s)"

lemma no_more_work_preorder [completes_intros]:
  "reflp (no_more_work pending D)" "transp (no_more_work pending D)"
  by (auto simp: no_more_work_def reflp_def transp_def)

text \<open>The documented behaviour of the adns library: \<open>adns_check\<close> does not block and is not interrupted,
  \<open>adns_beforepoll\<close> has enough room when it is called again with the room it has asked for, and when it
  does not want to wait at all, \<open>adns_processtimeouts\<close> at the same time has a time-out to process.  \<open>D\<close>
  counts the time-outs that have passed.\<close>

definition adns_progress_law :: "('k \<Rightarrow> timeval \<Rightarrow> nat) \<Rightarrow> ('k \<Rightarrow> int) \<Rightarrow> 'k adns_lib \<Rightarrow> bool" where
  "adns_progress_law D need L \<longleftrightarrow>
     (\<forall>w rc x w'. adns_check L w = ((rc, x), w') \<longrightarrow> rc \<noteq> EINTR \<and> (\<forall>now. D (os w') now \<le> D (os w) now)) \<and>
     (\<forall>fd now w. D (os (snd (adns_processreadable L fd now w))) now \<le> D (os w) now) \<and>
     (\<forall>fd now w. D (os (snd (adns_processwriteable L fd now w))) now \<le> D (os w) now) \<and>
     (\<forall>fd now w. D (os (snd (adns_processexceptional L fd now w))) now \<le> D (os w) now) \<and>
     (\<forall>now w. D (os (snd (adns_processtimeouts L now w))) now \<le> D (os w) now) \<and>
     (\<forall>ps n now w rc ps' n' timeout w'. adns_beforepoll L ps n (-1) now w = ((rc, ps', n', timeout), w') \<longrightarrow>
        D (os w') now \<le> D (os w) now \<and> (rc = ERANGE \<longrightarrow> n < need (os w) \<and> need (os w') \<le> n') \<and>
        (rc = 0 \<and> timeout = 0 \<longrightarrow> D (os (snd (adns_processtimeouts L now w'))) now < D (os w') now))"

lemma adns_progressD:
  assumes "adns_progress_law D need L"
  shows "adns_check L w = ((rc, x), w') \<Longrightarrow> rc \<noteq> EINTR \<and> D (os w') now \<le> D (os w) now"
    and "D (os (snd (adns_processreadable L fd now w))) now \<le> D (os w) now"
    and "D (os (snd (adns_processwriteable L fd now w))) now \<le> D (os w) now"
    and "D (os (snd (adns_processexceptional L fd now w))) now \<le> D (os w) now"
    and "D (os (snd (adns_processtimeouts L now w))) now \<le> D (os w) now"
    and "adns_beforepoll L ps n (-1) now w = ((rc, ps', n', timeout), w') \<Longrightarrow>
      D (os w') now \<le> D (os w) now \<and> (rc = ERANGE \<longrightarrow> n < need (os w) \<and> need (os w') \<le> n') \<and>
      (rc = 0 \<and> timeout = 0 \<longrightarrow> D (os (snd (adns_processtimeouts L now w'))) now < D (os w') now)"
  using assms unfolding adns_progress_law_def by (simp_all del: split_paired_All)

lemma due_world [simp]: "due (st\<lparr>core_dispatch := x\<rparr>) = due st" "due (st\<lparr>core_dns := y\<rparr>) = due st"
  by (simp_all add: due_def due_count_def)

lemma no_more_work_call:
  assumes "\<And>w. D (os (snd (f w))) (core_now st) \<le> D (os w) (core_now st)"
  shows "no_more_work pending D st (snd (on_world (lib_call f) st))"
  using assms [of "the_world st"] by (auto simp: no_more_work_def on_world_apply lib_call_def split: prod.split)

lemma no_more_work_rc:
  fixes f :: "int \<Rightarrow> timeval \<Rightarrow> ('k, int) syscall"
  assumes "\<And>now w. D (os (snd (f fd now w))) now \<le> D (os w) now"
  shows "within (no_more_work pending D) (\<lambda>st. bind_op (on_world (lib_call (f fd (core_now st)))) (\<lambda>rc. throw_rc_if_not_zero rc ctx) st ::
    (fault + unit) \<times> ('f, 'h, 'd, 'u, 'k, 'm) core_state_scheme)"
  unfolding within_def
proof
  fix st :: "('f, 'h, 'd, 'u, 'k, 'm) core_state_scheme"
  have "snd (bind_op (on_world (lib_call g)) (\<lambda>rc. throw_rc_if_not_zero rc ctx) st) = snd (on_world (lib_call g) st)" for g
    by (simp add: bind_op_def on_world_apply lib_call_def throw_rc_if_not_zero_def op_defs split: prod.split)
  moreover have "no_more_work pending D st (snd (on_world (lib_call (f fd (core_now st))) st))"
    by (rule no_more_work_call) (rule assms)
  ultimately show "no_more_work pending D st (snd (bind_op (on_world (lib_call (f fd (core_now st)))) (\<lambda>rc. throw_rc_if_not_zero rc ctx) st))"
    by simp
qed

section \<open>Events\<close>

text \<open>What the phases of \<open>run\<close> ask of the demultiplexer: \<open>pending\<close> bounds the events that are left.\<close>

locale pending_events =
  fixes M :: "('d \<times> 'k world) demux_ops" and pending :: "'d \<Rightarrow> nat"
  assumes pop_law: "dm_pop_event M (d, w) = (Inr (Some x), (d', w')) \<Longrightarrow> pending d' < pending d"
    and destruct_law: "dm_socket_destruct M sk (d, w) = (r, (d', w')) \<Longrightarrow> pending d' \<le> pending d"

lemma dispatch_run_ends:
  fixes m :: "'h handler_map \<times> 's \<Rightarrow> nat"
  assumes pop: "\<And>st x st'. on_snd pop st = (Inr (Some x), st') \<Longrightarrow> m st' < m st"
    and call: "\<And>f ev. completes (\<lambda>s t. m t \<le> m s) (call f ev)"
  shows "\<exists>r st'. dispatch_run pop call st = Some (r, st')"
proof (induction "m st" arbitrary: st rule: less_induct)
  case less
  obtain x st1 where p: "on_snd pop st = (x, st1)" by (cases "on_snd pop st")
  show ?case
  proof (cases "\<exists>s ev. x = Inr (Some (s, ev)) \<and> 0 \<le> s \<and> ev \<noteq> no_events")
    case False
    then show ?thesis
      by (subst dispatch_run.simps) (auto simp: p split: sum.split option.split)
  next
    case True
    then obtain s ev where x: "x = Inr (Some (s, ev))" "0 \<le> s" "ev \<noteq> no_events" by blast
    from pop p x have lt: "m st1 < m st" by blast
    show ?thesis
    proof (cases "map_of (fst st1) s")
      case None
      with less [OF lt] show ?thesis by (subst dispatch_run.simps) (simp add: p x)
    next
      case (Some f)
      obtain r st2 where c: "call f ev st1 = Some (r, st2)" and "m st2 \<le> m st1"
        by (rule completesE [OF call])
      with lt have "\<exists>r st'. dispatch_run pop call st2 = Some (r, st')" by (intro less) simp
      with Some c show ?thesis by (subst dispatch_run.simps) (cases r; simp add: p x)
    qed
  qed
qed

context pending_events
begin

lemma core_dispatch_run_ends:
  assumes call: "\<And>f ev. completes (\<lambda>s t. pending (the_demux t) \<le> pending (the_demux s)) (call f ev)"
  shows "\<exists>r st'. core_dispatch_run M call st = Some (r, st')"
proof -
  let ?m = "\<lambda>(hs, st). pending (the_demux st)"
  let ?call = "\<lambda>f ev (hs, st). map_option (\<lambda>(r, st'). (r, fst (core_dispatch st'), st')) (call f ev (with_handlers hs st))"
  have "\<exists>r x. dispatch_run (on_dispatch (on_snd (dm_pop_event M))) ?call (fst (core_dispatch st), st) = Some (r, x)"
  proof (rule dispatch_run_ends [where m = ?m])
    show "?m y' < ?m y" if "on_snd (on_dispatch (on_snd (dm_pop_event M))) y = (Inr (Some x), y')" for y x y'
      using that pop_law [of "fst (snd (core_dispatch (snd y)))" "snd (snd (core_dispatch (snd y)))" x]
      by (auto simp: on_snd_def on_dispatch_def split: prod.splits)
    show "completes (\<lambda>s t. ?m t \<le> ?m s) (?call f ev)" for f ev
      unfolding completes_def
    proof (clarify)
      fix hs st
      obtain r t where "call f ev (with_handlers hs st) = Some (r, t)" and
        "pending (the_demux t) \<le> pending (the_demux (with_handlers hs st))" by (rule completesE [OF call])
      then show "\<exists>r t. map_option (\<lambda>(r, st'). (r, fst (core_dispatch st'), st')) (call f ev (with_handlers hs st)) = Some (r, t) \<and>
          ?m t \<le> pending (the_demux st)"
        by (simp add: with_handlers_def)
    qed
  qed
  then show ?thesis by (auto simp: core_dispatch_run_def)
qed

lemma destruct_within:
  assumes D: "demux_keeps D M"
  shows "within (no_more_work pending D) (on_dispatch (dispatch_socket_destruct M sk) :: (('f, 'h, 'd, 'u, 'k, 'm) core_state_scheme, unit) op)"
  unfolding within_def
proof
  fix st :: "('f, 'h, 'd, 'u, 'k, 'm) core_state_scheme"
  obtain hs d w where st: "core_dispatch st = (hs, d, w)" by (cases "core_dispatch st")
  obtain r d' w' where m: "dm_socket_destruct M sk (d, w) = (r, (d', w'))" by (metis surj_pair)
  then have "pending d' \<le> pending d" "D (os w') = D (os w)"
    using destruct_law demux_keepsD(3) [OF D] by blast+
  moreover have "\<exists>hs'. snd (dispatch_socket_destruct M sk (hs, d, w)) \<in> {(hs', d', w'), (hs', d, w)}"
    using m by (cases r; cases "map_of hs (sock sk)")
      (auto simp: ex_disj_distrib dispatch_socket_destruct_def with_dtor_def handlers_erase_def on_fst_def on_snd_def)
  ultimately show "no_more_work pending D st (snd (on_dispatch (dispatch_socket_destruct M sk) st))"
    using st by (auto simp: on_dispatch_def no_more_work_def split: prod.split)
qed

lemma destroy_sockets_within:
  assumes D: "demux_keeps D M"
  shows "within (no_more_work pending D) (destroy_sockets M ss :: (('f, 'h, 'd, 'u, 'k, 'm) core_state_scheme, unit) op)"
proof (induction ss)
  case (Cons s ss)
  have "within (no_more_work pending D) (on_dns (modify_op (\<lambda>a. a\<lparr>registered_sockets := remove1 s (registered_sockets a)\<rparr>)))"
    by (simp add: within_def on_dns_def modify_op_def no_more_work_def)
  with Cons destruct_within [OF D] show ?case by (auto intro!: completes_intros)
qed (auto intro: completes_intros)

lemma deliver_responses_completes:
  assumes D: "demux_keeps D M" and law: "adns_progress_law D need L"
    and call: "\<And>u x. completes (no_more_work pending D) (call u x)"
  shows "completes (no_more_work pending D) (deliver_responses M L call)"
proof -
  have "\<exists>r st'. deliver_responses M L call st = Some (r, st') \<and> no_more_work pending D st st'" for st
  proof (induction "length (queries (core_dns st))" arbitrary: st rule: less_induct)
    case less
    obtain rc qid a w' where chk: "adns_check L (the_world st) = ((rc, qid, a), w')" by (metis surj_pair)
    then have rc: "rc \<noteq> EINTR" and le: "D (os w') now \<le> D (os (the_world st)) now" for now
      using adns_progressD(1) [OF law] by blast+
    let ?st1 = "with_world w' st"
    have w: "on_world (lib_call (adns_check L)) st = (Inr (rc, qid, a), ?st1)"
      by (simp add: on_world_apply lib_call_def chk)
    have R1: "no_more_work pending D st ?st1" using le by (simp add: no_more_work_def)
    note trans = transpD [OF no_more_work_preorder(2)]
    show ?case
    proof (cases "rc = 0 \<and> a \<noteq> None \<and> map_of (queries (core_dns st)) qid \<noteq> None")
      case True
      then obtain ans f where ans: "rc = 0" "a = Some ans" "map_of (queries (core_dns st)) qid = Some f" by auto
      let ?st2 = "?st1\<lparr>core_dns := (core_dns ?st1)\<lparr>queries := AList.delete qid (queries (core_dns ?st1))\<rparr>\<rparr>"
      have "qid \<in> fst ` set (queries (core_dns st))" using ans(3) by (force dest: map_of_SomeD)
      then have shorter: "length (queries (core_dns ?st2)) < length (queries (core_dns st))" by (simp add: length_delete_less)
      then have R2: "no_more_work pending D ?st1 ?st2" by (simp add: no_more_work_def)
      have "completes (no_more_work pending D) (call_callback call f ans)"
        by (cases f) (auto simp: call_handler_def intro!: completes_intros call split: sum.split option.split)
      then obtain r st3 where cb: "call_callback call f ans ?st2 = Some (r, st3)" and R3: "no_more_work pending D ?st2 st3"
        by (rule completesE)
      have "length (queries (core_dns st3)) < length (queries (core_dns st))" using R3 shorter by (simp add: no_more_work_def)
      from less [OF this] obtain r' st' where "deliver_responses M L call st3 = Some (r', st')" and R4: "no_more_work pending D st3 st'"
        by blast
      with cb trans [OF trans [OF R1 R2] R3] trans [OF _ R4, of st] show ?thesis
        by (subst (1) deliver_responses.simps) (cases r; simp add: w ans errno_codes)
    next
      case False
      have "within (no_more_work pending D) (then_op (assert_op b) (clear_sockets M))"
        "within (no_more_work pending D) (then_op (assert_op b) (adns_check_consistency L))" for b
        using destroy_sockets_within [OF D]
        by (auto simp: clear_sockets_def adns_check_consistency_def [abs_def] within_def no_more_work_preorder
            then_op_def bind_op_def assert_op_def intro: reflpD [OF no_more_work_preorder(1)])
      then have "no_more_work pending D st (snd (then_op (assert_op b) (clear_sockets M) ?st1))"
        "no_more_work pending D st (snd (then_op (assert_op b) (adns_check_consistency L) ?st1))" for b
        using trans [OF R1] unfolding within_def by blast+
      with False rc R1 show ?thesis
        by (subst deliver_responses.simps) (cases a; auto simp: w split: option.split; metis prod.exhaust_sel)
    qed
  qed
  then show ?thesis unfolding completes_def by blast
qed

lemma process_fd_completes:
  assumes D: "demux_keeps D M" and law: "adns_progress_law D need L"
    and call: "\<And>u x. completes (no_more_work pending D) (call u x)"
  shows "completes (no_more_work pending D) (process_fd M L call fd ev)"
proof -
  note step = no_more_work_rc [where pending = pending and D = D]
  from step [where f = "adns_processreadable L", OF adns_progressD(2) [OF law]] step [where f = "adns_processwriteable L", OF adns_progressD(3) [OF law]]
    step [where f = "adns_processexceptional L", OF adns_progressD(4) [OF law]] show ?thesis
    unfolding process_fd_def Let_def
    by (intro completes_intros deliver_responses_completes [OF D law] call) (auto intro: completes_intros)
qed

lemma process_timeout_completes:
  assumes D: "demux_keeps D M" and law: "adns_progress_law D need L"
    and call: "\<And>u x. completes (no_more_work pending D) (call u x)"
  shows "completes (no_more_work pending D) (process_timeout M L call)"
proof -
  have "within (no_more_work pending D) (\<lambda>st. on_world (lib_call (adns_processtimeouts L (core_now st))) st)"
    unfolding within_def by (intro allI no_more_work_call) (rule adns_progressD(5) [OF law])
  then show ?thesis
    unfolding process_timeout_def by (intro completes_intros deliver_responses_completes [OF D law] call)
qed

text \<open>A round of \<open>adns_prepare\<close> either makes room, or processes a time-out that has passed.\<close>

lemma adns_prepare_ends:
  assumes D: "demux_keeps D M" and law: "adns_progress_law D need L"
    and call: "\<And>u x. completes (no_more_work pending D) (call u x)"
  shows "\<exists>r st'. adns_prepare M L call task n st = Some (r, st')"
proof (induction "2 * D (os (the_world st)) (core_now st) + of_bool (n < need (os (the_world st)))" arbitrary: n st rule: less_induct)
  case less
  obtain rc ps n1 timeout w where before: "adns_beforepoll L (pfds (core_dns st)) n (-1) (core_now st) (the_world st) = ((rc, ps, n1, timeout), w)"
    by (metis surj_pair)
  note lib = adns_progressD(6) [OF law before]
  have w: "on_world (lib_call (adns_beforepoll L (pfds (core_dns st)) n (-1) (core_now st))) st = (Inr (rc, ps, n1, timeout), with_world w st)"
    by (simp add: on_world_apply lib_call_def before)
  let ?st1 = "(with_world w st)\<lparr>core_dns := (core_dns st)\<lparr>pfds := ps\<rparr>\<rparr>"
  consider (room) "rc = ERANGE" "0 < n1" | (over) "rc = 0" "timeout = 0" | (ends) "\<not> (rc = ERANGE \<and> 0 < n1)" "\<not> (rc = 0 \<and> timeout = 0)"
    by blast
  then show ?case
  proof cases
    case room
    let ?st2 = "?st1\<lparr>core_dns := (core_dns ?st1)\<lparr>pfds := resize_pfds (nat n1) ps\<rparr>\<rparr>"
    have "\<exists>r st'. adns_prepare M L call task n1 ?st2 = Some (r, st')"
      by (rule less) (use lib room in auto)
    with room show ?thesis by (subst adns_prepare.simps) (simp add: w Let_def)
  next
    case over
    let ?w2 = "snd (adns_processtimeouts L (core_now st) w)"
    have world: "on_world (lib_call (adns_processtimeouts L (core_now st))) ?st1 = (Inr (), with_world ?w2 ?st1)"
      by (simp add: on_world_apply lib_call_def split: prod.split)
    obtain r st2 where del: "deliver_responses M L call (with_world ?w2 ?st1) = Some (r, st2)"
      and R: "no_more_work pending D (with_world ?w2 ?st1) st2"
      by (rule completesE [OF deliver_responses_completes [OF D law call]])
    have "process_timeout M L call ?st1 = Some (r, st2)"
      using del world by (simp add: process_timeout_def then_prog_def bind_prog_def lift_op_def)
    moreover have "\<exists>r st'. adns_prepare M L call task n1 st2 = Some (r, st')"
      by (rule less) (use lib over R in \<open>auto simp: no_more_work_def\<close>)
    ultimately show ?thesis
      using over by (subst adns_prepare.simps) (cases r; simp add: w Let_def errno_codes)
  next
    case ends
    then show ?thesis by (subst adns_prepare.simps) (auto simp: w Let_def; metis prod.exhaust_sel)
  qed
qed

lemma adns_run_ends:
  assumes D: "demux_keeps D M" and law: "adns_progress_law D need L"
    and call: "\<And>u x. completes (no_more_work pending D) (call u x)"
  shows "returns (adns_run M L call task fdh) st"
proof -
  have "returns (bind_prog (adns_prepare M L call task n) (\<lambda>n. lift_op (adns_reregister M fdh n))) st" for n st
    using adns_prepare_ends [OF D law call, where task = task and n = n and st = st] by (intro returns_bind_prog) (auto simp: returns_def lift_op_def)
  then show ?thesis
    unfolding adns_run_def then_prog_def by (intro returns_bind_prog) (auto simp: returns_def lift_op_def)
qed

end

lemma core_schedule_run_ends:
  fixes st :: "('f, 'h, 'd, 'u, 'k, 'm) core_state_scheme"
  assumes call: "\<And>f. completes (\<lambda>s t. due t \<le> due s) (call f)"
  shows "returns (core_schedule_run call) st"
proof -
  let ?now = "\<lambda>st :: ('f, 'h, 'd, 'u, 'k, 'm) core_state_scheme. current_time_t (core_now st)"
  let ?call = "\<lambda>f (s, st). map_option (\<lambda>(r, st'). (r, core_schedule st', st')) (call f (with_schedule s st))"
  have "\<exists>res x'. ?call f (s, st) = Some (res, x') \<and> due_count ?now x' \<le> due_count ?now (s, st)" for f s st
  proof -
    obtain r t where "call f (with_schedule s st) = Some (r, t)" and "due t \<le> due (with_schedule s st)"
      by (rule completesE [OF call])
    then show ?thesis by (simp add: due_def due_count_def with_schedule_def)
  qed
  then have "returns (schedule_run ?now ?call) (core_schedule st, st)"
    by (intro schedule_run_returns_inv [of "\<lambda>_. True"]) simp_all
  then show ?thesis by (auto simp: returns_def core_schedule_run_def)
qed

context pending_events
begin

lemma program_run_ends:
  assumes D: "demux_keeps D M" and law: "adns_progress_law D need L"
    and app: "\<And>f ev. completes (\<lambda>s t. pending (the_demux t) \<le> pending (the_demux s)) (h_app f ev)"
      "\<And>f. completes (\<lambda>s t. due t \<le> due s) (t_app f)" "\<And>u x. completes (no_more_work pending D) (u_call u x)"
  shows "\<exists>r st'. core_program_run M L h_app t_app u_call st = Some (r, st')"
proof -
  have "completes (\<lambda>s t. pending (the_demux t) \<le> pending (the_demux s)) (handler_call M L u_call h_app f ev)" for f ev
    by (cases f) (auto simp: no_more_work_def intro: app(1) completes_mono [OF process_fd_completes [OF D law app(3)]])
  then have "returns (core_dispatch_run M (handler_call M L u_call h_app)) st" for st
    using core_dispatch_run_ends [of "handler_call M L u_call h_app" st] by (auto simp: returns_def)
  moreover have "completes (\<lambda>s t. due t \<le> due s) (task_call M L u_call t_app f)" for f
    by (cases f) (auto simp: no_more_work_def intro: app(2) completes_mono [OF process_timeout_completes [OF D law app(3)]])
  then have "returns (core_schedule_run (task_call M L u_call t_app)) st" for st
    by (rule core_schedule_run_ends)
  ultimately have "returns (core_program_run M L h_app t_app u_call) st"
    unfolding core_program_run_def core_run_def then_prog_def
    using adns_run_ends [OF D law app(3)]
    by (intro returns_bind_prog) (auto simp: returns_def lift_op_def)
  then show ?thesis by (auto simp: returns_def)
qed

end

section \<open>The three demultiplexers\<close>

lemma poll_pop_fewer: "poll_pop_event d = (Inr (Some x), d') \<Longrightarrow> poll_n_events d' < poll_n_events d"
proof (induction d rule: poll_pop_event.induct)
  case (1 d)
  from 1(2) [unfolded poll_pop_event.simps [of d]] 1(1) [OF _ _ refl refl] show ?case
    by (auto simp: Let_def split: if_splits)
qed

interpretation poll_pending: pending_events "poll_ops P hv spm sys" poll_n_events
proof
  fix d d' :: poll_demux and w w' :: "'a world" and x sk r
  show "poll_n_events d' < poll_n_events d" if "dm_pop_event (poll_ops P hv spm sys) (d, w) = (Inr (Some x), d', w')"
    using that poll_pop_fewer by (auto simp: poll_ops_def on_fst_def split: prod.splits)
  show "poll_n_events d' \<le> poll_n_events d" if "dm_socket_destruct (poll_ops P hv spm sys) sk (d, w) = (r, d', w')"
  proof -
    have "poll_n_events (snd (poll_unregister s d)) = poll_n_events d" for s d
      by (simp add: poll_unregister_def poll_check_consistency_def op_defs Let_def split: prod.split sum.split option.split)
    then show ?thesis
      using that by (auto simp: poll_ops_def poll_socket_destruct_def with_dtor_def on_fst_def on_snd_def
          split: prod.splits sum.splits if_splits) (metis order_refl snd_conv)+
  qed
qed

interpretation epoll_pending: pending_events "epoll_ops P hv spm E" epoll_n_events
proof
  fix d d' :: epoll_demux and w w' :: "'a world" and x sk r
  show "epoll_n_events d' < epoll_n_events d" if "dm_pop_event (epoll_ops P hv spm E) (d, w) = (Inr (Some x), d', w')"
    using that by (auto simp: epoll_ops_def on_fst_def epoll_pop_event_def Let_def split: prod.splits if_splits)
  show "epoll_n_events d' \<le> epoll_n_events d" if "dm_socket_destruct (epoll_ops P hv spm E) sk (d, w) = (r, d', w')"
    using that by (auto simp: epoll_ops_def epoll_socket_destruct_def epoll_unregister_def with_dtor_def on_snd_def ret_def
        split: prod.splits sum.splits if_splits)
qed

text \<open>\<open>select\<close> stops at \<open>_max_fd\<close>.\<close>

definition select_left :: "select_demux \<Rightarrow> nat" where
  "select_left d = nat (max_fd d + 1 - current d)"

lemma select_pop_fewer: "select_pop_event d = (Inr (Some x), d') \<Longrightarrow> select_left d' < select_left d"
proof (induction d rule: select_pop_event.induct)
  case (1 d)
  from 1(2) [unfolded select_pop_event.simps [of d]] 1(1) [OF _ _ refl refl _ _ refl refl refl refl refl] show ?case
    by (auto simp: Let_def select_left_def split: if_splits)
qed

interpretation select_pending: pending_events "select_ops P hv spm sel" select_left
proof
  fix d d' :: select_demux and w w' :: "'a world" and x sk r
  show "select_left d' < select_left d" if "dm_pop_event (select_ops P hv spm sel) (d, w) = (Inr (Some x), d', w')"
    using that select_pop_fewer by (auto simp: select_ops_def on_fst_def split: prod.splits)
  show "select_left d' \<le> select_left d" if "dm_socket_destruct (select_ops P hv spm sel) sk (d, w) = (r, d', w')"
  proof -
    have "lower_max_fd fds m \<le> m" for fds m
      by (induction fds m rule: lower_max_fd.induct) (subst lower_max_fd.simps, force)
    then have "select_left (snd (select_request s no_events d)) \<le> select_left d" for s d
      by (auto simp: select_left_def select_request_def op_defs Let_def nat_mono)
    then show ?thesis
      using that by (auto simp: select_ops_def select_socket_destruct_def with_dtor_def on_fst_def on_snd_def
          split: prod.splits sum.splits if_splits) (metis snd_conv)+
  qed
qed

section \<open>Properties\<close>

text \<open>
  C4.  \<open>run\<close> gives control back.  On the \<open>poll\<close> demultiplexer, with a library that keeps its promises, a
  call of \<open>core::run\<close> returns, normally or by an exception, from every state: socket handlers may
  not add to the events that are pending, tasks not to the tasks that are due, and the handlers of
  queries to neither of them, nor to the open queries and the time-outs that have passed.  The
  resolver's own handlers and its timer keep these bounds, whatever they do with sockets and queries.
\<close>

theorem poll_program_run_returns:
  fixes D :: "'k \<Rightarrow> timeval \<Rightarrow> nat" and st :: "('f core_task, 'h core_handler, poll_demux, 'u, 'k, 'm) core_state_scheme"
  assumes kernel: "\<And>s. quiet_call D (sys_close P s)" "\<And>m. quiet_call D (spm m)" "\<And>ps to m. quiet_call D (sys ps to m)"
    and law: "adns_progress_law D need L"
    and handlers: "\<And>f ev. completes (\<lambda>s t. poll_n_events (the_demux t) \<le> poll_n_events (the_demux s)) (h_app f ev)"
    and tasks: "\<And>f. completes (\<lambda>s t. due t \<le> due s) (t_app f)"
    and answers: "\<And>u x. completes (no_more_work poll_n_events D) (u_call u x)"
  shows "\<exists>r st'. core_program_run (poll_ops P hv spm sys) L h_app t_app u_call st = Some (r, st')"
  by (rule poll_pending.program_run_ends [OF demux_keeps_poll law handlers tasks answers]) (rule kernel)+

lemma completes_skip: "reflp R \<Longrightarrow> completes R (\<lambda>st. Some (Inr (), st))"
  by (simp add: completes_def reflpD)

theorem poll_program_run_returns_witness:
  "\<exists>r st'. core_program_run plain_poll slow_adns (\<lambda>f ev st. Some (Inr (), st)) (\<lambda>f st. Some (Inr (), st))
     (\<lambda>u x st. Some (Inr (), st)) waiting_program = Some (r, st')"
  unfolding plain_poll_def
proof (rule poll_program_run_returns [where D = "\<lambda>_ _. 0" and need = "\<lambda>_. 0"])
  show "adns_progress_law (\<lambda>_ _. 0) (\<lambda>_. 0) slow_adns"
    by (auto simp: adns_progress_law_def slow_adns_def count_adns_def count_check_def errno_codes split: if_splits)
qed (auto simp: quiet_call_def intro!: completes_skip reflpI no_more_work_preorder(1) [THEN reflpD])

end
