(* ===== verification/Ioxx_Client_Returns.thy ===== *)
theory Ioxx_Client_Returns
  imports Ioxx_Client Ioxx_Returns
begin

text \<open>
  The operations that the callbacks of the servers are made of keep the bounds under which \<open>run\<close> gives
  control back (\<open>Ioxx_Returns\<close>), on the \<open>poll\<close> demultiplexer.
\<close>

section \<open>Control structures\<close>

lemma within_if [completes_intros]: "(b \<Longrightarrow> within R m) \<Longrightarrow> (\<not> b \<Longrightarrow> within R n) \<Longrightarrow> within R (if b then m else n)"
  by simp

lemma within_mono: "within R m \<Longrightarrow> (\<And>s t. R s t \<Longrightarrow> R' s t) \<Longrightarrow> within R' m"
  unfolding within_def by blast

lemma within_two:
  assumes "\<And>s. snd (n s) = snd (m s) \<or> snd (n s) = snd (d (snd (m s)))" and "within R m" "within R d" "transp R"
  shows "within R n"
  using assms unfolding within_def by (metis transpD)

lemma within_catch [completes_intros]: "within R m \<Longrightarrow> within R h \<Longrightarrow> transp R \<Longrightarrow> within R (catch_op m h)"
  by (rule within_two [where m = m and d = h]) (auto simp: catch_op_def split: prod.split sum.split)

lemma within_unwind [completes_intros]: "within R m \<Longrightarrow> within R d \<Longrightarrow> transp R \<Longrightarrow> within R (unwind_op m d)"
  by (rule within_two [where m = m and d = d]) (auto simp: unwind_op_def split: prod.split sum.split)

lemma within_dtor [completes_intros]: "within R m \<Longrightarrow> within R d \<Longrightarrow> transp R \<Longrightarrow> within R (with_dtor m d)"
  by (rule within_two [where m = m and d = d]) (auto simp: with_dtor_def split: prod.split sum.split)

section \<open>Time-outs and sockets\<close>

lemma due_on_schedule:
  assumes "length (filter (\<lambda>x. fst x \<le> current_time_t (core_now st)) (queue (snd (m (core_schedule st))))) \<le>
    length (filter (\<lambda>x. fst x \<le> current_time_t (core_now st)) (queue (core_schedule st)))"
  shows "no_more_work pending D st (snd (on_schedule m st))"
  using assms by (cases "m (core_schedule st)") (simp add: no_more_work_def on_schedule_def due_def due_count_def)

lemma cancel_queue:
  "length (filter p (queue (snd (schedule_cancel tid s)))) \<le> length (filter p (queue s))"
proof -
  have "length (filter p (mm_erase n q)) \<le> length (filter p q)" for n and q :: "'a queue_entry list"
    by (induction q) (auto simp: mm_erase_def)
  then have "length (filter p (queue (snd (schedule_unsafe_cancel tid s)))) \<le> length (filter p (queue s))"
    by (cases "snd tid") (simp_all add: schedule_unsafe_cancel_def queue_erase_def op_defs)
  moreover have "snd (bind_op m (\<lambda>x. ret (g x)) s) = snd (m s)" for m :: "('a schedule, task_id) op" and g :: "task_id \<Rightarrow> bool \<times> task_id"
    by (simp add: op_defs split: prod.split sum.split)
  then have "snd (schedule_cancel tid s) = s \<or> snd (schedule_cancel tid s) = snd (schedule_unsafe_cancel tid s)"
    by (simp add: schedule_cancel_def del: cancel_scan.simps split: list.split sum.split bool.split)
  ultimately show ?thesis by (elim disjE) simp_all
qed

lemma at_queue: "\<not> p (ts, next_node s, f) \<Longrightarrow> length (filter p (queue (snd (schedule_at ts f s)))) = length (filter p (queue s))"
proof -
  assume later: "\<not> p (ts, next_node s, f)"
  have "length (filter p (mm_insert (ts, next_node s, f) q)) = length (filter p q)" for q
    using later by (induction q) auto
  then show ?thesis by (simp add: schedule_at_def)
qed

lemma timeout_in_queue:
  assumes "\<And>n. \<not> p (now + uint to, n, f)"
  shows "length (filter p (queue (snd (timeout_in now to f tid s)))) \<le> length (filter p (queue s))"
proof -
  obtain r s' where c: "schedule_cancel tid s = (r, s')" by (cases "schedule_cancel tid s")
  with cancel_queue [of p tid s] have "length (filter p (queue s')) \<le> length (filter p (queue s))" by simp
  with at_queue [of p "now + uint to" s' f] assms c show ?thesis
    by (cases r) (auto simp: timeout_in_def timeout_at_def op_defs schedule_at_def)
qed

lemma within_cancel [completes_intros]: "within (no_more_work pending D) (on_schedule (timeout_cancel tid))"
  unfolding within_def timeout_cancel_def by (intro allI due_on_schedule cancel_queue)

lemma within_timeout_destroy [completes_intros]: "within (no_more_work pending D) (on_schedule (timeout_destroy tid))"
proof -
  have "snd (timeout_destroy tid s) = snd (schedule_cancel tid s)" for s :: "'a schedule"
    by (simp add: timeout_destroy_def op_defs split: prod.split sum.split)
  then show ?thesis unfolding within_def by (intro allI due_on_schedule) (simp add: cancel_queue)
qed

lemma within_timeout:
  assumes "0 < uint to"
  shows "no_more_work pending D st (snd (on_schedule (timeout_in (current_time_t (core_now st)) to f tid) st))"
  by (rule due_on_schedule, rule timeout_in_queue) (use assms in simp)

lemma poll_request_events: "poll_request s ev d = (r, d') \<Longrightarrow> poll_n_events d' = poll_n_events d"
proof -
  have "poll_n_events (snd (poll_request s ev d)) = poll_n_events d"
    by (simp add: poll_request_def poll_check_consistency_def op_defs Let_def split: prod.split sum.split option.split)
  then show "poll_request s ev d = (r, d') \<Longrightarrow> ?thesis" by (metis snd_conv)
qed

lemma within_request:
  fixes f :: "'h handler_map \<times> (poll_demux \<times> 'k world) \<Rightarrow> (fault + unit) \<times> 'h handler_map \<times> (poll_demux \<times> 'k world)"
  assumes "f = on_snd (dm_request (poll_ops P hv spm sys) s ev) \<or> f = dispatch_modify (poll_ops P hv spm sys) s h ev"
  shows "within (no_more_work poll_n_events D) (on_dispatch f :: (('f, 'h, poll_demux, 'u, 'k, 'm) core_state_scheme, unit) op)"
proof -
  have same: "poll_n_events d' = poll_n_events d \<and> w' = w" if "f (hs, d, w) = (r, hs', d', w')" for r hs d w hs' d' w'
    using assms that poll_request_events
    by (fastforce simp: dispatch_modify_def poll_ops_def op_defs on_fst_def on_snd_def handlers_assign_def
        split: prod.splits sum.splits if_splits)
  show ?thesis
    unfolding within_def
  proof
    fix st :: "('f, 'h, poll_demux, 'u, 'k, 'm) core_state_scheme"
    obtain r hs' d' w' where "f (core_dispatch st) = (r, hs', d', w')" by (metis surj_pair)
    with same [of "fst (core_dispatch st)" "the_demux st" "the_world st"] show "no_more_work poll_n_events D st (snd (on_dispatch f st))"
      by (simp add: on_dispatch_def no_more_work_def)
  qed
qed

lemma within_world:
  assumes "quiet_world D m"
  shows "within (no_more_work pending D) (on_world m)"
  using keepsD [OF assms [unfolded quiet_world_def]]
  by (auto simp: within_def on_world_apply no_more_work_def split: prod.split)

lemma quiet_nonblocking:
  assumes "quiet_call q f"
  shows "quiet_world q (nonblocking_call msg f)"
  unfolding nonblocking_call_def by (rule quiet_worlds) (rule assms)

section \<open>New connections\<close>

text \<open>A handler may add to everything but the pending events.\<close>

definition fewer_events :: "('f, 'h, poll_demux, 'u, 'k, 'm) core_state_scheme \<Rightarrow> ('f, 'h, poll_demux, 'u, 'k, 'm) core_state_scheme \<Rightarrow> bool" where
  "fewer_events s t \<longleftrightarrow> poll_n_events (the_demux t) \<le> poll_n_events (the_demux s)"

lemma fewer_events_preorder [completes_intros]: "reflp fewer_events" "transp fewer_events"
  by (auto simp: fewer_events_def reflp_def transp_def)

lemma within_fewer: "within (no_more_work poll_n_events D) m \<Longrightarrow> within fewer_events m"
  by (erule within_mono) (simp add: no_more_work_def fewer_events_def)

lemma keeps_parts [keeps_intros]:
  "keeps q m \<Longrightarrow> keeps (\<lambda>x. q (fst x)) (on_fst m)" "keeps (\<lambda>x. q (fst x)) (on_snd n)"
  "keeps q k \<Longrightarrow> keeps q d \<Longrightarrow> keeps q (unwind_op k d)"
proof -
  show "keeps q m \<Longrightarrow> keeps (\<lambda>x. q (fst x)) (on_fst m)" "keeps (\<lambda>x. q (fst x)) (on_snd n)"
    by (auto simp: keeps_def on_fst_def on_snd_def split: prod.split) (metis snd_conv)
  assume k: "keeps q k" and d: "keeps q d"
  have "q (snd (unwind_op k d s)) = q s" for s
  proof -
    obtain r t r' u where "k s = (r, t)" "d t = (r', u)" by (metis surj_pair)
    with keepsD [OF k] keepsD [OF d] show ?thesis by (cases r; cases r') (simp_all add: unwind_op_def)
  qed
  then show "keeps q (unwind_op k d)" by (simp add: keeps_def)
qed

lemma poll_register_events: "poll_n_events (snd (poll_register s ev d)) = poll_n_events d"
proof -
  obtain r d' where "poll_request s ev (d\<lparr>poll_indices := (poll_indices d)(s \<mapsto> length (poll_pfd d)),
      poll_pfd := poll_pfd d @ [\<lparr>pfd_fd = s, pfd_events = 0, pfd_revents = 0\<rparr>]\<rparr>) = (r, d')" by (metis surj_pair)
  with poll_request_events [OF this] show ?thesis
    by (cases r) (simp_all add: poll_register_def on_exception_def op_defs)
qed

lemma poll_construct_events: "keeps (\<lambda>x. poll_n_events (fst (snd x))) (dispatch_socket_construct (poll_ops P hv spm sys) s h ev)"
proof -
  have "keeps poll_n_events (poll_register s ev)" by (simp add: keeps_def poll_register_events)
  then have "keeps (\<lambda>x. poll_n_events (fst x)) (poll_socket_construct P s ev)"
    unfolding poll_socket_construct_def by (intro keeps_intros) (simp_all add: keeps_def system_socket_construct_def keeps_intros)
  then have "keeps (\<lambda>x. poll_n_events (fst (snd x))) (on_snd (dm_socket_construct (poll_ops P hv spm sys) s ev))"
    using keeps_on_snd [where q = "\<lambda>x. poll_n_events (fst x)"] by (simp add: poll_ops_def)
  then show ?thesis
    unfolding dispatch_socket_construct_def
    by (intro keeps_bind keeps_then keeps_simple) (assumption | rule keeps_on_fst [where q = "\<lambda>x. poll_n_events (fst x)"])+
qed

lemma within_socket [completes_intros]:
  "within fewer_events (core_socket_construct (poll_ops P hv spm sys) s h ev :: (('f, 'h, poll_demux, 'u, 'k, 'm) core_state_scheme, system_socket) op)"
  unfolding within_def
proof
  fix st :: "('f, 'h, poll_demux, 'u, 'k, 'm) core_state_scheme"
  obtain r x where c: "dispatch_socket_construct (poll_ops P hv spm sys) s h ev (core_dispatch st) = (r, x)" by (metis surj_pair)
  from keepsD [OF poll_construct_events c] c show "fewer_events st (snd (core_socket_construct (poll_ops P hv spm sys) s h ev st))"
    by (simp add: core_socket_construct_def on_dispatch_def fewer_events_def)
qed

lemma within_query [completes_intros]: "within fewer_events (query_ptr_address L addr h)"
  by (auto simp: within_def query_ptr_address_def on_world_apply lib_call_def throw_rc_if_not_zero_def on_dns_def register_callback_def
      adns_check_consistency_def op_defs fewer_events_def split: prod.split)

text \<open>A socket and a query that were accepted have taken no more of the world than the query.\<close>

lemma construct_world:
  assumes "core_socket_construct (poll_ops P hv spm sys) s h ev st = (Inr sk, st')"
  shows "the_world st' = the_world st"
proof -
  obtain hs d w where st: "core_dispatch st = (hs, d, w)" by (cases "core_dispatch st")
  with assms obtain hs' d' w' where run: "dispatch_socket_construct (poll_ops P hv spm sys) s h ev (hs, d, w) = (Inr sk, (hs', d', w'))"
      "the_world st' = w'"
    by (cases "dispatch_socket_construct (poll_ops P hv spm sys) s h ev (hs, d, w)") (auto simp: core_socket_construct_def on_dispatch_def)
  from dispatch_construct_inv [OF run(1)] have "poll_socket_construct P s ev (d, w) = (Inr sk, (d', w'))"
    by (simp add: settled_def poll_ops_def)
  then have "w' = w"
    by (auto simp: poll_socket_construct_def system_socket_construct_def ret_def unwind_op_def on_fst_def
        elim!: bind_op_InrE then_op_InrE split: if_splits prod.splits sum.splits)
  with st run(2) show ?thesis by simp
qed

lemma query_world:
  "query_ptr_address L addr h st = (Inr (), st') \<Longrightarrow> the_world st' = snd (adns_submit_reverse L addr adns_r_ptr adns_qf_none (the_world st))"
  by (auto simp: query_ptr_address_def on_world_apply lib_call_def throw_rc_if_not_zero_def on_dns_def register_callback_def
      adns_check_consistency_def op_defs split: prod.splits if_splits)

section \<open>The acceptor\<close>

lemma acceptor_handler_completes:
  fixes accept :: "int \<Rightarrow> address \<Rightarrow> (('f, 'h, poll_demux, 'u, 'k, 'm) core_state_scheme, unit) op"
  assumes law: "descriptors_law B P"
    and accept: "\<And>s peer. within fewer_events (accept s peer)"
      "\<And>s peer st st'. accept s peer st = (Inr (), st') \<Longrightarrow> B (os (the_world st')) \<le> B (os (the_world st))"
  shows "completes fewer_events (acceptor_handler P accept ls)"
proof -
  have call: "\<exists>r x' w'. on_accept accept s peer (x, w) = Some (r, (x', w')) \<and> fewer_events x x' \<and> (r = Inr () \<longrightarrow> B (os w') \<le> B (os w))"
    for s peer x w
  proof -
    obtain r x' where run: "accept s peer (with_world w x) = (r, x')" by (cases "accept s peer (with_world w x)")
    then have "fewer_events (with_world w x) x'" using accept(1) unfolding within_def by (metis snd_conv)
    then have "fewer_events x x'" by (simp add: fewer_events_def)
    with run accept(2) [of s peer "with_world w x" x'] show ?thesis by (simp add: on_accept_def)
  qed
  show ?thesis
    unfolding completes_def
  proof
    fix st
    have "\<exists>r x' w'. acceptor_run P (on_accept accept) ls address_default (st, the_world st) = Some (r, (x', w')) \<and> fewer_events st x'"
      by (rule acceptor_run_ends [OF law fewer_events_preorder]) (rule call)
    then obtain r x' w' where
      "acceptor_run P (on_accept accept) ls address_default (st, the_world st) = Some (r, (x', w'))" "fewer_events st x'" by blast
    then show "\<exists>r t. acceptor_handler P accept ls st = Some (r, t) \<and> fewer_events st t"
      by (simp add: acceptor_handler_def fewer_events_def)
  qed
qed

end
