(* ===== verification/Ioxx_Echo_Program.thy ===== *)
theory Ioxx_Echo_Program
  imports Ioxx_Echo Ioxx_Client_Returns
begin

text \<open>
  The echo server of \<open>test/echo.hpp\<close> as a program on \<open>core\<close>: its acceptor and its callbacks keep the
  bounds under which \<open>run\<close> gives control back.
\<close>

section \<open>The steps of the callbacks add no work\<close>

text \<open>The steps, by their shape.\<close>

lemma within_conn [completes_intros]:
  "reflp R \<Longrightarrow> (\<And>c. within R (f c)) \<Longrightarrow> within R (with_conn i f)"
  "reflp R \<Longrightarrow> (\<And>sk. within R (g sk)) \<Longrightarrow> within R (with_sock i g)"
  by (auto simp: within_def with_sock_def with_conn_def raise_op_def dest: reflpD split: option.split)

lemma within_upd [completes_intros]: "within (no_more_work pending D) (upd_conn i g)"
  by (simp add: within_def upd_conn_def no_more_work_def due_def due_count_def)

lemma within_timeout_in:
  assumes "0 < uint to"
  shows "within (no_more_work pending D) (conn_timeout_in i to :: (('d, 'k) echo_program, unit) op)"
proof -
  have "within (no_more_work pending D) (\<lambda>st. bind_op (on_schedule (timeout_in (current_time_t (core_now st)) to (App_task (Echo_shutdown i)) tid))
      (\<lambda>(_, tid). upd_conn i (g tid)) st)" for tid g
    unfolding within_def
  proof
    fix st :: "('d, 'k) echo_program"
    have "no_more_work pending D st (snd (on_schedule (timeout_in (current_time_t (core_now st)) to (App_task (Echo_shutdown i)) tid) st))"
      by (rule within_timeout [OF assms])
    then show "no_more_work pending D st (snd (bind_op (on_schedule (timeout_in (current_time_t (core_now st)) to (App_task (Echo_shutdown i)) tid))
      (\<lambda>(_, tid). upd_conn i (g tid)) st))"
      by (auto simp: bind_op_def upd_conn_def no_more_work_def due_def due_count_def split: prod.split sum.split)
  qed
  then show ?thesis unfolding conn_timeout_in_def by (intro completes_intros)
qed

lemma within_timeout_cancel [completes_intros]: "within (no_more_work pending D) (conn_timeout_cancel i :: (('d, 'k) echo_program, unit) op)"
proof -
  have "within (no_more_work pending D) (case x of (_, tid) \<Rightarrow> upd_conn i (\<lambda>c. c\<lparr>conn_timeout := tid\<rparr>))" for x :: "bool \<times> task_id"
    by (cases x) (simp add: completes_intros)
  then show ?thesis unfolding conn_timeout_cancel_def by (intro completes_intros)
qed

lemma echo_callbacks_within:
  fixes D :: "'k \<Rightarrow> timeval \<Rightarrow> nat"
  assumes close: "\<And>s. quiet_call D (sys_close P s)" and spm: "\<And>m. quiet_call D (spm m)" and sys: "\<And>ps to m. quiet_call D (sys ps to m)"
    and io: "\<And>s n. quiet_call D (sys_read P s n)" "\<And>s bytes. quiet_call D (sys_write P s bytes)"
  shows "within (no_more_work poll_n_events D) (echo_shutdown (poll_ops P hv spm sys) i)"
    and "within (no_more_work poll_n_events D) (echo_start (poll_ops P hv spm sys) i)"
    and "within (no_more_work poll_n_events D) (echo_run (poll_ops P hv spm sys) P i ev)"
proof -
  let ?M = "poll_ops P hv spm sys" and ?R = "no_more_work poll_n_events D :: (poll_demux, 'k) echo_program \<Rightarrow> _ \<Rightarrow> _"
  have gone: "within ?R (on_dispatch (dispatch_socket_destruct ?M sk))" for sk
    by (rule poll_pending.destruct_within [OF demux_keeps_poll [OF close spm sys]])
  have request: "within ?R (on_dispatch (on_snd (dm_request ?M s ev)))" for s ev
    by (rule within_request [where P = P and hv = hv and spm = spm and sys = sys and s = s and ev = ev]) simp
  have modify: "within ?R (on_dispatch (dispatch_modify ?M s h ev))" for s h ev
    by (rule within_request [where P = P and hv = hv and spm = spm and sys = sys and s = s and h = h and ev = ev]) simp
  show down: "within ?R (echo_shutdown ?M i)"
    unfolding echo_shutdown_def conn_sock_reset_def
    by (intro completes_intros) (auto intro!: completes_intros gone split: option.split)
  show "within ?R (echo_start ?M i)"
    unfolding echo_start_def by (intro completes_intros within_timeout_in modify) simp
  have read: "within ?R (on_world (socket_read P sk buf b e))" for sk buf b e
  proof (rule within_world)
    note call = quiet_nonblocking [OF io(1), unfolded quiet_world_def]
    show "quiet_world D (socket_read P sk buf b e)"
      unfolding socket_read_def quiet_world_def
      by (intro keeps_intros call) (simp add: keeps_def op_defs split: prod.split)
  qed
  have wr: "within ?R (on_world (socket_write P sk buf b e))" for sk buf b e
  proof (rule within_world)
    have "quiet_call D (\<lambda>w. case sys_write P (sock sk) (load_bytes buf b e) w of (rc, w') \<Rightarrow> ((rc, ()), w'))" using io(2) [of "sock sk" "load_bytes buf b e"] by (simp add: quiet_call_def case_prod_beta')
    note call = quiet_nonblocking [OF this, unfolded quiet_world_def]
    show "quiet_world D (socket_write P sk buf b e)"
      unfolding socket_write_def quiet_world_def
      by (intro keeps_intros call) (simp add: keeps_def op_defs split: prod.split)
  qed
  have "within ?R (echo_read ?M P i)"
    unfolding echo_read_def
    by (intro completes_intros) (auto intro!: completes_intros read down request split: prod.split)
  moreover have "within ?R (echo_write ?M P i)"
    unfolding echo_write_def
    by (intro completes_intros) (auto intro!: completes_intros wr down request split: prod.split)
  ultimately show "within ?R (echo_run ?M P i ev)"
    unfolding echo_run_def by (intro completes_intros down within_timeout_in) auto
qed

text \<open>Accepting a connection.\<close>

lemma echo_accept_within:
  fixes D :: "'k \<Rightarrow> timeval \<Rightarrow> nat"
  assumes close: "\<And>s. quiet_call D (sys_close P s)" and spm: "\<And>m. quiet_call D (spm m)" and sys: "\<And>ps to m. quiet_call D (sys ps to m)"
  shows "within fewer_events (echo_accept (poll_ops P hv spm sys) L s peer :: ((poll_demux, 'k) echo_program, unit) op)"
proof -
  let ?M = "poll_ops P hv spm sys" and ?W = "\<lambda>m. within (fewer_events :: (poll_demux, 'k) echo_program \<Rightarrow> _) m"
  have gone: "?W (on_dispatch (dispatch_socket_destruct ?M sk))" for sk
    by (rule within_fewer, rule poll_pending.destruct_within [OF demux_keeps_poll [OF close spm sys]])
  have upd: "?W (upd_conn i g)" and set: "?W (modify_op (\<lambda>st. st\<lparr>conns := g' st\<rparr>))"
    and drop: "?W (on_schedule (timeout_destroy tid))" for i g g' tid
    by (rule within_fewer [OF within_upd]) (simp_all add: within_def fewer_events_def op_defs within_fewer [OF within_timeout_destroy, unfolded within_def fewer_events_def])
  have reset: "?W (conn_sock_reset ?M i)" for i
    unfolding conn_sock_reset_def by (intro completes_intros) (auto intro!: completes_intros gone upd split: option.split)
  have "?W (echo_destruct ?M i)" for i
    unfolding echo_destruct_def by (intro completes_intros reset set drop)
  moreover have "?W (echo_construct ?M s peer)"
    unfolding echo_construct_def by (intro completes_intros) (simp add: within_def fewer_events_def Let_def)
  ultimately show ?thesis
    unfolding echo_accept_def by (intro completes_intros)
qed

lemma echo_accept_world:
  assumes "echo_accept (poll_ops P hv spm sys) L s peer st = (Inr (), st')"
  shows "the_world st' = snd (adns_submit_reverse L peer adns_r_ptr adns_qf_none (the_world st))"
proof -
  let ?M = "poll_ops P hv spm sys"
  from assms obtain i st1 where 1: "echo_construct ?M s peer st = (Inr i, st1)"
      and 2: "unwind_op (query_ptr_address L peer (Some (Echo_start i))) (echo_destruct ?M i) st1 = (Inr (), st')"
    unfolding echo_accept_def by (elim bind_op_InrE)
  from 1 have "the_world st1 = the_world st"
    unfolding echo_construct_def by (elim bind_op_InrE) (use construct_world in \<open>fastforce simp: Let_def\<close>)
  moreover from 2 have "query_ptr_address L peer (Some (Echo_start i)) st1 = (Inr (), st')"
    by (auto simp: unwind_op_def split: prod.splits sum.splits if_splits)
  ultimately show ?thesis using query_world by metis
qed

text \<open>A kernel with one client that connects, and a server whose acceptor is ready.\<close>

definition one_client :: "streams sock_os" where
  "one_client = streams_sock\<lparr>sys_accept := (\<lambda>ls a w.
     if 6 \<in> fst (os w) then ((-1, a), w\<lparr>errno := EAGAIN\<rparr>) else ((6, a), w\<lparr>os := (insert 6 (fst (os w)), snd (os w))\<rparr>))\<rparr>"

definition one_client_poll :: "(poll_demux \<times> streams world) demux_ops" where
  "one_client_poll = poll_ops one_client True (\<lambda>_ w. ((0, {}), w)) (\<lambda>ps to m w. ((0, []), w))"

definition listening :: "(poll_demux, streams) echo_program" where
  "listening = one_connection\<lparr>core_dispatch := ([(4, App_handler Acceptor_run)],
     (\<lparr>poll_pfd = [\<lparr>pfd_fd = 4, pfd_events = 1, pfd_revents = 1\<rparr>], poll_indices = [4 \<mapsto> 0], poll_n_events = 1, poll_current = 0\<rparr>,
      \<lparr>errno = 0, os = ({4}, \<lambda>_. [], \<lambda>_. [])\<rparr>))\<rparr>"

section \<open>Properties\<close>

text \<open>
  C17.  An echo server never hangs in \<open>run\<close>.  On the \<open>poll\<close> demultiplexer, with a library that keeps its
  promises and a process that has a bounded number \<open>B\<close> of descriptors left, every call of \<open>core::run\<close> of
  a program whose handlers, tasks and callbacks are those of the acceptor and the echo connections
  returns, from every state, whatever the sockets and the answers do and however many clients connect.
\<close>

theorem echo_program_run_returns:
  fixes D :: "'k \<Rightarrow> timeval \<Rightarrow> nat" and B :: "'k \<Rightarrow> nat" and st :: "(poll_demux, 'k) echo_program"
  assumes kernel: "\<And>s. quiet_call D (sys_close P s)" "\<And>m. quiet_call D (spm m)" "\<And>ps to m. quiet_call D (sys ps to m)"
    and io: "\<And>s n. quiet_call D (sys_read P s n)" "\<And>s bytes. quiet_call D (sys_write P s bytes)"
    and law: "adns_progress_law D need L"
    and fds: "descriptors_law B P" "\<And>peer w. B (os (snd (adns_submit_reverse L peer adns_r_ptr adns_qf_none w))) \<le> B (os w)"
    and M: "M = poll_ops P hv spm sys"
  shows "\<exists>r st'. core_program_run M L (echo_handlers M P L ls) (echo_tasks M) (echo_answers M) st = Some (r, st')"
proof -
  let ?R = "no_more_work poll_n_events D :: (poll_demux, 'k) echo_program \<Rightarrow> _ \<Rightarrow> _"
  have steps: "within ?R (echo_shutdown M i)" "within ?R (echo_start M i)" "within ?R (echo_run M P i ev)" for i ev
    unfolding M by (rule echo_callbacks_within; rule kernel io)+
  have accept: "completes fewer_events (acceptor_handler P (echo_accept M L :: _ \<Rightarrow> _ \<Rightarrow> ((poll_demux, 'k) echo_program, unit) op) ls)"
  proof (rule acceptor_handler_completes [OF fds(1)])
    show "within fewer_events (echo_accept M L c peer :: ((poll_demux, 'k) echo_program, unit) op)" for c peer
      unfolding M by (rule echo_accept_within [OF kernel])
    show "B (os (the_world t)) \<le> B (os (the_world s))" if "echo_accept M L c peer s = (Inr (), t)"
      for c peer and s t :: "(poll_demux, 'k) echo_program"
      using fds(2) by (simp add: echo_accept_world [OF that [unfolded M]])
  qed
  have h: "completes (\<lambda>s t. poll_n_events (the_demux t) \<le> poll_n_events (the_demux s)) (echo_handlers M P L ls f ev)" for f ev
  proof (cases f)
    case (Echo_run i)
    have "completes ?R (lift_op (echo_run M P i ev))" by (intro completes_lift steps(3))
    with Echo_run show ?thesis by (auto simp: no_more_work_def elim: completes_mono)
  next
    case Acceptor_run
    with accept show ?thesis by (auto simp: fewer_events_def elim: completes_mono)
  qed (simp add: completes_def lift_op_def op_defs)
  have "completes ?R (echo_tasks M f)" for f
    by (cases f) (auto intro!: completes_intros steps)
  then have t: "completes (\<lambda>s t. due t \<le> due s) (echo_tasks M f)" for f
    by (rule completes_mono) (simp add: no_more_work_def)
  have u: "completes ?R (echo_answers M u x)" for u x
    by (cases u) (auto intro!: completes_intros steps)
  show ?thesis
    unfolding M
    by (rule poll_pending.program_run_ends [OF demux_keeps_poll law h [unfolded M] t [unfolded M] u [unfolded M]]) (rule kernel)+
qed

theorem echo_program_run_returns_witness:
  "\<exists>r st'. core_program_run one_client_poll quiet_adns (echo_handlers one_client_poll one_client quiet_adns \<lparr>sock = 4, close_flag = True\<rparr>)
     (echo_tasks one_client_poll) (echo_answers one_client_poll) listening = Some (r, st')"
proof (rule echo_program_run_returns [where D = "\<lambda>_ _. 0" and need = "\<lambda>_. 0" and B = "\<lambda>k. if 6 \<in> fst k then 0 else 1"])
  show "adns_progress_law (\<lambda>_ _. 0) (\<lambda>_. 0) quiet_adns"
    by (auto simp: adns_progress_law_def quiet_adns_def errno_codes)
  show "descriptors_law (\<lambda>k. if 6 \<in> fst k then 0 else 1) one_client"
    by (auto simp: descriptors_law_def one_client_def streams_sock_def quiet_sock_def split: if_splits)
qed (rule one_client_poll_def | simp add: quiet_call_def quiet_adns_def)+

end
