(* ===== verification/Ioxx_Show.thy ===== *)
theory Ioxx_Show
  imports Ioxx_Socket Ioxx_Event_Set
begin

text \<open>
  Values as text: \<open>detail::show\<close> of \<open>include/ioxx/detail/show.hpp\<close> and the stream output operators of
  the library.  A stream is the text written to it so far.  The texts name sockets and events in log
  messages; the theorems say that different sockets, and different event sets, have different names.
\<close>

section \<open>Decimal numbers\<close>

fun show_nat :: "nat \<Rightarrow> string" where
  "show_nat n = (if n < 10 then [char_of (48 + n)] else show_nat (n div 10) @ [char_of (48 + n mod 10)])"

declare show_nat.simps [simp del]

text \<open>Output of an \<open>int\<close>, as the standard library does it by default.\<close>

definition out_int :: "string \<Rightarrow> int \<Rightarrow> string" where
  "out_int ost n = ost @ (if n < 0 then ''-'' else '''') @ show_nat (nat \<bar>n\<bar>)"

text \<open>The number that a text of digits denotes.\<close>

definition digits_value :: "string \<Rightarrow> nat" where
  "digits_value = foldl (\<lambda>v c. 10 * v + (of_char c - 48)) 0"

lemma digit_code: "d < 10 \<Longrightarrow> of_char (char_of (48 + d) :: char) = 48 + (d :: nat)"
  by (simp add: of_char_of)

lemma digits_value_show [simp]: "digits_value (show_nat n) = n"
proof (induction n rule: show_nat.induct)
  case (1 n)
  show ?case
  proof (cases "n < 10")
    case True
    then show ?thesis by (subst show_nat.simps) (simp add: digits_value_def digit_code)
  next
    case False
    then show ?thesis using 1 by (subst show_nat.simps) (simp add: digits_value_def digit_code)
  qed
qed

lemma show_nat_digits: "c \<in> set (show_nat n) \<Longrightarrow> 48 \<le> (of_char c :: nat) \<and> (of_char c :: nat) < 58"
proof (induction n rule: show_nat.induct)
  case (1 n)
  have "n mod 10 < 10" by simp
  then show ?case using 1 digit_code [of n] digit_code [of "n mod 10"]
    by (subst (asm) show_nat.simps) (auto split: if_splits)
qed

lemma out_int_cancel [simp]: "out_int ost m = out_int ost n \<longleftrightarrow> m = n"
proof
  assume same: "out_int ost m = out_int ost n"
  have "CHR ''-'' \<notin> set (show_nat k)" for k using show_nat_digits [of "CHR ''-''" k] by auto
  then have minus: "CHR ''-'' # cs \<noteq> show_nat k" "show_nat k \<noteq> CHR ''-'' # cs" for k cs by (metis list.set_intros(1))+
  then have "show_nat (nat \<bar>m\<bar>) = show_nat (nat \<bar>n\<bar>) \<and> (m < 0 \<longleftrightarrow> n < 0)"
    using same minus by (auto simp: out_int_def split: if_splits)
  then have "nat \<bar>m\<bar> = nat \<bar>n\<bar> \<and> (m < 0 \<longleftrightarrow> n < 0)" by (metis digits_value_show)
  then show "m = n" by linarith
qed simp

section \<open>Output of the library's values\<close>

definition detail_show :: "(string \<Rightarrow> 'a \<Rightarrow> string) \<Rightarrow> 'a \<Rightarrow> string" where
  "detail_show out val = (let ost = [] in out ost val)"

definition system_socket_out :: "string \<Rightarrow> system_socket \<Rightarrow> string" where
  "system_socket_out ost s = out_int (ost @ ''socket('') (sock s) @ '')''"

definition address_out :: "'k sock_os \<Rightarrow> string \<Rightarrow> address \<Rightarrow> ('k world, string) op" where
  "address_out P ost addr = bind_op (address_show P addr) (\<lambda>text. ret (ost @ text))"

lemma out_int_append: "out_int (a @ b) n = a @ out_int b n"
  by (simp add: out_int_def)

theorem socket_names_differ:
  "detail_show system_socket_out s = detail_show system_socket_out t \<longleftrightarrow> system_socket_eq s t"
  by (simp add: detail_show_def system_socket_out_def system_socket_eq_def)

context event_bits
begin

lemma event_names_differ:
  "event_show c ev = event_show c ev' \<Longrightarrow> event_bits_of c ev = event_bits_of c ev'"
  using has_event_if
  by (auto simp: event_show_def event_bits_of_def no_events_def has_event_def split: if_splits)

end

end
