(* ===== verification/Ioxx_Daytime.thy ===== *)
theory Ioxx_Daytime
  imports Ioxx_Client Ioxx_Show
begin

text \<open>
  The daytime server of \<open>test/daytime.hpp\<close>, a second client of the library: it sends the date to each
  connection and closes it.  Its model follows that of the echo server: the connection objects, by an
  identifier that stands for \<open>this\<close>, are part of the state of the program.

  The constructor formats the date with \<open>localtime_r\<close> and \<open>strftime\<close>.  What \<open>localtime_r\<close> makes of a time
  depends on the time zones of the system and is an argument; \<open>strftime\<close> is modelled for the format that
  the code passes to it, in the C locale.
\<close>

section \<open>The date\<close>

record tm =
  tm_sec :: int
  tm_min :: int
  tm_hour :: int
  tm_mday :: int
  tm_mon :: int
  tm_year :: int
  tm_zone :: string

type_synonym 'k sys_localtime = "int \<Rightarrow> ('k, tm) syscall"

definition two_digits :: "int \<Rightarrow> string" where
  "two_digits n = [char_of (48 + nat n div 10), char_of (48 + nat n mod 10)]"

definition month_name :: "int \<Rightarrow> string" where
  "month_name m =
     (if 0 \<le> m \<and> m < 12
      then [''Jan'', ''Feb'', ''Mar'', ''Apr'', ''May'', ''Jun'', ''Jul'', ''Aug'', ''Sep'', ''Oct'', ''Nov'', ''Dec''] ! nat m
      else ''?'')"

text \<open>The format \<open>"%d %b %Y %H:%M:%S %Z\r\n"\<close>.\<close>

definition date_text :: "tm \<Rightarrow> string" where
  "date_text t =
     two_digits (tm_mday t) @ '' '' @ month_name (tm_mon t) @ '' '' @ out_int '''' (tm_year t + 1900) @ '' '' @
     two_digits (tm_hour t) @ '':'' @ two_digits (tm_min t) @ '':'' @ two_digits (tm_sec t) @ '' '' @ tm_zone t @
     [char_of (13 :: nat), char_of (10 :: nat)]"

definition date_bytes :: "tm \<Rightarrow> u8 list" where
  "date_bytes t = map of_char (date_text t)"

text \<open>\<open>strftime\<close> answers 0 when the text and the 0 behind it do not fit.\<close>

definition strftime_date :: "nat \<Rightarrow> tm \<Rightarrow> nat \<times> u8 list" where
  "strftime_date room t = (if length (date_bytes t) < room then (length (date_bytes t), date_bytes t @ [0]) else (0, []))"

section \<open>Connections\<close>

datatype daytime_handler = Daytime_empty | Daytime_run nat | Daytime_acceptor
datatype daytime_task = Daytime_shutdown nat
datatype daytime_answer = Daytime_start nat

record daytime =
  day_sock :: "system_socket option"
  day_timeout :: task_id
  day_peer :: address
  day_buf :: "u8 list"
  day_begin :: int
  day_end :: int

record ('f, 'h, 'd, 'u, 'k) daytime_state = "('f, 'h, 'd, 'u, 'k) core_state" +
  days :: "nat \<rightharpoonup> daytime"
  next_day :: nat

type_synonym ('d, 'k) daytime_program =
  "(daytime_task core_task, daytime_handler core_handler, 'd, daytime_answer, 'k) daytime_state"

definition DAYTIME_BUF_SIZE :: nat where
  "DAYTIME_BUF_SIZE = 64"

definition with_day :: "nat \<Rightarrow> (daytime \<Rightarrow> (('d, 'k) daytime_program, 'a) op) \<Rightarrow> (('d, 'k) daytime_program, 'a) op" where
  "with_day i f st = (case days st i of None \<Rightarrow> (Inl Undefined_behaviour, st) | Some d \<Rightarrow> f d st)"

definition upd_day :: "nat \<Rightarrow> (daytime \<Rightarrow> daytime) \<Rightarrow> (('d, 'k) daytime_program, unit) op" where
  "upd_day i g st = (Inr (), st\<lparr>days := (days st)(i := map_option g (days st i))\<rparr>)"

definition with_day_sock :: "nat \<Rightarrow> (system_socket \<Rightarrow> (('d, 'k) daytime_program, 'a) op) \<Rightarrow> (('d, 'k) daytime_program, 'a) op" where
  "with_day_sock i f = with_day i (\<lambda>d. case day_sock d of None \<Rightarrow> raise_op Assertion_failed | Some sk \<Rightarrow> f sk)"

section \<open>Member functions\<close>

definition day_timeout_in :: "nat \<Rightarrow> u32 \<Rightarrow> (('d, 'k) daytime_program, unit) op" where
  "day_timeout_in i to = with_day i
     (\<lambda>d st. bind_op (on_schedule (timeout_in (current_time_t (core_now st)) to (App_task (Daytime_shutdown i)) (day_timeout d)))
        (\<lambda>(_, tid). upd_day i (\<lambda>d. d\<lparr>day_timeout := tid\<rparr>)) st)"

definition day_timeout_cancel :: "nat \<Rightarrow> (('d, 'k) daytime_program, unit) op" where
  "day_timeout_cancel i = with_day i
     (\<lambda>d. bind_op (on_schedule (timeout_cancel (day_timeout d))) (\<lambda>(_, tid). upd_day i (\<lambda>d. d\<lparr>day_timeout := tid\<rparr>)))"

definition day_sock_reset :: "('d \<times> 'k world) demux_ops \<Rightarrow> nat \<Rightarrow> (('d, 'k) daytime_program, unit) op" where
  "day_sock_reset M i = with_day i
     (\<lambda>d. case day_sock d of
        None \<Rightarrow> ret ()
      | Some sk \<Rightarrow> then_op (upd_day i (\<lambda>d. d\<lparr>day_sock := None\<rparr>)) (on_dispatch (dispatch_socket_destruct M sk)))"

definition daytime_shutdown :: "('d \<times> 'k world) demux_ops \<Rightarrow> nat \<Rightarrow> (('d, 'k) daytime_program, unit) op" where
  "daytime_shutdown M i = then_op (day_timeout_cancel i) (day_sock_reset M i)"

text \<open>The constructor.  It does not check what \<open>localtime_r\<close> returns; when that fails, the fields of the
  time are the memory's.\<close>

definition daytime_construct ::
  "('d \<times> 'k world) demux_ops \<Rightarrow> 'k sys_localtime \<Rightarrow> int \<Rightarrow> address \<Rightarrow> (('d, 'k) daytime_program, nat) op" where
  "daytime_construct M localtime s addr =
     bind_op (core_socket_construct M s (App_handler Daytime_empty) no_events)
       (\<lambda>sk st. bind_op (on_world (lib_call (localtime (current_time_t (core_now st)))))
         (\<lambda>tstamp. case strftime_date DAYTIME_BUF_SIZE tstamp of (len, text) \<Rightarrow>
            then_op (assert_op (0 < len))
              (\<lambda>st. let i = next_day st in
                 (Inr i, st\<lparr>next_day := i + 1, days := (days st)(i \<mapsto>
                    \<lparr>day_sock = Some sk, day_timeout = core_timeout_new, day_peer = addr,
                     day_buf = store_bytes (replicate DAYTIME_BUF_SIZE 0) 0 text, day_begin = 0, day_end = int len\<rparr>)\<rparr>))) st)"

definition daytime_destruct :: "('d \<times> 'k world) demux_ops \<Rightarrow> nat \<Rightarrow> (('d, 'k) daytime_program, unit) op" where
  "daytime_destruct M i = with_dtor
     (with_day i (\<lambda>d. on_schedule (timeout_destroy (day_timeout d))))
     (then_op (day_sock_reset M i) (modify_op (\<lambda>st. st\<lparr>days := (days st)(i := None)\<rparr>)))"

definition daytime_accept ::
  "('d \<times> 'k world) demux_ops \<Rightarrow> 'k sys_localtime \<Rightarrow> 'k adns_lib \<Rightarrow> int \<Rightarrow> address \<Rightarrow> (('d, 'k) daytime_program, unit) op" where
  "daytime_accept M localtime L s peer =
     bind_op (daytime_construct M localtime s peer)
       (\<lambda>i. unwind_op (query_ptr_address L peer (Some (Daytime_start i))) (daytime_destruct M i))"

definition daytime_start :: "('d \<times> 'k world) demux_ops \<Rightarrow> nat \<Rightarrow> (('d, 'k) daytime_program, unit) op" where
  "daytime_start M i =
     then_op (with_day_sock i (\<lambda>sk. on_dispatch (dispatch_modify M (sock sk) (App_handler (Daytime_run i)) (writable (dm_codes M)))))
       (day_timeout_in i 10)"

text \<open>The body of the \<open>try\<close> block of \<open>run\<close> after its first assertion.\<close>

definition daytime_send :: "('d \<times> 'k world) demux_ops \<Rightarrow> 'k sock_os \<Rightarrow> nat \<Rightarrow> (('d, 'k) daytime_program, unit) op" where
  "daytime_send M P i = with_day i
     (\<lambda>d. then_op (assert_op (day_begin d \<noteq> day_end d))
       (with_day_sock i (\<lambda>sk. bind_op (on_world (send_to P sk (day_buf d) (day_begin d) (day_end d) (day_peer d)))
         (\<lambda>p. if p = None \<or> p = Some (day_begin d) then daytime_shutdown M i
              else then_op (upd_day i (\<lambda>d. d\<lparr>day_begin := the p\<rparr>))
                (then_op (assert_op (the p \<le> day_end d))
                  (if the p = day_end d then daytime_shutdown M i else day_timeout_in i 10))))))"

definition daytime_run :: "('d \<times> 'k world) demux_ops \<Rightarrow> 'k sock_os \<Rightarrow> nat \<Rightarrow> u32 \<Rightarrow> (('d, 'k) daytime_program, unit) op" where
  "daytime_run M P i ev =
     catch_op (then_op (assert_op (ev = writable (dm_codes M))) (daytime_send M P i)) (daytime_shutdown M i)"

section \<open>The program\<close>

text \<open>\<open>ls\<close> is the socket of the acceptor.\<close>

fun daytime_handlers ::
  "('d \<times> 'k world) demux_ops \<Rightarrow> 'k sock_os \<Rightarrow> 'k sys_localtime \<Rightarrow> 'k adns_lib \<Rightarrow> system_socket \<Rightarrow> daytime_handler \<Rightarrow> u32 \<Rightarrow>
   (('d, 'k) daytime_program, unit) prog" where
  "daytime_handlers M P localtime L ls Daytime_empty ev = lift_op (raise_op (Runtime_error ''call to empty boost::function''))"
| "daytime_handlers M P localtime L ls (Daytime_run i) ev = lift_op (daytime_run M P i ev)"
| "daytime_handlers M P localtime L ls Daytime_acceptor ev = acceptor_handler P (daytime_accept M localtime L) ls"

fun daytime_tasks :: "('d \<times> 'k world) demux_ops \<Rightarrow> daytime_task \<Rightarrow> (('d, 'k) daytime_program, unit) prog" where
  "daytime_tasks M (Daytime_shutdown i) = lift_op (daytime_shutdown M i)"

fun daytime_answers :: "('d \<times> 'k world) demux_ops \<Rightarrow> (('d, 'k) daytime_program, daytime_answer) dns_call" where
  "daytime_answers M (Daytime_start i) x = lift_op (daytime_start M i)"

section \<open>A connection on \<open>poll\<close>\<close>

definition day_at :: "'k kernel_view \<Rightarrow> nat \<Rightarrow> int \<Rightarrow> daytime \<Rightarrow> (poll_demux, 'k) daytime_program \<Rightarrow> bool" where
  "day_at V i s d st \<longleftrightarrow> days st i = Some d \<and> day_sock d = Some \<lparr>sock = s, close_flag = True\<rparr> \<and>
     dp_ok (core_dispatch st) \<and> sock_view st s \<noteq> None \<and> s \<in> open_fds V (os (the_world st)) \<and> schedule_wf (core_schedule st) \<and>
     owns_timer (App_task (Daytime_shutdown i)) (day_timeout d) (core_schedule st)"

definition day_closed :: "'k kernel_view \<Rightarrow> nat \<Rightarrow> int \<Rightarrow> (poll_demux, 'k) daytime_program \<Rightarrow> bool" where
  "day_closed V i s st \<longleftrightarrow> (\<exists>d. days st i = Some d \<and> day_sock d = None \<and> fst (day_timeout d) = 0) \<and>
     dp_ok (core_dispatch st) \<and> sock_view st s = None \<and> s \<notin> open_fds V (os (the_world st)) \<and> schedule_wf (core_schedule st)"

lemma day_shutdown:
  assumes law: "close_law V P" "send_law tx V P" and at: "day_at V i s d st"
  shows "\<exists>st'. daytime_shutdown (poll_ops P hv spm sys) i st = (Inr (), st') \<and> day_closed V i s st' \<and>
    tx (os (the_world st')) = tx (os (the_world st)) \<and> core_now st' = core_now st"
proof -
  note at = at [unfolded day_at_def]
  have wf: "schedule_wf (core_schedule st)" and t: "owns_timer (App_task (Daytime_shutdown i)) (day_timeout d) (core_schedule st)"
    using at by blast+
  obtain r tid sch where cancel: "on_schedule (timeout_cancel (day_timeout d)) st = (Inr (r, tid), st\<lparr>core_schedule := sch\<rparr>)"
    and sch: "fst tid = 0" "schedule_wf sch"
    by (rule timer_cancelled [OF wf t])
  let ?mid = "st\<lparr>core_schedule := sch, days := (days st)(i \<mapsto> d\<lparr>day_timeout := tid, day_sock := None\<rparr>)\<rparr>"
  obtain x where x: "on_dispatch (dispatch_socket_destruct (poll_ops P hv spm sys) \<lparr>sock = s, close_flag = True\<rparr>) ?mid
      = (Inr (), ?mid\<lparr>core_dispatch := x\<rparr>)"
    "dp_ok x" "dp_interest x s = None" "open_fds V (os (snd (snd x))) = open_fds V (os (the_world ?mid)) - {s}"
    "tx (os (snd (snd x))) = tx (os (the_world ?mid))"
    by (rule socket_released [OF law(1) send_lawD(2) [OF law(2)], of ?mid s hv spm sys]) (use at in auto)
  have "daytime_shutdown (poll_ops P hv spm sys) i st = (Inr (), ?mid\<lparr>core_dispatch := x\<rparr>)"
    using at cancel x(1)
    by (simp add: daytime_shutdown_def day_timeout_cancel_def day_sock_reset_def with_day_def upd_day_def op_defs)
  moreover have "day_closed V i s (?mid\<lparr>core_dispatch := x\<rparr>)" using x(2-4) sch by (simp add: day_closed_def)
  ultimately show ?thesis using x(5) by (intro exI [of _ "?mid\<lparr>core_dispatch := x\<rparr>"]) simp
qed

text \<open>The timer of a connection that goes on.\<close>

definition day_timer :: "nat \<Rightarrow> int \<Rightarrow> (poll_demux, 'k) daytime_program \<Rightarrow> bool" where
  "day_timer i ts st \<longleftrightarrow> (\<exists>d n. days st i = Some d \<and> day_timeout d = (ts, Some n) \<and>
     timers (core_schedule st) n = Some (ts, App_task (Daytime_shutdown i)))"

lemma day_rearm:
  assumes at: "day_at V i s d st" and range: "in_time_range (current_time_t (core_now st) + uint to)"
  obtains tid sch where "day_timeout_in i to st = (Inr (), st\<lparr>core_schedule := sch, days := (days st)(i \<mapsto> d\<lparr>day_timeout := tid\<rparr>)\<rparr>)"
    "day_at V i s (d\<lparr>day_timeout := tid\<rparr>) (st\<lparr>core_schedule := sch, days := (days st)(i \<mapsto> d\<lparr>day_timeout := tid\<rparr>)\<rparr>)"
    "day_timer i (current_time_t (core_now st) + uint to) (st\<lparr>core_schedule := sch, days := (days st)(i \<mapsto> d\<lparr>day_timeout := tid\<rparr>)\<rparr>)"
proof -
  let ?ts = "current_time_t (core_now st) + uint to" and ?f = "App_task (Daytime_shutdown i)"
  note at = at [unfolded day_at_def]
  have wf: "schedule_wf (core_schedule st)" and t: "owns_timer ?f (day_timeout d) (core_schedule st)" using at by blast+
  obtain r n sch where n: "on_schedule (timeout_in (current_time_t (core_now st)) to ?f (day_timeout d)) st
      = (Inr (r, (?ts, Some n)), st\<lparr>core_schedule := sch\<rparr>)"
    "timers sch n = Some (?ts, ?f)" "schedule_wf sch"
    by (rule timer_armed [OF wf t range])
  show thesis
    by (rule that [of "(?ts, Some n)" sch])
      (use at n in \<open>simp_all add: day_timeout_in_def with_day_def upd_day_def op_defs day_at_def day_timer_def owns_timer_def\<close>)
qed

section \<open>Sending\<close>

text \<open>The connection has sent \<open>n\<close> of the bytes of \<open>text\<close> after \<open>base\<close>, has the others in its buffer and
  waits for room.\<close>

definition day_sending ::
  "'k kernel_view \<Rightarrow> ('k \<Rightarrow> int \<Rightarrow> u8 list) \<Rightarrow> nat \<Rightarrow> int \<Rightarrow> u8 list \<Rightarrow> u8 list \<Rightarrow> nat \<Rightarrow> (poll_demux, 'k) daytime_program \<Rightarrow> bool" where
  "day_sending V tx i s base text n st \<longleftrightarrow> (\<exists>d. day_at V i s d st \<and> day_begin d = int n \<and> day_end d = int (length text) \<and>
     n < length text \<and> take (length text) (day_buf d) = text \<and> tx (os (the_world st)) s = base @ take n text \<and>
     sock_view st s = Some (App_handler (Daytime_run i), ucast (writable poll_codes)))"

text \<open>What a call of \<open>run\<close> leaves behind, by what \<open>send_to\<close> answers.\<close>

definition day_outcome ::
  "'k kernel_view \<Rightarrow> ('k \<Rightarrow> int \<Rightarrow> u8 list) \<Rightarrow> nat \<Rightarrow> int \<Rightarrow> u8 list \<Rightarrow> u8 list \<Rightarrow> nat \<Rightarrow> int \<Rightarrow> fault + int option \<Rightarrow>
   (poll_demux, 'k) daytime_program \<Rightarrow> bool" where
  "day_outcome V tx i s base text n ts r st \<longleftrightarrow>
     (case r of
        Inr (Some p) \<Rightarrow> \<exists>m. p = int m \<and> n \<le> m \<and> m \<le> length text \<and>
          (if n < m \<and> m < length text then day_sending V tx i s base text m st \<and> day_timer i ts st
           else day_closed V i s st \<and> tx (os (the_world st)) s = base @ take m text)
      | _ \<Rightarrow> day_closed V i s st \<and> tx (os (the_world st)) s = base @ take n text)"

lemma day_at_step:
  assumes at: "day_at V i s d st" and same: "open_fds V (os w') = open_fds V (os (the_world st))"
    "day_sock d' = day_sock d" "day_timeout d' = day_timeout d"
  shows "day_at V i s d' ((with_world w' st)\<lparr>days := (days st)(i \<mapsto> d')\<rparr>)"
    and "sock_view ((with_world w' st)\<lparr>days := (days st)(i \<mapsto> d')\<rparr>) = sock_view st"
proof -
  obtain hs d0 w where disp: "core_dispatch st = (hs, d0, w)" by (cases "core_dispatch st")
  show "day_at V i s d' ((with_world w' st)\<lparr>days := (days st)(i \<mapsto> d')\<rparr>)"
    "sock_view ((with_world w' st)\<lparr>days := (days st)(i \<mapsto> d')\<rparr>) = sock_view st"
    using at same dp_world [of hs d0 w' w] by (auto simp: day_at_def disp)
qed

lemma load_text: "n < length text \<Longrightarrow> take (length text) buf = text \<Longrightarrow> load_bytes buf (int n) (int (length text)) = drop n text"
  by (simp add: load_bytes_def) (metis drop_take nat_diff_distrib' nat_int of_nat_0_le_iff)

lemma daytime_run_step:
  fixes st :: "(poll_demux, 'k) daytime_program"
  assumes law: "close_law V P" "send_law tx V P" and ok: "day_sending V tx i s base text n st"
    and range: "in_time_range (current_time_t (core_now st) + 10)"
  shows "\<exists>buf addr r w' st'. send_to P \<lparr>sock = s, close_flag = True\<rparr> buf (int n) (int (length text)) addr (the_world st) = (r, w') \<and>
    load_bytes buf (int n) (int (length text)) = drop n text \<and>
    daytime_run (poll_ops P hv spm sys) P i (writable poll_codes) st = (Inr (), st') \<and> core_now st' = core_now st \<and>
    day_outcome V tx i s base text n (current_time_t (core_now st) + 10) r st'"
proof -
  let ?M = "poll_ops P hv spm sys" and ?sk = "\<lparr>sock = s, close_flag = True\<rparr>" and ?e = "int (length text)"
  obtain d where d: "day_at V i s d st" "day_begin d = int n" "day_end d = ?e" "n < length text"
    "take (length text) (day_buf d) = text" "tx (os (the_world st)) s = base @ take n text"
    "sock_view st s = Some (App_handler (Daytime_run i), ucast (writable poll_codes))"
    using ok unfolding day_sending_def by blast
  obtain r w' where send: "send_to P ?sk (day_buf d) (int n) ?e (day_peer d) (the_world st) = (r, w')" by (metis surj_pair)
  have load: "load_bytes (day_buf d) (int n) ?e = drop n text" by (rule load_text [OF d(4,5)])
  have lt: "int n < ?e" using d(4) by simp
  note k = send_to_streams [OF law(2) lt send, unfolded load]
  let ?at = "\<lambda>d. (with_world w' st)\<lparr>days := (days st)(i \<mapsto> d)\<rparr>"
  have c: "days st i = Some d" "day_sock d = Some ?sk" using d(1) by (simp_all add: day_at_def)
  then have self: "?at d = with_world w' st" by (simp add: fun_upd_idem)
  have M: "dm_codes ?M = poll_codes" by (simp add: poll_ops_def)
  have run: "daytime_run ?M P i (writable poll_codes) st = catch_op (\<lambda>_. case r of
      Inl e \<Rightarrow> (Inl e, ?at d)
    | Inr p \<Rightarrow> if p = None \<or> p = Some (int n) then daytime_shutdown ?M i (?at d)
        else then_op (assert_op (the p \<le> ?e)) (if the p = ?e then daytime_shutdown ?M i else day_timeout_in i 10)
          (?at (d\<lparr>day_begin := the p\<rparr>))) (daytime_shutdown ?M i) st"
    using c d(2-4) send self
    by (cases r) (auto simp: daytime_run_def daytime_send_def with_day_def with_day_sock_def upd_day_def op_defs on_world_apply M
        catch_op_def)
  have here: "day_at V i s d' (?at d')" "sock_view (?at d') = sock_view st" if "day_sock d' = day_sock d" "day_timeout d' = day_timeout d" for d'
    using day_at_step [OF d(1) _ that] k by simp_all
  have down: "\<exists>st'. daytime_shutdown ?M i (?at d') = (Inr (), st') \<and> day_closed V i s st' \<and> tx (os (the_world st')) = tx (os w') \<and>
      core_now st' = core_now st" if "day_sock d' = day_sock d" "day_timeout d' = day_timeout d" for d'
    using day_shutdown [OF law here(1) [OF that], of hv spm sys] by simp
  have "\<exists>st'. daytime_run ?M P i (writable poll_codes) st = (Inr (), st') \<and> core_now st' = core_now st \<and>
      day_outcome V tx i s base text n (current_time_t (core_now st) + 10) r st'"
  proof -
    consider (thrown) e where "r = Inl e" "is_exception e" "tx (os w') = tx (os (the_world st))"
      | (reset) "r = Inr None" "tx (os w') = tx (os (the_world st))"
      | (sent) m where "r = Inr (Some (int n + int m))" "m \<le> length text - n"
          "tx (os w') = (tx (os (the_world st)))(s := tx (os (the_world st)) s @ take m (drop n text))"
      using k by fastforce
    then show ?thesis
    proof cases
      case thrown
      with run down [of d] d(6) show ?thesis by (auto simp: catch_op_def day_outcome_def)
    next
      case reset
      with run down [of d] d(6) show ?thesis by (auto simp: catch_op_def day_outcome_def)
    next
      case sent
      let ?m = "n + m"
      let ?d = "d\<lparr>day_begin := int ?m\<rparr>"
      have sofar: "tx (os w') s = base @ take ?m text" using sent(3) d(6) by (simp add: take_add)
      have le: "?m \<le> length text" using sent(2) d(4) by simp
      show ?thesis
      proof (cases "0 < m \<and> ?m < length text")
        case True
        let ?now = "current_time_t (core_now st) + 10"
        have at: "day_at V i s ?d (?at ?d)" by (rule here) simp_all
        let ?st = "\<lambda>tid sch. (?at ?d)\<lparr>core_schedule := sch, days := (days (?at ?d))(i \<mapsto> ?d\<lparr>day_timeout := tid\<rparr>)\<rparr>"
        obtain tid sch where arm: "day_timeout_in i 10 (?at ?d) = (Inr (), ?st tid sch)"
          and new: "day_at V i s (?d\<lparr>day_timeout := tid\<rparr>) (?st tid sch)" "day_timer i ?now (?st tid sch)"
          by (rule day_rearm [OF at, of 10]) (use range in auto)
        have "day_sending V tx i s base text ?m (?st tid sch)"
          unfolding day_sending_def using new(1) d(3,5,7) True sofar here(2) [of ?d]
          by (intro exI [of _ "?d\<lparr>day_timeout := tid\<rparr>"]) simp
        with new(2) True le have "day_outcome V tx i s base text n ?now (Inr (Some (int ?m))) (?st tid sch)"
          by (auto simp: day_outcome_def simp del: of_nat_add intro!: exI [of _ ?m])
        moreover have p: "r = Inr (Some (int ?m))" "int ?m \<noteq> int n" "int ?m \<le> ?e" "int ?m \<noteq> ?e" using sent(1) True by simp_all
        have "daytime_run ?M P i (writable poll_codes) st = (Inr (), ?st tid sch)"
          unfolding run p(1)
          by (simp add: catch_op_def op_defs p(2-4) arm del: of_nat_add of_nat_eq_iff of_nat_le_iff)
        ultimately show ?thesis unfolding p(1) by (intro exI [of _ "?st tid sch"]) simp
      next
        case False
        with le consider (blocked) "m = 0" | (all) "0 < m" "?m = length text" by linarith
        then show ?thesis
        proof cases
          case blocked
          with sent(1) have p: "r = Inr (Some (int n))" by simp
          with run down [of d] obtain st' where "daytime_run ?M P i (writable poll_codes) st = (Inr (), st')" "day_closed V i s st'"
            "tx (os (the_world st')) = tx (os w')" "core_now st' = core_now st" by (auto simp: catch_op_def)
          with p blocked sofar d(4) show ?thesis by (intro exI [of _ st']) (simp add: day_outcome_def)
        next
          case all
          with sent(1) have p: "r = Inr (Some ?e)" "?e \<noteq> int n" by auto
          from all have "?d = d\<lparr>day_begin := ?e\<rparr>" by simp
          with run p down [of ?d] obtain st' where "daytime_run ?M P i (writable poll_codes) st = (Inr (), st')" "day_closed V i s st'"
            "tx (os (the_world st')) = tx (os w')" "core_now st' = core_now st" by (auto simp: catch_op_def op_defs)
          with p all sofar d(4) show ?thesis by (intro exI [of _ st']) (simp add: day_outcome_def)
        qed
      qed
    qed
  qed
  with send load show ?thesis by blast
qed

section \<open>A new connection\<close>

text \<open>The conversion writes to no socket and opens and closes none.\<close>

definition localtime_law :: "('k \<Rightarrow> int \<Rightarrow> u8 list) \<Rightarrow> 'k kernel_view \<Rightarrow> 'k sys_localtime \<Rightarrow> bool" where
  "localtime_law tx V localtime \<longleftrightarrow> (\<forall>t w tm w'. localtime t w = (tm, w') \<longrightarrow>
     tx (os w') = tx (os w) \<and> open_fds V (os w') = open_fds V (os w))"

text \<open>A date of the years 0 to 9999, with a name of the time zone of ordinary length.\<close>

definition date_ordinary :: "tm \<Rightarrow> bool" where
  "date_ordinary t \<longleftrightarrow> -1900 \<le> tm_year t \<and> tm_year t \<le> 8099 \<and> length (tm_zone t) \<le> 40"

lemma show_nat_length: "n < 10 ^ k \<Longrightarrow> 0 < k \<Longrightarrow> length (show_nat n) \<le> k"
proof (induction k arbitrary: n)
  case (Suc k)
  show ?case
  proof (cases "n < 10")
    case True
    then show ?thesis by (subst show_nat.simps) simp
  next
    case False
    with Suc.prems have "0 < k" "n div 10 < 10 ^ k" by (auto simp: less_mult_imp_div_less intro: gr0I)
    with Suc.IH False show ?thesis by (subst show_nat.simps) fastforce
  qed
qed simp

lemma month_name_length: "length (month_name m) \<le> 3"
proof (cases "0 \<le> m \<and> m < 12")
  case True
  then have "m = 0 \<or> m = 1 \<or> m = 2 \<or> m = 3 \<or> m = 4 \<or> m = 5 \<or> m = 6 \<or> m = 7 \<or> m = 8 \<or> m = 9 \<or> m = 10 \<or> m = 11"
    by presburger
  then show ?thesis unfolding month_name_def by (elim disjE) simp_all
qed (auto simp: month_name_def)

lemma date_fits:
  assumes "date_ordinary t"
  shows "0 < length (date_bytes t) \<and> length (date_bytes t) < DAYTIME_BUF_SIZE"
proof -
  have y: "-1900 \<le> tm_year t" "tm_year t \<le> 8099" "length (tm_zone t) \<le> 40"
    using assms by (simp_all add: date_ordinary_def)
  have "nat \<bar>tm_year t + 1900\<bar> < 10 ^ 4" using y by simp
  then have "length (out_int '''' (tm_year t + 1900)) \<le> 4"
    using y show_nat_length [of "nat \<bar>tm_year t + 1900\<bar>" 4] by (simp add: out_int_def)
  with y(3) month_name_length [of "tm_mon t"] show ?thesis
    by (simp add: date_bytes_def date_text_def two_digits_def DAYTIME_BUF_SIZE_def)
qed

lemma daytime_construct_ok:
  fixes st :: "(poll_demux, 'k) daytime_program"
  assumes law: "localtime_law tx V localtime"
    and at: "dp_ok (core_dispatch st)" "schedule_wf (core_schedule st)" "0 \<le> s" "sock_view st s = None" "s \<in> open_fds V (os (the_world st))"
    and date: "tm = fst (localtime (current_time_t (core_now st)) (the_world st))" "date_ordinary tm"
  shows "\<exists>st' d. daytime_construct (poll_ops P hv spm sys) localtime s peer st = (Inr (next_day st), st') \<and>
    day_at V (next_day st) s d st' \<and> day_begin d = 0 \<and> day_end d = int (length (date_bytes tm)) \<and>
    take (length (date_bytes tm)) (day_buf d) = date_bytes tm \<and> 0 < length (date_bytes tm) \<and> length (date_bytes tm) < DAYTIME_BUF_SIZE \<and>
    tx (os (the_world st')) = tx (os (the_world st)) \<and> core_now st' = core_now st"
proof -
  let ?M = "poll_ops P hv spm sys" and ?sk = "\<lparr>sock = s, close_flag = True\<rparr>"
  obtain hs d where new: "core_socket_construct ?M s (App_handler Daytime_empty) no_events st
      = (Inr ?sk, st\<lparr>core_dispatch := (hs, d, the_world st)\<rparr>)"
    "dp_ok (hs, d, the_world st)" "dp_interest (hs, d, the_world st) = (sock_view st)(s \<mapsto> (App_handler Daytime_empty, ucast no_events))"
    by (rule socket_registered [OF at(1,3,4)])
  obtain w' where now: "localtime (current_time_t (core_now st)) (the_world st) = (tm, w')" using date(1) by (metis prod.collapse)
  from law now have w': "tx (os w') = tx (os (the_world st))" "open_fds V (os w') = open_fds V (os (the_world st))"
    unfolding localtime_law_def by blast+
  have fits: "0 < length (date_bytes tm)" "length (date_bytes tm) < DAYTIME_BUF_SIZE" using date_fits [OF date(2)] by blast+
  let ?c = "\<lparr>day_sock = Some ?sk, day_timeout = core_timeout_new, day_peer = peer,
      day_buf = store_bytes (replicate DAYTIME_BUF_SIZE 0) 0 (date_bytes tm @ [0]), day_begin = 0, day_end = int (length (date_bytes tm))\<rparr>"
  let ?st = "st\<lparr>core_dispatch := (hs, d, w'), next_day := next_day st + 1, days := (days st)(next_day st \<mapsto> ?c)\<rparr>"
  have "daytime_construct ?M localtime s peer st = (Inr (next_day st), ?st)"
    using new(1) now fits
    by (simp add: daytime_construct_def op_defs on_world_apply lib_call_def strftime_date_def Let_def)
  moreover have "day_at V (next_day st) s ?c ?st"
    using new(2,3) at w' dp_world [of hs d w' "the_world st"]
    by (simp add: day_at_def owns_timer_def core_timeout_new_def timeout_new_def)
  ultimately show ?thesis
    using fits w' by (intro exI [of _ ?st] exI [of _ ?c]) (simp add: store_bytes_def)
qed

lemma daytime_start_ok:
  fixes st :: "(poll_demux, 'k) daytime_program"
  assumes at: "day_at V i s d st" and buf: "day_begin d = 0" "day_end d = int (length text)" "0 < length text"
    "take (length text) (day_buf d) = text"
    and range: "in_time_range (current_time_t (core_now st) + 10)"
  shows "\<exists>st'. daytime_start (poll_ops P hv spm sys) i st = (Inr (), st') \<and>
    day_sending V tx i s (tx (os (the_world st)) s) text 0 st' \<and> day_timer i (current_time_t (core_now st) + 10) st' \<and>
    core_now st' = core_now st"
proof -
  let ?M = "poll_ops P hv spm sys"
  note at' = at [unfolded day_at_def]
  obtain hs dx where
    q: "on_dispatch (dispatch_modify ?M s (App_handler (Daytime_run i)) (writable poll_codes)) st
      = (Inr (), st\<lparr>core_dispatch := (hs, dx, the_world st)\<rparr>)"
    "dp_ok (hs, dx, the_world st)"
    "dp_interest (hs, dx, the_world st) = (sock_view st)(s \<mapsto> (App_handler (Daytime_run i), ucast (writable poll_codes)))"
    by (rule socket_modified [of st s]) (use at' in auto)
  let ?st = "st\<lparr>core_dispatch := (hs, dx, the_world st)\<rparr>"
  let ?fin = "\<lambda>tid sch. ?st\<lparr>core_schedule := sch, days := (days ?st)(i \<mapsto> d\<lparr>day_timeout := tid\<rparr>)\<rparr>"
  have here: "day_at V i s d ?st" using at' q(2,3) by (simp add: day_at_def)
  obtain tid sch where st': "day_timeout_in i 10 ?st = (Inr (), ?fin tid sch)"
    "day_at V i s (d\<lparr>day_timeout := tid\<rparr>) (?fin tid sch)"
    "day_timer i (current_time_t (core_now ?st) + uint (10 :: u32)) (?fin tid sch)"
    by (rule day_rearm [OF here, of 10]) (use range in auto)
  have "dm_codes ?M = poll_codes" by (simp add: poll_ops_def)
  then have "daytime_start ?M i st = (Inr (), ?fin tid sch)"
    using at' q(1) st'(1) by (simp add: daytime_start_def with_day_sock_def with_day_def op_defs)
  moreover have "day_sending V tx i s (tx (os (the_world st)) s) text 0 (?fin tid sch)"
    unfolding day_sending_def using st'(2) q(3) buf by (intro exI [of _ "d\<lparr>day_timeout := tid\<rparr>"]) simp
  ultimately show ?thesis using st'(3) by (intro exI [of _ "?fin tid sch"]) simp
qed

text \<open>\<open>k\<close> calls of \<open>run\<close>, each when there is room.\<close>

primrec daytime_runs :: "('d \<times> 'k world) demux_ops \<Rightarrow> 'k sock_os \<Rightarrow> nat \<Rightarrow> nat \<Rightarrow> (('d, 'k) daytime_program, unit) op" where
  "daytime_runs M P i 0 = ret ()"
| "daytime_runs M P i (Suc k) = then_op (daytime_run M P i (writable (dm_codes M))) (daytime_runs M P i k)"

text \<open>They end with a connection that is closed: it has sent everything, or it is the one at whose
  last call the kernel took no byte of the rest.\<close>

lemma daytime_runs_end:
  fixes st :: "(poll_demux, 'k) daytime_program"
  assumes law: "close_law V P" "send_law tx V P"
    and range: "in_time_range (current_time_t now + 10)"
  shows "day_sending V tx i s base text n st \<Longrightarrow> core_now st = now \<Longrightarrow>
    \<exists>j m st1 st'. n + j \<le> m \<and> m < length text \<and> daytime_runs (poll_ops P hv spm sys) P i j st = (Inr (), st1) \<and>
      day_sending V tx i s base text m st1 \<and>
      daytime_run (poll_ops P hv spm sys) P i (writable poll_codes) st1 = (Inr (), st') \<and> day_closed V i s st' \<and>
      (tx (os (the_world st')) s = base @ text \<or>
       tx (os (the_world st')) s = base @ take m text \<and> (\<exists>addr. takes_no_byte P s (drop m text) addr (the_world st1)))"
proof (induction "length text - n" arbitrary: n st rule: less_induct)
  case less
  let ?M = "poll_ops P hv spm sys"
  have M: "dm_codes ?M = poll_codes" by (simp add: poll_ops_def)
  have lt: "n < length text" using less.prems(1) by (auto simp: day_sending_def)
  from daytime_run_step [OF law less.prems(1), of hv spm sys] range less.prems(2) obtain buf addr r w' st1 where
    send: "send_to P \<lparr>sock = s, close_flag = True\<rparr> buf (int n) (int (length text)) addr (the_world st) = (r, w')"
      "load_bytes buf (int n) (int (length text)) = drop n text"
    and run: "daytime_run ?M P i (writable poll_codes) st = (Inr (), st1)" "core_now st1 = now"
      "day_outcome V tx i s base text n (current_time_t now + 10) r st1" by auto
  have here: ?case
    if "day_closed V i s st1" "tx (os (the_world st1)) s = base @ text \<or>
       tx (os (the_world st1)) s = base @ take n text \<and> (\<exists>addr. takes_no_byte P s (drop n text) addr (the_world st))"
    using that run(1) lt less.prems(1)
    by (intro exI [of _ 0] exI [of _ n] exI [of _ st] exI [of _ st1]) (simp add: ret_def)
  show ?case
  proof (cases "\<exists>p. int n < p \<and> r = Inr (Some p)")
    case False
    have "day_closed V i s st1 \<and> tx (os (the_world st1)) s = base @ take n text"
    proof (cases "\<exists>p. r = Inr (Some p)")
      case True
      with run(3) obtain m where m: "r = Inr (Some (int m))" "n \<le> m" and
        out: "if n < m \<and> m < length text then day_sending V tx i s base text m st1 \<and> day_timer i (current_time_t now + 10) st1
           else day_closed V i s st1 \<and> tx (os (the_world st1)) s = base @ take m text"
        unfolding day_outcome_def by auto
      with False have "m = n" by (metis le_neq_implies_less of_nat_less_iff)
      with out show ?thesis by simp
    qed (use run(3) in \<open>auto simp: day_outcome_def split: sum.splits option.splits\<close>)
    moreover have "takes_no_byte P s (drop n text) addr (the_world st)"
      using send_to_stuck [OF _ send(1)] lt False by (auto simp: send(2))
    ultimately show ?thesis using here by blast
  next
    case True
    with run(3) obtain m where m: "n < m" "m \<le> length text" and out:
      "if m < length text then day_sending V tx i s base text m st1 else day_closed V i s st1 \<and> tx (os (the_world st1)) s = base @ take m text"
      unfolding day_outcome_def by (auto split: if_splits)
    show ?thesis
    proof (cases "m < length text")
      case False
      with out here show ?thesis by simp
    next
      case True
      with out m have "day_sending V tx i s base text m st1" "length text - m < length text - n" by simp_all
      from less.hyps [OF this(2,1) run(2)] obtain j k st2 st' where
        rest: "m + j \<le> k" "k < length text" "daytime_runs ?M P i j st1 = (Inr (), st2)" "day_sending V tx i s base text k st2"
          "daytime_run ?M P i (writable poll_codes) st2 = (Inr (), st')" "day_closed V i s st'"
          "tx (os (the_world st')) s = base @ text \<or>
           tx (os (the_world st')) s = base @ take k text \<and> (\<exists>addr. takes_no_byte P s (drop k text) addr (the_world st2))" by blast
      then have "daytime_runs ?M P i (Suc j) st = (Inr (), st2)" using run(1) M by (simp add: op_simps)
      with rest m show ?thesis
        by (intro exI [of _ "Suc j"] exI [of _ k] exI [of _ st2] exI [of _ st']) simp
    qed
  qed
qed

section \<open>Properties\<close>

text \<open>
  C18.  The daytime server sends the date piece by piece.  A call of \<open>daytime::run\<close> for a connection that
  has sent a part of the date and waits for room fails no assertion and lets no exception escape.
  Afterwards the connection has sent more of the date and waits for room again, with a timer that will
  close it after ten idle seconds; or it has been shut down, its descriptor is closed, its handler is
  gone and its timer is cancelled, and it has sent all of the date, or nothing more than before.
\<close>

theorem daytime_run_sends:
  fixes st :: "(poll_demux, 'k) daytime_program"
  assumes law: "close_law V P" "send_law tx V P" and ok: "day_sending V tx i s base text n st"
    and range: "in_time_range (current_time_t (core_now st) + 10)"
  shows "\<exists>st'. daytime_run (poll_ops P hv spm sys) P i (writable poll_codes) st = (Inr (), st') \<and>
    ((\<exists>m. n < m \<and> day_sending V tx i s base text m st' \<and> day_timer i (current_time_t (core_now st) + 10) st') \<or>
     day_closed V i s st' \<and> tx (os (the_world st')) s \<in> {base @ text, base @ take n text})"
proof -
  from daytime_run_step [OF assms, of hv spm sys] obtain r st' where
    run: "daytime_run (poll_ops P hv spm sys) P i (writable poll_codes) st = (Inr (), st')"
    and out: "day_outcome V tx i s base text n (current_time_t (core_now st) + 10) r st'" by blast
  have "(\<exists>m. n < m \<and> day_sending V tx i s base text m st' \<and> day_timer i (current_time_t (core_now st) + 10) st') \<or>
     day_closed V i s st' \<and> tx (os (the_world st')) s \<in> {base @ text, base @ take n text}"
  proof (cases "\<exists>p. r = Inr (Some p)")
    case True
    with out obtain m where m: "n \<le> m" "m \<le> length text" "if n < m \<and> m < length text
        then day_sending V tx i s base text m st' \<and> day_timer i (current_time_t (core_now st) + 10) st'
        else day_closed V i s st' \<and> tx (os (the_world st')) s = base @ take m text" by (auto simp: day_outcome_def)
    then consider "n < m \<and> m < length text" | "m = n" | "m = length text" by linarith
    then show ?thesis using m(3) by cases (auto split: if_splits)
  next
    case False
    with out show ?thesis by (auto simp: day_outcome_def split: sum.splits option.splits)
  qed
  with run show ?thesis by blast
qed

text \<open>A program that has not accepted its connection on descriptor 5 yet, and a date.\<close>

definition no_days :: "(poll_demux, streams) daytime_program" where
  "no_days = \<lparr>core_now = \<lparr>tv_sec = 40, tv_usec = 0\<rparr>, core_schedule = schedule_init,
     core_dispatch = ([], (poll_construct, \<lparr>errno = 0, os = ({5}, \<lambda>_. [], \<lambda>_. [])\<rparr>)),
     core_dns = \<lparr>adns_timeout = timeout_new, queries = [], registered_sockets = [], pfds = []\<rparr>,
     days = Map.empty, next_day = 0\<rparr>"

definition utc_date :: tm where
  "utc_date = \<lparr>tm_sec = 7, tm_min = 30, tm_hour = 12, tm_mday = 24, tm_mon = 1, tm_year = 110, tm_zone = ''UTC''\<rparr>"

definition utc_time :: "'k sys_localtime" where
  "utc_time t w = (utc_date, w)"

lemma utc_date_text: "date_text utc_date = ''24 Feb 2010 12:30:07 UTC'' @ [char_of (13 :: nat), char_of (10 :: nat)]"
  by code_simp

lemma utc_time_law: "localtime_law tx V utc_time"
  by (simp add: localtime_law_def utc_time_def)

lemma no_days_ok: "dp_ok (core_dispatch no_days)" "schedule_wf (core_schedule no_days)" "sock_view no_days 5 = None"
    "5 \<in> open_fds streams_view (os (the_world no_days))"
  by (simp_all add: no_days_def schedule_wf_init dp_ok_def dp_interest_def poll_interest_def poll_construct_def poll_ok_def streams_view_def)

text \<open>
  C9.  The daytime server serves the date.  Let a connection be accepted on an open descriptor without
  a handler, at a time whose local date is of the years 0 to 9999 with a name of the time zone of at
  most 40 characters.  Then the construction of its object, \<open>start\<close> and at most 63 calls of \<open>run\<close> fail
  no assertion and throw no exception, and after the last of them the descriptor is closed, its
  handler is gone and its timer cancelled.  The peer has been sent exactly the date of the moment of
  construction, unless the kernel took no byte of what remained when \<open>sendmsg(2)\<close> was called last
  (it failed, blocked or answered 0), and then a proper part of the date from its start.
\<close>

theorem daytime_serves_date:
  fixes st :: "(poll_demux, 'k) daytime_program"
  assumes law: "close_law V P" "send_law tx V P" "localtime_law tx V localtime"
    and at: "dp_ok (core_dispatch st)" "schedule_wf (core_schedule st)"
    and s: "0 \<le> s" "sock_view st s = None" "s \<in> open_fds V (os (the_world st))"
    and range: "in_time_range (current_time_t (core_now st) + 10)"
    and date: "date_ordinary (fst (localtime (current_time_t (core_now st)) (the_world st)))"
  defines "text \<equiv> date_bytes (fst (localtime (current_time_t (core_now st)) (the_world st)))"
  shows "\<exists>j m st1 st'. j < 63 \<and> bind_op (daytime_construct (poll_ops P hv spm sys) localtime s peer)
      (\<lambda>i. then_op (daytime_start (poll_ops P hv spm sys) i) (daytime_runs (poll_ops P hv spm sys) P i j)) st = (Inr (), st1) \<and>
    daytime_run (poll_ops P hv spm sys) P (next_day st) (writable poll_codes) st1 = (Inr (), st') \<and>
    day_closed V (next_day st) s st' \<and>
    (tx (os (the_world st')) s = tx (os (the_world st)) s @ text \<or>
     tx (os (the_world st')) s = tx (os (the_world st)) s @ take m text \<and> m < length text \<and>
       (\<exists>addr. takes_no_byte P s (drop m text) addr (the_world st1)))"
proof -
  let ?M = "poll_ops P hv spm sys" and ?i = "next_day st" and ?base = "tx (os (the_world st)) s"
  from daytime_construct_ok [OF law(3) at s refl date, of P hv spm sys peer] obtain st1 d where
    new: "daytime_construct ?M localtime s peer st = (Inr ?i, st1)" "day_at V ?i s d st1" "day_begin d = 0" "day_end d = int (length text)"
      "take (length text) (day_buf d) = text" "0 < length text" "length text < DAYTIME_BUF_SIZE"
      "tx (os (the_world st1)) = tx (os (the_world st))" "core_now st1 = core_now st"
    unfolding text_def by blast
  have range1: "in_time_range (current_time_t (core_now st1) + 10)" using range new(9) by simp
  from daytime_start_ok [OF new(2,3,4,6,5) range1, where tx = tx and P = P and hv = hv and spm = spm and sys = sys] new(8) obtain st2 where
    go: "daytime_start ?M ?i st1 = (Inr (), st2)" "day_sending V tx ?i s ?base text 0 st2" "core_now st2 = core_now st1" by auto
  from daytime_runs_end [OF law(1,2) range1 go(2,3), of hv spm sys] obtain j m st3 st' where
    runs: "j \<le> m" "m < length text" "daytime_runs ?M P ?i j st2 = (Inr (), st3)"
      "daytime_run ?M P ?i (writable poll_codes) st3 = (Inr (), st')" "day_closed V ?i s st'"
      "tx (os (the_world st')) s = ?base @ text \<or>
       tx (os (the_world st')) s = ?base @ take m text \<and> (\<exists>addr. takes_no_byte P s (drop m text) addr (the_world st3))"
    unfolding add_0 by blast
  have "j < 63" using runs(1,2) new(7) by (simp add: DAYTIME_BUF_SIZE_def)
  moreover have "bind_op (daytime_construct ?M localtime s peer) (\<lambda>i. then_op (daytime_start ?M i) (daytime_runs ?M P i j)) st = (Inr (), st3)"
    using new(1) go(1) runs(3) by (simp add: op_simps)
  ultimately show ?thesis
    using runs(2,4-6) by (intro exI [of _ j] exI [of _ m] exI [of _ st3] exI [of _ st']) blast
qed

text \<open>The kernel of the examples takes some bytes whenever there are any.\<close>

lemma streams_take: "\<not> takes_no_byte streams_sock s (b # bs) addr w"
  by (simp add: takes_no_byte_def streams_sock_def nth_result_def)

theorem daytime_serves_date_witness:
  "\<exists>j st1 st'. j < 63 \<and> bind_op (daytime_construct (poll_ops streams_sock True (\<lambda>_ w. ((0, {}), w)) (\<lambda>ps to m w. ((0, []), w)))
        utc_time 5 address_default)
      (\<lambda>i. then_op (daytime_start (poll_ops streams_sock True (\<lambda>_ w. ((0, {}), w)) (\<lambda>ps to m w. ((0, []), w))) i)
         (daytime_runs (poll_ops streams_sock True (\<lambda>_ w. ((0, {}), w)) (\<lambda>ps to m w. ((0, []), w))) streams_sock i j)) no_days
      = (Inr (), st1) \<and>
    daytime_run (poll_ops streams_sock True (\<lambda>_ w. ((0, {}), w)) (\<lambda>ps to m w. ((0, []), w))) streams_sock 0 (writable poll_codes) st1
      = (Inr (), st') \<and>
    day_closed streams_view 0 5 st' \<and> snd (snd (os (the_world st'))) 5 = date_bytes utc_date"
proof -
  have range: "in_time_range (current_time_t (core_now no_days) + 10)" by (simp add: no_days_def current_time_t_def in_time_range_def)
  have date: "fst (utc_time (current_time_t (core_now no_days)) (the_world no_days)) = utc_date" by (simp add: utc_time_def)
  have ord: "date_ordinary (fst (utc_time (current_time_t (core_now no_days)) (the_world no_days)))"
    unfolding date by (simp add: date_ordinary_def utc_date_def)
  have 0: "next_day no_days = 0" "(snd \<circ> snd) (os (the_world no_days)) 5 = []" by (simp_all add: no_days_def)
  have more: "\<not> takes_no_byte streams_sock 5 (drop m (date_bytes utc_date)) addr w" if "m < length (date_bytes utc_date)" for m addr w
    using streams_take that by (cases "drop m (date_bytes utc_date)") auto
  from daytime_serves_date [OF streams_laws(1,4) utc_time_law no_days_ok(1,2) _ no_days_ok(3,4) range ord,
      where hv = True and spm = "\<lambda>_ w. ((0, {}), w)" and sys = "\<lambda>ps to m w. ((0, []), w)" and peer = address_default, unfolded date 0]
    more show ?thesis by (auto simp del: split_paired_Ex simp: comp_def)
qed

text \<open>The connection after its construction and \<open>start\<close>.\<close>

definition one_day :: "(poll_demux, streams) daytime_program" where
  "one_day = snd (then_op (daytime_construct (poll_ops streams_sock True (\<lambda>_ w. ((0, {}), w)) (\<lambda>ps to m w. ((0, []), w)))
     utc_time 5 address_default) (daytime_start (poll_ops streams_sock True (\<lambda>_ w. ((0, {}), w)) (\<lambda>ps to m w. ((0, []), w))) 0) no_days)"

lemma one_day_ok:
  "day_sending streams_view (snd \<circ> snd) 0 5 [] (date_bytes utc_date) 0 one_day \<and> core_now one_day = \<lparr>tv_sec = 40, tv_usec = 0\<rparr>"
proof -
  let ?M = "poll_ops streams_sock True (\<lambda>_ w. ((0, {}), w)) (\<lambda>ps to m w. ((0, []), w))"
  have 0: "next_day no_days = 0" "core_now no_days = \<lparr>tv_sec = 40, tv_usec = 0\<rparr>" "(snd \<circ> snd) (os (the_world no_days)) = (\<lambda>_. [])"
    by (simp_all add: no_days_def)
  have date: "utc_date = fst (utc_time (current_time_t (core_now no_days)) (the_world no_days))" by (simp add: utc_time_def)
  have ord: "date_ordinary utc_date" by (simp add: date_ordinary_def utc_date_def)
  from daytime_construct_ok [OF utc_time_law no_days_ok(1,2) _ no_days_ok(3,4) date ord,
      where P = streams_sock and hv = True and spm = "\<lambda>_ w. ((0, {}), w)" and sys = "\<lambda>ps to m w. ((0, []), w)" and tx = "snd \<circ> snd"
        and peer = address_default] 0 obtain st1 d where
    new: "daytime_construct ?M utc_time 5 address_default no_days = (Inr 0, st1)" "day_at streams_view 0 5 d st1" "day_begin d = 0"
      "day_end d = int (length (date_bytes utc_date))" "take (length (date_bytes utc_date)) (day_buf d) = date_bytes utc_date"
      "0 < length (date_bytes utc_date)" "(snd \<circ> snd) (os (the_world st1)) = (\<lambda>_. [])" "core_now st1 = \<lparr>tv_sec = 40, tv_usec = 0\<rparr>"
    by auto
  have "in_time_range (current_time_t (core_now st1) + 10)" by (simp add: new(8) current_time_t_def in_time_range_def)
  from daytime_start_ok [OF new(2,3,4,6,5) this, where tx = "snd \<circ> snd" and P = streams_sock and hv = True and spm = "\<lambda>_ w. ((0, {}), w)"
      and sys = "\<lambda>ps to m w. ((0, []), w)"] new(7,8) obtain st2 where
    "daytime_start ?M 0 st1 = (Inr (), st2)" "day_sending streams_view (snd \<circ> snd) 0 5 [] (date_bytes utc_date) 0 st2"
    "core_now st2 = \<lparr>tv_sec = 40, tv_usec = 0\<rparr>" by auto
  with new(1) show ?thesis by (simp add: one_day_def op_simps)
qed

theorem daytime_run_sends_witness:
  "\<exists>st'. daytime_run (poll_ops streams_sock True (\<lambda>_ w. ((0, {}), w)) (\<lambda>ps to m w. ((0, []), w))) streams_sock 0 (writable poll_codes) one_day
      = (Inr (), st') \<and>
    ((\<exists>m. 0 < m \<and> day_sending streams_view (snd \<circ> snd) 0 5 [] (date_bytes utc_date) m st' \<and>
        day_timer 0 (current_time_t (core_now one_day) + 10) st') \<or>
     day_closed streams_view 0 5 st' \<and>
       (snd \<circ> snd) (os (the_world st')) 5 \<in> {[] @ date_bytes utc_date, [] @ take 0 (date_bytes utc_date)})"
  by (rule daytime_run_sends [OF streams_laws(1,4) conjunct1 [OF one_day_ok]])
    (simp add: conjunct2 [OF one_day_ok] current_time_t_def in_time_range_def)

text \<open>
  A full socket ends a connection.  \<open>send_to\<close> answers the start of its range when the kernel has no room
  for a byte, which \<open>run\<close> takes for a connection that the peer has reset: it closes the descriptor, and
  the peer gets a part of the date only.
\<close>

theorem daytime_blocked_closes:
  fixes st :: "(poll_demux, 'k) daytime_program"
  assumes law: "close_law V P" "send_law tx V P" and ok: "day_sending V tx i s base text n st"
    and full: "\<And>chunks addr w. \<exists>w'. sys_sendmsg P s chunks addr MSG_DONTWAIT w = (-1, w') \<and> errno w' = EAGAIN"
    and range: "in_time_range (current_time_t (core_now st) + 10)"
  shows "\<exists>st'. daytime_run (poll_ops P hv spm sys) P i (writable poll_codes) st = (Inr (), st') \<and> day_closed V i s st' \<and>
    tx (os (the_world st')) s = base @ take n text \<and> n < length text"
proof -
  from daytime_run_step [OF law ok range, of hv spm sys] obtain buf addr r w' st' where
    send: "send_to P \<lparr>sock = s, close_flag = True\<rparr> buf (int n) (int (length text)) addr (the_world st) = (r, w')"
    and run: "daytime_run (poll_ops P hv spm sys) P i (writable poll_codes) st = (Inr (), st')"
      "day_outcome V tx i s base text n (current_time_t (core_now st) + 10) r st'" by blast
  have lt: "n < length text" using ok by (auto simp: day_sending_def)
  obtain w1 where "sys_sendmsg P s [load_bytes buf (int n) (int (length text))] addr MSG_DONTWAIT (the_world st) = (-1, w1)" "errno w1 = EAGAIN"
    using full by blast
  then have "send_to P \<lparr>sock = s, close_flag = True\<rparr> buf (int n) (int (length text)) addr (the_world st) = (Inr (Some (int n)), w1)"
    using lt by (simp add: send_to_def send_to_iov_def nonblocking_call_def throw_errno_if_loop throw_errno_loop.simps not_ewould_block_def op_defs)
  with send run lt show ?thesis by (auto simp: day_outcome_def)
qed

end
