(* ===== verification/Ioxx_Daytime_Program.thy ===== *)
theory Ioxx_Daytime_Program
  imports Ioxx_Daytime Ioxx_Client_Returns
begin

text \<open>
  The daytime server of \<open>test/daytime.hpp\<close> as a program on \<open>core\<close>: its acceptor and its callbacks keep the
  bounds under which \<open>run\<close> gives control back.
\<close>

section \<open>The steps of the callbacks add no work\<close>

lemma within_day [completes_intros]:
  "reflp R \<Longrightarrow> (\<And>d. within R (f d)) \<Longrightarrow> within R (with_day i f)"
  "reflp R \<Longrightarrow> (\<And>sk. within R (g sk)) \<Longrightarrow> within R (with_day_sock i g)"
  by (auto simp: within_def with_day_sock_def with_day_def raise_op_def dest: reflpD split: option.split)

lemma within_upd_day [completes_intros]: "within (no_more_work pending D) (upd_day i g)"
  by (simp add: within_def upd_day_def no_more_work_def due_def due_count_def)

lemma within_day_timeout_in:
  assumes "0 < uint to"
  shows "within (no_more_work pending D) (day_timeout_in i to :: (('d, 'k) daytime_program, unit) op)"
proof -
  have "within (no_more_work pending D) (\<lambda>st. bind_op (on_schedule (timeout_in (current_time_t (core_now st)) to (App_task (Daytime_shutdown i)) tid))
      (\<lambda>(_, tid). upd_day i (g tid)) st)" for tid g
    unfolding within_def
  proof
    fix st :: "('d, 'k) daytime_program"
    have "no_more_work pending D st (snd (on_schedule (timeout_in (current_time_t (core_now st)) to (App_task (Daytime_shutdown i)) tid) st))"
      by (rule within_timeout [OF assms])
    then show "no_more_work pending D st (snd (bind_op (on_schedule (timeout_in (current_time_t (core_now st)) to (App_task (Daytime_shutdown i)) tid))
      (\<lambda>(_, tid). upd_day i (g tid)) st))"
      by (auto simp: bind_op_def upd_day_def no_more_work_def due_def due_count_def split: prod.split sum.split)
  qed
  then show ?thesis unfolding day_timeout_in_def by (intro completes_intros)
qed

lemma within_day_timeout_cancel [completes_intros]:
  "within (no_more_work pending D) (day_timeout_cancel i :: (('d, 'k) daytime_program, unit) op)"
proof -
  have "within (no_more_work pending D) (case x of (_, tid) \<Rightarrow> upd_day i (\<lambda>d. d\<lparr>day_timeout := tid\<rparr>))" for x :: "bool \<times> task_id"
    by (cases x) (simp add: completes_intros)
  then show ?thesis unfolding day_timeout_cancel_def by (intro completes_intros)
qed

lemma daytime_callbacks_within:
  fixes D :: "'k \<Rightarrow> timeval \<Rightarrow> nat"
  assumes close: "\<And>s. quiet_call D (sys_close P s)" and spm: "\<And>m. quiet_call D (spm m)" and sys: "\<And>ps to m. quiet_call D (sys ps to m)"
    and send: "\<And>s chunks addr fl. quiet_call D (sys_sendmsg P s chunks addr fl)"
  shows "within (no_more_work poll_n_events D) (daytime_shutdown (poll_ops P hv spm sys) i)"
    and "within (no_more_work poll_n_events D) (daytime_start (poll_ops P hv spm sys) i)"
    and "within (no_more_work poll_n_events D) (daytime_run (poll_ops P hv spm sys) P i ev)"
proof -
  let ?M = "poll_ops P hv spm sys" and ?R = "no_more_work poll_n_events D :: (poll_demux, 'k) daytime_program \<Rightarrow> _ \<Rightarrow> _"
  have gone: "within ?R (on_dispatch (dispatch_socket_destruct ?M sk))" for sk
    by (rule poll_pending.destruct_within [OF demux_keeps_poll [OF close spm sys]])
  have modify: "within ?R (on_dispatch (dispatch_modify ?M s h ev))" for s h ev
    by (rule within_request [where P = P and hv = hv and spm = spm and sys = sys and s = s and h = h and ev = ev]) simp
  show down: "within ?R (daytime_shutdown ?M i)"
    unfolding daytime_shutdown_def day_sock_reset_def
    by (intro completes_intros) (auto intro!: completes_intros gone split: option.split)
  show "within ?R (daytime_start ?M i)"
    unfolding daytime_start_def by (intro completes_intros within_day_timeout_in modify) simp
  have out: "within ?R (on_world (send_to P sk buf b e addr))" for sk buf b e addr
  proof (rule within_world)
    have "quiet_call D (\<lambda>w. case sys_sendmsg P (sock sk) chunks addr fl w of (rc, w') \<Rightarrow> ((rc, ()), w'))" for chunks fl
      using send [of "sock sk" chunks addr fl] by (simp add: quiet_call_def case_prod_beta')
    note call = quiet_nonblocking [OF this, unfolded quiet_world_def]
    show "quiet_world D (send_to P sk buf b e addr)"
      unfolding send_to_def send_to_iov_def quiet_world_def
      by (intro keeps_intros call) (simp add: keeps_def op_defs split: prod.split)
  qed
  have "within ?R (daytime_send ?M P i)"
    unfolding daytime_send_def by (intro completes_intros out down within_day_timeout_in) auto
  then show "within ?R (daytime_run ?M P i ev)"
    unfolding daytime_run_def by (intro completes_intros down)
qed

text \<open>Accepting a connection.\<close>

lemma daytime_accept_within:
  fixes D :: "'k \<Rightarrow> timeval \<Rightarrow> nat"
  assumes close: "\<And>s. quiet_call D (sys_close P s)" and spm: "\<And>m. quiet_call D (spm m)" and sys: "\<And>ps to m. quiet_call D (sys ps to m)"
  shows "within fewer_events (daytime_accept (poll_ops P hv spm sys) localtime L s peer :: ((poll_demux, 'k) daytime_program, unit) op)"
proof -
  let ?M = "poll_ops P hv spm sys" and ?W = "\<lambda>m. within (fewer_events :: (poll_demux, 'k) daytime_program \<Rightarrow> _) m"
  have gone: "?W (on_dispatch (dispatch_socket_destruct ?M sk))" for sk
    by (rule within_fewer, rule poll_pending.destruct_within [OF demux_keeps_poll [OF close spm sys]])
  have upd: "?W (upd_day i g)" and set: "?W (modify_op (\<lambda>st. st\<lparr>days := g' st\<rparr>))"
    and drop: "?W (on_schedule (timeout_destroy tid))" for i g g' tid
    by (rule within_fewer [OF within_upd_day])
      (simp_all add: within_def fewer_events_def op_defs within_fewer [OF within_timeout_destroy, unfolded within_def fewer_events_def])
  have now: "?W (on_world (lib_call (localtime t)))" for t
    by (simp add: within_def on_world_apply fewer_events_def split: prod.split)
  have reset: "?W (day_sock_reset ?M i)" for i
    unfolding day_sock_reset_def by (intro completes_intros) (auto intro!: completes_intros gone upd split: option.split)
  have "?W (daytime_destruct ?M i)" for i
    unfolding daytime_destruct_def by (intro completes_intros reset set drop)
  moreover have "?W (daytime_construct ?M localtime s peer)"
  proof -
    have new: "?W (\<lambda>st. let i = next_day st in (Inr i, st\<lparr>next_day := i + 1, days := (days st)(i \<mapsto> g st)\<rparr>))" for g
      by (simp add: within_def fewer_events_def Let_def)
    have "?W (case strftime_date DAYTIME_BUF_SIZE tstamp of (len, text) \<Rightarrow> then_op (assert_op (0 < len)) (\<lambda>st. let i = next_day st in
       (Inr i, st\<lparr>next_day := i + 1, days := (days st)(i \<mapsto> g st len text)\<rparr>)))" for tstamp g
      by (cases "strftime_date DAYTIME_BUF_SIZE tstamp") (simp only: prod.case, intro completes_intros new)
    then have "?W (bind_op (on_world (lib_call (localtime t))) (\<lambda>tstamp. case strftime_date DAYTIME_BUF_SIZE tstamp of (len, text) \<Rightarrow>
       then_op (assert_op (0 < len)) (\<lambda>st. let i = next_day st in (Inr i, st\<lparr>next_day := i + 1, days := (days st)(i \<mapsto> g st len text)\<rparr>))))" for t g
      by (intro completes_intros now)
    then show ?thesis
      unfolding daytime_construct_def by (intro completes_intros) (simp add: within_def)
  qed
  ultimately show ?thesis
    unfolding daytime_accept_def by (intro completes_intros)
qed

lemma daytime_accept_world:
  assumes "daytime_accept (poll_ops P hv spm sys) localtime L s peer st = (Inr (), st')"
  shows "\<exists>t w. w = snd (localtime t (the_world st)) \<and> the_world st' = snd (adns_submit_reverse L peer adns_r_ptr adns_qf_none w)"
proof -
  let ?M = "poll_ops P hv spm sys"
  from assms obtain i st1 where 1: "daytime_construct ?M localtime s peer st = (Inr i, st1)"
      and 2: "unwind_op (query_ptr_address L peer (Some (Daytime_start i))) (daytime_destruct ?M i) st1 = (Inr (), st')"
    unfolding daytime_accept_def by (elim bind_op_InrE)
  from 1 have "\<exists>t. the_world st1 = snd (localtime t (the_world st))"
    unfolding daytime_construct_def
  proof (elim bind_op_InrE, goal_cases)
    case (1 sk st0 tstamp st2)
    from construct_world [OF 1(1)] have "the_world st0 = the_world st" .
    moreover from 1(2) have "the_world st2 = snd (localtime (current_time_t (core_now st0)) (the_world st0))"
      by (auto simp: on_world_apply lib_call_def split: prod.splits)
    moreover from 1(3) have "the_world st1 = the_world st2"
      by (auto simp: op_defs Let_def split: prod.splits if_splits)
    ultimately show ?case by metis
  qed
  moreover from 2 have "query_ptr_address L peer (Some (Daytime_start i)) st1 = (Inr (), st')"
    by (auto simp: unwind_op_def split: prod.splits sum.splits if_splits)
  ultimately show ?thesis using query_world by metis
qed

section \<open>The daytime server gives control back\<close>

text \<open>
  Every call of \<open>core::run\<close> of the program whose handlers, tasks and callbacks are those of the acceptor
  and the daytime connections returns, from every state.
\<close>

theorem daytime_program_run_returns:
  fixes D :: "'k \<Rightarrow> timeval \<Rightarrow> nat" and B :: "'k \<Rightarrow> nat" and st :: "(poll_demux, 'k) daytime_program"
  assumes kernel: "\<And>s. quiet_call D (sys_close P s)" "\<And>m. quiet_call D (spm m)" "\<And>ps to m. quiet_call D (sys ps to m)"
    and send: "\<And>s chunks addr fl. quiet_call D (sys_sendmsg P s chunks addr fl)"
    and law: "adns_progress_law D need L"
    and fds: "descriptors_law B P" "\<And>t. quiet_call B (localtime t)"
      "\<And>peer w. B (os (snd (adns_submit_reverse L peer adns_r_ptr adns_qf_none w))) \<le> B (os w)"
    and M: "M = poll_ops P hv spm sys"
  shows "\<exists>r st'. core_program_run M L (daytime_handlers M P localtime L ls) (daytime_tasks M) (daytime_answers M) st = Some (r, st')"
proof -
  let ?R = "no_more_work poll_n_events D :: (poll_demux, 'k) daytime_program \<Rightarrow> _ \<Rightarrow> _"
  have steps: "within ?R (daytime_shutdown M i)" "within ?R (daytime_start M i)" "within ?R (daytime_run M P i ev)" for i ev
    unfolding M by (rule daytime_callbacks_within; rule kernel send)+
  have accept: "completes fewer_events (acceptor_handler P (daytime_accept M localtime L :: _ \<Rightarrow> _ \<Rightarrow> ((poll_demux, 'k) daytime_program, unit) op) ls)"
  proof (rule acceptor_handler_completes [OF fds(1)])
    show "within fewer_events (daytime_accept M localtime L c peer :: ((poll_demux, 'k) daytime_program, unit) op)" for c peer
      unfolding M by (rule daytime_accept_within [OF kernel])
    show "B (os (the_world t)) \<le> B (os (the_world s))" if "daytime_accept M localtime L c peer s = (Inr (), t)"
      for c peer and s t :: "(poll_demux, 'k) daytime_program"
    proof -
      from daytime_accept_world [OF that [unfolded M]] obtain x w where
        "w = snd (localtime x (the_world s))" "the_world t = snd (adns_submit_reverse L peer adns_r_ptr adns_qf_none w)" by blast
      with fds(3) [of peer w] fds(2) [of x] show ?thesis by (simp add: quiet_call_def)
    qed
  qed
  have h: "completes (\<lambda>s t. poll_n_events (the_demux t) \<le> poll_n_events (the_demux s)) (daytime_handlers M P localtime L ls f ev)" for f ev
  proof (cases f)
    case (Daytime_run i)
    have "completes ?R (lift_op (daytime_run M P i ev))" by (intro completes_lift steps(3))
    with Daytime_run show ?thesis by (auto simp: no_more_work_def elim: completes_mono)
  next
    case Daytime_acceptor
    with accept show ?thesis by (auto simp: fewer_events_def elim: completes_mono)
  qed (simp add: completes_def lift_op_def op_defs)
  have "completes ?R (daytime_tasks M f)" for f
    by (cases f) (auto intro!: completes_intros steps)
  then have t: "completes (\<lambda>s t. due t \<le> due s) (daytime_tasks M f)" for f
    by (rule completes_mono) (simp add: no_more_work_def)
  have u: "completes ?R (daytime_answers M u x)" for u x
    by (cases u) (auto intro!: completes_intros steps)
  show ?thesis
    unfolding M
    by (rule poll_pending.program_run_ends [OF demux_keeps_poll law h [unfolded M] t [unfolded M] u [unfolded M]]) (rule kernel)+
qed

end
