(* ===== verification/Ioxx_Tests.thy ===== *)
theory Ioxx_Tests
  imports Ioxx_Schedule Select_Demux Poll_Demux Epoll_Demux
begin

text \<open>
  The repository's own unit tests, run on the model.

  Those of \<open>test/schedule.cpp\<close> are programs on the model of the time-event dispatcher.  The state is the schedule, the clock that it refers to and the counter that the tasks increment.  \<open>sleep\<close> followed
  by \<open>update\<close> advances the clock by the time slept, which is what the tests rely on.  The
  model passes the tests whenever they are started.  From \<open>test/demux.cpp\<close> the test of the event set
  operators is here, from \<open>test/socket.cpp\<close> that of the constructor.
\<close>

unbundle bit_operations_syntax

datatype test_task = Dummy | Cancel_task task_id

type_synonym test_state = "test_task schedule \<times> int \<times> nat"

fun test_call :: "test_task \<Rightarrow> (test_state, unit) prog" where
  "test_call Dummy (s, now, n) = Some (Inr (), (s, now, n + 1))"
| "test_call (Cancel_task tid) (s, now, n) = lift_op (on_fst (bind_op (schedule_cancel tid) (\<lambda>_. ret ()))) (s, now, n)"

text \<open>\<open>BOOST_REQUIRE\<close>, and the steps of a test.\<close>

definition require :: "(test_state \<Rightarrow> bool) \<Rightarrow> (test_state, unit) prog" where
  "require p st = Some (if p st then Inr () else Inl (Runtime_error ''requirement failed''), st)"

definition test_run :: "(test_state, u32) prog" where
  "test_run st = schedule_run fst test_call st"

definition test_at_now :: "test_task \<Rightarrow> (test_state, task_id) prog" where
  "test_at_now f st = lift_op (on_fst (schedule_at (fst (snd st)) f)) st"

definition test_in :: "u32 \<Rightarrow> test_task \<Rightarrow> (test_state, task_id) prog" where
  "test_in to f st = lift_op (on_fst (schedule_in (fst (snd st)) to f)) st"

definition sleep_and_update :: "u32 \<Rightarrow> (test_state, unit) prog" where
  "sleep_and_update to = (\<lambda>(s, now, n). Some (Inr (), (s, now + uint to, n)))"

abbreviation counted :: "nat \<Rightarrow> (test_state, unit) prog" where
  "counted k \<equiv> require (\<lambda>st. snd (snd st) = k)"

abbreviation test_empty :: "(test_state, unit) prog" where
  "test_empty \<equiv> require (\<lambda>st. schedule_empty (fst st))"

abbreviation delay_is :: "u32 \<Rightarrow> u32 \<Rightarrow> (test_state, unit) prog" where
  "delay_is d delay \<equiv> require (\<lambda>_. delay = d)"

section \<open>The tests\<close>

definition dummy_schedule_test :: "(test_state, unit) prog" where
  "dummy_schedule_test =
     then_prog test_empty (bind_prog test_run (\<lambda>delay. then_prog (delay_is 0 delay) (then_prog (counted 0)
     (then_prog (test_at_now Dummy) (then_prog (test_in 1 Dummy) (bind_prog (test_in 5 Dummy) (\<lambda>tid.
     bind_prog test_run (\<lambda>delay. then_prog (delay_is 1 delay) (then_prog (counted 1)
     (then_prog (sleep_and_update delay)
     (bind_prog test_run (\<lambda>delay. then_prog (delay_is 4 delay) (then_prog (counted 2)
     (then_prog (lift_op (on_fst (schedule_unsafe_cancel tid)))
     (bind_prog test_run (\<lambda>delay. then_prog (counted 2) (then_prog (delay_is 0 delay) test_empty)))))))))))))))))"

definition test_schedule_timeout :: "(test_state, unit) prog" where
  "test_schedule_timeout =
     then_prog (counted 0)
     (bind_prog (\<lambda>st. lift_op (on_fst (timeout_at (fst (snd st)) Dummy timeout_new)) st) (\<lambda>(_, tid).
     then_prog test_run (then_prog (counted 1)
     (bind_prog (\<lambda>st. lift_op (on_fst (timeout_in (fst (snd st)) 1 Dummy tid)) st) (\<lambda>(_, tid).
     then_prog (lift_op (on_fst (timeout_destroy tid)))
     (then_prog test_run (counted 1)))))))"

definition basic_schedule_test :: "(test_state, unit) prog" where
  "basic_schedule_test =
     then_prog test_empty (bind_prog test_run (\<lambda>delay. then_prog (delay_is 0 delay) (then_prog (counted 0)
     (then_prog (test_at_now Dummy) (then_prog (test_in 1 Dummy) (bind_prog (test_in 5 Dummy) (\<lambda>tid.
     then_prog (test_in 2 (Cancel_task tid))
     (bind_prog test_run (\<lambda>delay. then_prog (delay_is 1 delay) (then_prog (counted 1)
     (then_prog (sleep_and_update delay)
     (bind_prog test_run (\<lambda>delay. then_prog (counted 2) (then_prog (require (\<lambda>_. delay \<le> 1))
     (then_prog (sleep_and_update delay)
     (bind_prog test_run (\<lambda>delay. then_prog (counted 2) (then_prog (delay_is 0 delay) test_empty))))))))))))))))))"

section \<open>The model passes them\<close>

lemma run_literal:
  "schedule_run now call (\<lparr>queue = [], next_node = k\<rparr>, r) = Some (Inr 0, (\<lparr>queue = [], next_node = k\<rparr>, r))"
  "schedule_run now call (\<lparr>queue = x # xs, next_node = k\<rparr>, r) =
     (if fst x \<le> now r
      then (case call (snd (snd x)) (\<lparr>queue = xs, next_node = k\<rparr>, r) of
              None \<Rightarrow> None
            | Some (Inl e, st') \<Rightarrow> Some (Inl e, st')
            | Some (Inr _, st') \<Rightarrow> schedule_run now call st')
      else if in_time_range (fst x - now r)
      then Some (Inr (word_of_int (fst x - now r)), (\<lparr>queue = x # xs, next_node = k\<rparr>, r))
      else Some (Inl Undefined_behaviour, (\<lparr>queue = x # xs, next_node = k\<rparr>, r)))"
  by (subst schedule_run.simps, simp)+

lemmas test_defs = test_run_def test_at_now_def test_in_def sleep_and_update_def require_def schedule_init_def schedule_empty_def
  schedule_at_def schedule_in_def schedule_unsafe_cancel_def queue_erase_def mm_erase_def schedule_cancel_def
  timeout_at_def timeout_in_def timeout_destroy_def timeout_new_def on_fst_def in_time_range_def

text \<open>Every requirement of the three tests holds, whatever the time at which they are run.\<close>

theorem schedule_tests_pass:
  assumes "0 < t" "t < 9223372036854775800"
  shows "\<exists>k. dummy_schedule_test (schedule_init, t, 0) = Some (Inr (), (\<lparr>queue = [], next_node = k\<rparr>, t + 1, 2))"
    and "\<exists>k. test_schedule_timeout (schedule_init, t, 0) = Some (Inr (), (\<lparr>queue = [], next_node = k\<rparr>, t, 1))"
    and "\<exists>k. basic_schedule_test (schedule_init, t, 0) = Some (Inr (), (\<lparr>queue = [], next_node = k\<rparr>, t + 2, 2))"
  using assms
  by (simp_all add: dummy_schedule_test_def test_schedule_timeout_def basic_schedule_test_def test_defs op_defs run_literal)

section \<open>Event sets and sockets\<close>

text \<open>The requirements of \<open>use_standard_event_set_operators\<close>, for the enumeration \<open>c\<close>.\<close>

definition use_standard_event_set_operators :: "event_codes \<Rightarrow> bool" where
  "use_standard_event_set_operators c \<longleftrightarrow> no_events = 0 \<and>
     (let ev = readable c in
        ev = readable c \<and> has_event ev (readable c) \<and> \<not> has_event ev (writable c) \<and> \<not> has_event ev (pridata c) \<and>
        (let ev = event_or ev (writable c) in
           uint ev = (uint (readable c) OR uint (writable c)) \<and>
           has_event ev (readable c) \<and> has_event ev (writable c) \<and> \<not> has_event ev (pridata c))) \<and>
     (let ev = event_or (writable c) (pridata c) in
        uint ev = (uint (pridata c) OR uint (writable c)) \<and>
        has_event ev (pridata c) \<and> has_event ev (writable c) \<and> \<not> has_event ev (readable c))"

context event_bits
begin

lemma operators_tested: "use_standard_event_set_operators c"
proof -
  have own: "has_event (readable c) (readable c)" "has_event (writable c) (writable c)" "has_event (pridata c) (pridata c)"
    using nonzero by (simp_all add: has_event_def)
  have other: "\<not> has_event (readable c) (writable c)" "\<not> has_event (readable c) (pridata c)" "\<not> has_event (writable c) (readable c)"
    "\<not> has_event (writable c) (pridata c)" "\<not> has_event (pridata c) (readable c)" "\<not> has_event (pridata c) (writable c)"
    using disjoint disjoint_sym by (simp_all add: has_event_def)
  show ?thesis
    by (simp add: use_standard_event_set_operators_def event_or_def has_event_or own other no_events_def uint_or or.commute)
qed

end

theorem event_set_tests_pass:
  "use_standard_event_set_operators select_codes" "use_standard_event_set_operators poll_codes"
  "use_standard_event_set_operators epoll_codes"
  by (rule select_bits.operators_tested poll_bits.operators_tested epoll_bits.operators_tested)+

definition cannot_construct_invalid_system_socket :: bool where
  "cannot_construct_invalid_system_socket \<longleftrightarrow>
     (case fst (system_socket_construct (-1) take_ownership ()) of Inl (Invalid_argument _) \<Rightarrow> True | _ \<Rightarrow> False)"

theorem socket_test_passes: "cannot_construct_invalid_system_socket"
  by (simp add: cannot_construct_invalid_system_socket_def system_socket_construct_def)

end
