(* ===== verification/Spec2Isabelle.thy ===== *)
theory Spec2Isabelle
  imports Ioxx_Schedule Select_Demux Poll_Demux Ioxx_Core Ioxx_Adns_Delivery Ioxx_Acceptor Ioxx_Iovec Ioxx_Program Ioxx_Echo_Program
    Ioxx_Daytime_Program Ioxx_Tests
begin

text \<open>
  A verification development for the C++ library ioxx (asynchronous socket I/O, time events and DNS),
  the headers under \<open>include/ioxx/\<close>.

  \<^bold>\<open>The program.\<close>  An application owns a \<open>core\<close> and calls \<open>io.wait(io.run())\<close> until \<open>io.empty()\<close>.
  \<open>run\<close> delivers the pending socket events to the handlers of the dispatcher, executes the tasks whose
  time has come, lets the resolver tell the dispatcher which descriptors and which time-out it waits
  for, executes due tasks once more and answers how long the program may sleep; \<open>wait\<close> sleeps in the
  demultiplexer and updates the clock.  Handlers, tasks and DNS callbacks may call every operation of
  the library, so all loops are loops over callbacks that change the state the loop runs on.

  \<^bold>\<open>Theories.\<close>
  \<^item> \<open>Ioxx_Prelude\<close>: outcomes of an operation (a value, an exception, a failed assertion, undefined
    behaviour), operations as functions on a state, destructors and unwinding, and the collection
    \<open>keeps_intros\<close> of facts on what an operation leaves alone.
  \<^item> \<open>Ioxx_Multimap\<close>: \<open>std::multimap\<close> as a list sorted by key, insertion behind equal keys.
  \<^item> \<open>Ioxx_Error\<close> (\<open>error.hpp\<close>): \<open>throw_errno_if\<close> with its bounded restart after signals.
  \<^item> \<open>Ioxx_Signal\<close> (\<open>signal.hpp\<close>): the scope guards for the signal mask, and the two ways the
    demultiplexers unblock signals while they wait.
  \<^item> \<open>Ioxx_Schedule\<close> (\<open>schedule.hpp\<close>): the queue of tasks, \<open>at\<close>, \<open>in\<close>, \<open>cancel\<close>, \<open>run\<close>, and the class
    \<open>timeout\<close>.  Locale \<open>timer_store\<close>, interpreted on the model.
  \<^item> \<open>Ioxx_Time\<close> (\<open>time.hpp\<close>): the clock.
  \<^item> \<open>Ioxx_Iovec\<close> (\<open>iovec.hpp\<close>): byte ranges.
  \<^item> \<open>Ioxx_Socket\<close> (\<open>socket.hpp\<close>): \<open>system_socket\<close>, \<open>address\<close> and \<open>endpoint\<close>.
  \<^item> \<open>Ioxx_Event_Set\<close>: what the three demultiplexers share: event sets, and the contracts
    \<open>event_bits\<close>, \<open>event_source\<close> (\<open>pop_event\<close> delivers a list of events), \<open>fallible_table\<close>
    (registrations are a map, and may be refused) and its special case \<open>socket_table\<close> (they are not),
    each interpreted where a demultiplexer is modelled.
  \<^item> \<open>Select_Demux\<close>, \<open>Poll_Demux\<close>, \<open>Epoll_Demux\<close> (\<open>detail/select.hpp\<close>, \<open>detail/poll.hpp\<close>,
    \<open>detail/epoll.hpp\<close>): the demultiplexers.
  \<^item> \<open>Ioxx_Dispatch\<close> (\<open>dispatch.hpp\<close>): handlers on top of any demultiplexer; \<open>demux_ops\<close> is the
    template argument, \<open>select_ops\<close>, \<open>poll_ops\<close> and \<open>epoll_ops\<close> its instances.
  \<^item> \<open>Epoll_Table\<close>: the epoll instance of the kernel as the table of the dispatcher's sockets.
  \<^item> \<open>Ioxx_Acceptor\<close> (\<open>acceptor.hpp\<close>): the listening socket and its accept loop.
  \<^item> \<open>Ioxx_Dns_Answer\<close>, \<open>Ioxx_Adns\<close>, \<open>Ioxx_Adns_Sockets\<close> (\<open>detail/adns.hpp\<close>): decoding of answers,
    queries and callbacks, and the loop that keeps the dispatcher in step with the adns library;
    \<open>Ioxx_Adns_Delivery\<close>: the answers reach the handlers of their queries.
  \<^item> \<open>Ioxx_Core\<close> (\<open>core.hpp\<close>): the composition and the main loop; \<open>Ioxx_Core_Invariant\<close>: the invariant
    \<open>core_ok\<close> of the state the components share, and the locale \<open>demux_contract\<close> of what it asks of a
    demultiplexer.  The values \<open>Resolver_fd\<close> and \<open>Resolver_timeout\<close> stand for the handlers the resolver
    binds itself; \<open>core_program_run\<close> is \<open>run\<close> with them in place.
  \<^item> \<open>Ioxx_Main_Loop\<close>: programs on \<open>core\<close> as a state machine, \<open>library_op\<close> and \<open>program_reaches\<close>, and the
    locale \<open>main_loop_contract\<close>, which extends \<open>demux_contract\<close>; \<open>Ioxx_Loop_Contracts\<close> interprets it on
    the three demultiplexers, \<open>Ioxx_Program\<close> draws the conclusions for programs on them.
  \<^item> \<open>Ioxx_Adns_Life\<close>: what a call of the resolver's \<open>run\<close> and its destructor leave behind.
  \<^item> \<open>Ioxx_Returns\<close>: the phases of \<open>run\<close> come to an end; locale \<open>pending_events\<close>, interpreted on the
    three demultiplexers.
  \<^item> \<open>Ioxx_Show\<close> (\<open>detail/show.hpp\<close>): numbers, sockets and addresses as text.
  \<^item> \<open>Ioxx_Client\<close>: what the two servers share: exception handlers, the laws of streams, the acceptor as
    a handler, and the effect of the operations of \<open>core\<close> on an object with a socket and a time-out;
    \<open>Ioxx_Client_Returns\<close>: none of these operations keeps \<open>run\<close> from returning.
  \<^item> \<open>Ioxx_Echo\<close> (\<open>test/echo.hpp\<close>): the echo server, a client that uses every part of the library: its
    connections as records beside the \<open>core\<close>, their handlers, tasks and callbacks; \<open>Ioxx_Echo_Program\<close>:
    the server, with its acceptor, as a program on \<open>core\<close>.
  \<^item> \<open>Ioxx_Daytime\<close> (\<open>test/daytime.hpp\<close>): the daytime server, with the part of \<open>strftime\<close> that it uses;
    \<open>Ioxx_Daytime_Program\<close>: the server, with its acceptor, as a program on \<open>core\<close>.
  \<^item> \<open>Ioxx_Tests\<close> (\<open>test/schedule.cpp\<close>, \<open>demux.cpp\<close>, \<open>socket.cpp\<close>): the repository's unit tests of the
    schedule, the event sets and the socket constructor, which the model passes.

  \<^bold>\<open>Conventions.\<close>  The model is the debug build: every \<open>BOOST_ASSERT\<close> is a branch to
  \<open>Assertion_failed\<close>.  What C++ leaves undefined (a stale iterator, an index out of range, a null
  function) is a branch to \<open>Undefined_behaviour\<close>, never an arbitrary value.  An exception is a value of
  \<open>fault\<close>; when it leaves a scope the destructors of the scope run.  A loop that calls handlers is a
  \<open>partial_function (option)\<close>: \<^const>\<open>None\<close> means that it does not return, and the theorems on
  termination and starvation are about exactly that.  Handlers, tasks and callbacks are values of type
  variables, and an argument of each loop says what calling one does to the state.  The operating
  system, \<open>gettimeofday\<close> and the adns library are records of functions on a world (\<open>errno\<close> and an
  abstract kernel state); what a theorem needs of them is a named law (\<open>read_law\<close>, \<open>fcntl_law\<close>,
  \<open>epoll_ctl_law\<close>, \<open>close_law\<close>, \<open>adns_check_law\<close>, ...) that states documented behaviour, and each law is
  shown to hold of a concrete system in the witness of the theorem.  Iterators
  are the identities of their nodes; to erase through one whose node is gone, or to compare with it, is
  undefined behaviour.  Event sets, time-outs and lengths
  are words of their width; descriptors and time stamps are integers, and \<open>schedule::in\<close> and \<open>run\<close>
  check the range of \<open>time_t\<close> and \<open>int\<close>.

  \<^bold>\<open>What the theorems show.\<close>  Tasks run in time order, first come first served, each once; \<open>cancel\<close> and
  \<open>at\<close> are inverse; \<open>run\<close> of the schedule returns unless tasks keep queueing due work.  Each
  demultiplexer keeps its tables consistent under every sequence of registrations and delivers exactly
  what the kernel reports.  The dispatcher calls for each event the handler registered at that moment.
  On \<open>epoll\<close> the dispatcher's table is the kernel's, so that no descriptor is watched without a handler.
  A program that calls the operations of the library in any order, from its main loop and from its
  handlers, reaches consistent states only, on each demultiplexer; and \<open>run\<close> gives control back when
  the callbacks of the application do not add to the work it does, with no fuel in its model.
  The resolver's timer never sleeps through a time-out of the library, and its destructor takes the
  sockets, handlers and timer of the resolver with it.
  The resolver keeps queries and callbacks together, passes every answer to the handler of its query and
  keeps the dispatcher in step with the adns library.  The acceptor serves its queue in order and leaks
  no connection.  The echo server sends back what it has received, and the
  daytime server sends the date of the connection, unless the kernel takes no more of it, and closes it; the \<open>run\<close> of either server, acceptor
  included, always gives control back as long as the process can only open finitely many descriptors.
  A group of theorems shows where the code fails: conditions under which an assertion fails or undefined
  behaviour is reached from ordinary use.

  \<^bold>\<open>Not modelled.\<close>  Logging (macros around an external library); \<open>timeout::swap\<close>, whose body names the
  member itself with the wrong number of arguments and cannot be instantiated, which is why the
  time-event dispatcher counts as partly modelled; exhaustion of memory; what becomes of a handler
  that destroys its own function object while it runs, as those of the servers do; allocator
  arguments; \<open>ioxx.hpp\<close>, which is documentation; the values of the constants of the adns library; the
  operators on the flags of DNS queries, which the code does not use; under \<open>test/\<close> the inetd example,
  which runs both servers in one program, and the tests that need a network; the moment at which the
  memory of a connection that nothing refers to any longer is reclaimed.
\<close>

end
